(* ===== verification/Relay_Prelude.thy ===== *)
theory Relay_Prelude
  imports Complex_Main "HOL-Library.Word" "HOL-Library.AList"
begin

text \<open>
  Shared vocabulary of the development: Python values (bytes, strings, exceptions), the
  state-and-exception programs in which the server's methods are written, a weakest
  precondition calculus for them, and the generic lemmas on lists and dictionaries the
  component theories use.
\<close>

unbundle bit_operations_syntax

named_theorems wp_simps \<open>weakest preconditions of the program combinators\<close>

subsection \<open>Python values\<close>

text \<open>
  A \<open>bytes\<close> object is a list of 8-bit words. A \<open>str\<close> is a list of code points. A
  \<open>dict\<close> is an association list in insertion order: \<open>AList.update\<close> replaces the value of
  an existing key in place and appends a new key at the end, as Python's assignment does.
\<close>

type_synonym byte = "8 word"
type_synonym bytes = "byte list"
type_synonym pystr = "nat list"

datatype pyexn =
    ValueError
  | UnicodeEncodeError
  | AssertionError
  | AttributeError
  | IndexError
  | KeyError
  | ZeroDivisionError
  | OSError

text \<open>The \<open>bytes([...])\<close> constructor: every item must be in \<open>range(256)\<close>.\<close>

definition py_bytes :: "int list \<Rightarrow> pyexn + bytes" where
  "py_bytes xs = (if \<forall>x \<in> set xs. 0 \<le> x \<and> x < 256 then Inr (map of_int xs) else Inl ValueError)"

text \<open>\<open>s.encode("ascii")\<close>, \<open>b.decode("ascii", "replace")\<close>, \<open>s.rstrip(chars)\<close>, \<open>b.ljust(n, fill)\<close>.\<close>

definition encode_ascii :: "pystr \<Rightarrow> pyexn + bytes" where
  "encode_ascii s = (if \<forall>ch \<in> set s. ch < 128 then Inr (map of_nat s) else Inl UnicodeEncodeError)"

definition decode_ascii_replace :: "bytes \<Rightarrow> pystr" where
  "decode_ascii_replace b = map (\<lambda>x. if unat x < 128 then unat x else 0xFFFD) b"

definition rstrip :: "'a set \<Rightarrow> 'a list \<Rightarrow> 'a list" where
  "rstrip cs s = rev (dropWhile (\<lambda>x. x \<in> cs) (rev s))"

definition ljust :: "nat \<Rightarrow> 'a \<Rightarrow> 'a list \<Rightarrow> 'a list" where
  "ljust n fill s = s @ replicate (n - length s) fill"

text \<open>\<open>xs.index(x)\<close>: \<open>None\<close> where Python raises ValueError.\<close>

fun py_index :: "'a list \<Rightarrow> 'a \<Rightarrow> nat option" where
  "py_index [] x = None"
| "py_index (y # ys) x = (if y = x then Some 0 else map_option Suc (py_index ys x))"

lemma py_index_None: "py_index xs x = None \<longleftrightarrow> x \<notin> set xs"
  by (induction xs) auto

lemma py_index_Some: "py_index xs x = Some i \<Longrightarrow> i < length xs \<and> xs ! i = x"
  by (induction xs arbitrary: i) (auto split: if_splits)

lemma py_index_nth:
  "distinct xs \<Longrightarrow> i < length xs \<Longrightarrow> py_index xs (xs ! i) = Some i"
proof (induction xs arbitrary: i)
  case (Cons y ys)
  then show ?case by (cases i) auto
qed simp

lemma length_ljust: "length (ljust n f s) = max n (length s)"
  by (simp add: ljust_def)

lemma rstrip_id: "s = [] \<or> last s \<notin> cs \<Longrightarrow> rstrip cs s = s"
  by (cases s rule: rev_cases) (auto simp: rstrip_def)

lemma rstrip_append_pad:
  "set p \<subseteq> cs \<Longrightarrow> rstrip cs (s @ p) = rstrip cs s"
  by (simp add: rstrip_def dropWhile_append subset_iff)

subsection \<open>Programs: state passing with exceptions\<close>

text \<open>
  A method of the server reads and writes the whole server state and may raise. The state
  reached when an exception leaves the method is kept: Python does not roll back.
\<close>

type_synonym ('s, 'e, 'a) prog = "'s \<Rightarrow> ('e + 'a) \<times> 's"

definition return :: "'a \<Rightarrow> ('s, 'e, 'a) prog" where
  "return x = (\<lambda>s. (Inr x, s))"

definition raise :: "'e \<Rightarrow> ('s, 'e, 'a) prog" where
  "raise e = (\<lambda>s. (Inl e, s))"

definition bind :: "('s, 'e, 'a) prog \<Rightarrow> ('a \<Rightarrow> ('s, 'e, 'b) prog) \<Rightarrow> ('s, 'e, 'b) prog" where
  "bind m k = (\<lambda>s. case m s of (Inl e, s') \<Rightarrow> (Inl e, s') | (Inr x, s') \<Rightarrow> k x s')"

definition reading :: "('s \<Rightarrow> ('s, 'e, 'a) prog) \<Rightarrow> ('s, 'e, 'a) prog" where
  "reading f = (\<lambda>s. f s s)"

definition modify :: "('s \<Rightarrow> 's) \<Rightarrow> ('s, 'e, unit) prog" where
  "modify f = (\<lambda>s. (Inr (), f s))"

definition attempt :: "('e2 \<Rightarrow> 'e) \<Rightarrow> 'e2 + 'a \<Rightarrow> ('s, 'e, 'a) prog" where
  "attempt err r = (case r of Inl e \<Rightarrow> raise (err e) | Inr x \<Rightarrow> return x)"

text \<open>A suite of statements, \<open>if b: suite\<close>, and \<open>try: m except: h\<close>.\<close>

primrec block :: "('s, 'e, unit) prog list \<Rightarrow> ('s, 'e, unit) prog" where
  "block [] = return ()"
| "block (m # ms) = bind m (\<lambda>_. block ms)"

definition only_if :: "bool \<Rightarrow> ('s, 'e, unit) prog \<Rightarrow> ('s, 'e, unit) prog" where
  "only_if b m = (if b then m else return ())"

definition catch :: "('s, 'e, 'a) prog \<Rightarrow> ('e \<Rightarrow> ('s, 'f, 'a) prog) \<Rightarrow> ('s, 'f, 'a) prog" where
  "catch m h = (\<lambda>s. case m s of (Inl e, s') \<Rightarrow> h e s' | (Inr x, s') \<Rightarrow> (Inr x, s'))"

text \<open>\<open>for x in list(xs)\<close>: the list is a snapshot.\<close>

primrec for_each :: "'b list \<Rightarrow> ('b \<Rightarrow> ('s, 'e, unit) prog) \<Rightarrow> ('s, 'e, unit) prog" where
  "for_each [] f = return ()"
| "for_each (x # xs) f = bind (f x) (\<lambda>_. for_each xs f)"

text \<open>
  \<open>for i, x in enumerate(xs)\<close> over a live list: Python's list iterator keeps an index and
  looks the list up again before every round, so a body that removes elements shifts the
  rest under it. The recursion is on a round budget; \<open>stuck\<close> is raised only when the
  budget ends with rounds left (a growing list), which \<open>wp_for_live\<close> excludes for lists
  that never grow.
\<close>

primrec for_live_from ::
  "nat \<Rightarrow> 'e \<Rightarrow> nat \<Rightarrow> ('s \<Rightarrow> 'b list) \<Rightarrow> (nat \<Rightarrow> 'b \<Rightarrow> ('s, 'e, unit) prog) \<Rightarrow> ('s, 'e, unit) prog"
where
  "for_live_from 0 stuck i xs f =
     reading (\<lambda>s. if i < length (xs s) then raise stuck else return ())"
| "for_live_from (Suc n) stuck i xs f =
     reading (\<lambda>s. if i < length (xs s)
       then bind (f i (xs s ! i)) (\<lambda>_. for_live_from n stuck (Suc i) xs f)
       else return ())"

definition for_live ::
  "'e \<Rightarrow> ('s \<Rightarrow> 'b list) \<Rightarrow> (nat \<Rightarrow> 'b \<Rightarrow> ('s, 'e, unit) prog) \<Rightarrow> ('s, 'e, unit) prog" where
  "for_live stuck xs f = reading (\<lambda>s. for_live_from (length (xs s)) stuck 0 xs f)"

subsection \<open>Weakest preconditions\<close>

text \<open>
  \<open>wp m Q E s\<close>: run from \<open>s\<close>, the program \<open>m\<close> either returns with \<open>Q\<close> or raises with
  \<open>E\<close>. With \<open>E = (\<lambda>_ _. False)\<close> it states that \<open>m\<close> raises nothing.
\<close>

definition wp ::
  "('s, 'e, 'a) prog \<Rightarrow> ('a \<Rightarrow> 's \<Rightarrow> bool) \<Rightarrow> ('e \<Rightarrow> 's \<Rightarrow> bool) \<Rightarrow> 's \<Rightarrow> bool" where
  "wp m Q E s = (case m s of (Inl e, s') \<Rightarrow> E e s' | (Inr x, s') \<Rightarrow> Q x s')"

abbreviation no_exn :: "'e \<Rightarrow> 's \<Rightarrow> bool" where
  "no_exn \<equiv> \<lambda>_ _. False"

lemma wp_return [wp_simps]: "wp (return x) Q E s = Q x s"
  by (simp add: wp_def return_def)

lemma wp_raise [wp_simps]: "wp (raise e) Q E s = E e s"
  by (simp add: wp_def raise_def)

lemma wp_bind [wp_simps]: "wp (bind m k) Q E s = wp m (\<lambda>x s'. wp (k x) Q E s') E s"
  by (simp add: wp_def bind_def split: prod.splits sum.splits)

lemma wp_reading [wp_simps]: "wp (reading f) Q E s = wp (f s) Q E s"
  by (simp add: wp_def reading_def)

lemma wp_modify [wp_simps]: "wp (modify f) Q E s = Q () (f s)"
  by (simp add: wp_def modify_def)

lemma wp_attempt [wp_simps]:
  "wp (attempt err r) Q E s = (case r of Inl e \<Rightarrow> E (err e) s | Inr x \<Rightarrow> Q x s)"
  by (simp add: attempt_def wp_return wp_raise split: sum.splits)

lemma wp_only_if [wp_simps]: "wp (only_if b m) Q E s = (if b then wp m Q E s else Q () s)"
  by (simp add: only_if_def wp_return)

lemma wp_catch [wp_simps]: "wp (catch m h) Q E s = wp m Q (\<lambda>e s'. wp (h e) Q E s') s"
  by (simp add: wp_def catch_def split: prod.splits sum.splits)

lemma wp_block_Nil [wp_simps]: "wp (block []) Q E s = Q () s"
  by (simp add: block.simps wp_return)

lemma wp_block_Cons [wp_simps]:
  "wp (block (m # ms)) Q E s = wp m (\<lambda>_ s'. wp (block ms) Q E s') E s"
  by (simp add: block.simps wp_bind)

declare block.simps [simp del] for_each.simps [simp del] for_live_from.simps [simp del]

lemma bind_attempt [simp]:
  "bind (attempt err (Inr x)) k = k x" "bind (attempt err (Inl e)) k = raise (err e)"
  by (simp_all add: bind_def attempt_def return_def raise_def)

lemma wp_mono:
  assumes "wp m Q E s" and "\<And>x s'. Q x s' \<Longrightarrow> Q' x s'" and "\<And>e s'. E e s' \<Longrightarrow> E' e s'"
  shows "wp m Q' E' s"
  using assms by (auto simp: wp_def split: prod.splits sum.splits)

lemma wp_conj:
  "wp m Q E s \<Longrightarrow> wp m Q' E' s \<Longrightarrow> wp m (\<lambda>x s'. Q x s' \<and> Q' x s') (\<lambda>e s'. E e s' \<and> E' e s') s"
  by (auto simp: wp_def split: prod.splits sum.splits)

lemma wp_no_exn_run:
  "wp m Q no_exn s \<Longrightarrow> \<exists>x s'. m s = (Inr x, s') \<and> Q x s'"
  by (auto simp: wp_def split: prod.splits sum.splits)

text \<open>Suites of statements that each keep \<open>J\<close>.\<close>

lemma wp_only_if_keeps:
  "(b \<Longrightarrow> wp m (\<lambda>_. J) E s) \<Longrightarrow> J s \<Longrightarrow> wp (only_if b m) (\<lambda>_. J) E s"
  by (simp add: wp_only_if)

lemma wp_block_keeps:
  assumes "J s" and "\<And>m t. m \<in> set ms \<Longrightarrow> J t \<Longrightarrow> wp m (\<lambda>_. J) E t"
  shows "wp (block ms) (\<lambda>_. J) E s"
  using assms
proof (induction ms arbitrary: s)
  case (Cons m ms)
  then have "wp m (\<lambda>_. J) E s"
    by simp
  then show ?case
    unfolding wp_block_Cons by (rule wp_mono) (use Cons in auto)
qed (simp add: wp_block_Nil)

text \<open>A loop over a snapshot keeps what its body keeps.\<close>

lemma wp_for_each:
  assumes "J s" and "\<And>x s. x \<in> set xs \<Longrightarrow> J s \<Longrightarrow> wp (f x) (\<lambda>_. J) E s"
  shows "wp (for_each xs f) (\<lambda>_. J) E s"
  using assms
proof (induction xs arbitrary: s)
  case Nil
  then show ?case by (simp add: for_each.simps wp_return)
next
  case (Cons x xs)
  have "wp (f x) (\<lambda>_. J) E s"
    using Cons.prems by simp
  then have "wp (f x) (\<lambda>_ s'. wp (for_each xs f) (\<lambda>_. J) E s') E s"
    by (rule wp_mono) (use Cons in auto)
  then show ?case by (simp add: for_each.simps wp_bind)
qed

text \<open>A loop whose body establishes \<open>P x\<close>, which later rounds keep, establishes it for all.\<close>

lemma wp_for_each_all:
  assumes "J s"
    and "\<And>x s. x \<in> set xs \<Longrightarrow> J s \<Longrightarrow> wp (f x) (\<lambda>_ s'. J s' \<and> R s s' \<and> P x s') E s"
    and "\<And>x s s'. P x s \<Longrightarrow> R s s' \<Longrightarrow> P x s'"
  shows "wp (for_each xs f) (\<lambda>_ s'. J s' \<and> (\<forall>x \<in> set xs. P x s')) E s"
proof -
  have "wp (for_each ys f) (\<lambda>_ s'. J s' \<and> (\<forall>x \<in> set (zs @ ys). P x s')) E s"
    if "J s" "\<forall>x \<in> set zs. P x s" "set ys \<subseteq> set xs" for ys zs s
    using that
  proof (induction ys arbitrary: s zs)
    case Nil
    then show ?case by (simp add: for_each.simps wp_return)
  next
    case (Cons y ys)
    have "wp (f y) (\<lambda>_ s'. J s' \<and> R s s' \<and> P y s') E s"
      using Cons.prems assms(2) by simp
    then have "wp (f y) (\<lambda>_. wp (for_each ys f)
        (\<lambda>_ s'. J s' \<and> (\<forall>x \<in> set ((zs @ [y]) @ ys). P x s')) E) E s"
    proof (rule wp_mono)
      fix u and t
      assume t: "J t \<and> R s t \<and> P y t"
      then have "\<forall>x \<in> set (zs @ [y]). P x t"
        using Cons.prems(2) assms(3) by auto
      with t Cons.prems(3) show "wp (for_each ys f)
          (\<lambda>_ s'. J s' \<and> (\<forall>x \<in> set ((zs @ [y]) @ ys). P x s')) E t"
        by (intro Cons.IH) auto
    qed
    then show ?case by (simp add: for_each.simps wp_bind)
  qed
  from this [of s "[]" xs] assms(1) show ?thesis by simp
qed

text \<open>
  A loop over a live list that its body never makes longer: the round budget is enough, so
  \<open>stuck\<close> is never raised.
\<close>

lemma wp_for_live_from:
  assumes "J s" and "length (xs s) \<le> n + i"
    and body: "\<And>i s. J s \<Longrightarrow> i < length (xs s) \<Longrightarrow>
      wp (f i (xs s ! i)) (\<lambda>_ s'. J s' \<and> length (xs s') \<le> length (xs s)) E s"
  shows "wp (for_live_from n stuck i xs f) (\<lambda>_. J) E s"
  using assms(1,2)
proof (induction n arbitrary: i s)
  case 0
  then show ?case by (simp add: for_live_from.simps wp_simps)
next
  case (Suc n)
  show ?case
  proof (cases "i < length (xs s)")
    case True
    have "wp (f i (xs s ! i))
        (\<lambda>_ s'. wp (for_live_from n stuck (Suc i) xs f) (\<lambda>_. J) E s') E s"
      by (rule wp_mono [OF body [OF Suc.prems(1) True]]) (use Suc in auto)
    with True show ?thesis by (simp add: for_live_from.simps wp_simps)
  next
    case False
    with Suc.prems show ?thesis by (simp add: for_live_from.simps wp_simps)
  qed
qed

lemma wp_for_live:
  assumes "J s"
    and "\<And>i s. J s \<Longrightarrow> i < length (xs s) \<Longrightarrow>
      wp (f i (xs s ! i)) (\<lambda>_ s'. J s' \<and> length (xs s') \<le> length (xs s)) E s"
  shows "wp (for_live stuck xs f) (\<lambda>_. J) E s"
  unfolding for_live_def wp_reading
  by (rule wp_for_live_from) (use assms in simp_all)

text \<open>
  A loop whose rounds are known: if round \<open>i\<close> runs as \<open>g i\<close> wherever \<open>J i\<close> holds, and the
  list stays \<open>ys\<close>, the loop is the fold of \<open>g\<close> over the list.
\<close>

lemma for_live_run:
  assumes "J 0 s"
    and stays: "\<And>i t. J i t \<Longrightarrow> xs t = ys"
    and round: "\<And>i t. J i t \<Longrightarrow> i < length ys \<Longrightarrow> f i (ys ! i) t = (Inr (), g i (ys ! i) t)"
    and stepJ: "\<And>i t. J i t \<Longrightarrow> i < length ys \<Longrightarrow> J (Suc i) (g i (ys ! i) t)"
  shows "for_live stuck xs f s = (Inr (), fold (\<lambda>(i, y). g i y) (enumerate 0 ys) s)"
proof -
  have "for_live_from n stuck i xs f t =
      (Inr (), fold (\<lambda>(i, y). g i y) (enumerate i (drop i ys)) t)"
    if "J i t" "n + i = length ys" for n i t
    using that
  proof (induction n arbitrary: i t)
    case 0
    with stays show ?case
      by (simp add: for_live_from.simps reading_def return_def)
  next
    case (Suc n)
    then have i: "i < length ys" "drop i ys = ys ! i # drop (Suc i) ys"
      by (simp_all add: Cons_nth_drop_Suc)
    have "for_live_from n stuck (Suc i) xs f (g i (ys ! i) t) =
        (Inr (), fold (\<lambda>(i, y). g i y) (enumerate (Suc i) (drop (Suc i) ys)) (g i (ys ! i) t))"
      using Suc.prems by (intro Suc.IH stepJ i(1)) simp_all
    then show ?case
      using stays [OF Suc.prems(1)] round [OF Suc.prems(1) i(1)] i
      by (simp add: for_live_from.simps reading_def bind_def)
  qed
  from this [OF assms(1), of "length ys"] stays [OF assms(1)] show ?thesis
    by (simp add: for_live_def reading_def)
qed

subsection \<open>Lists and dictionaries\<close>

lemma filter_filter_ex: "\<exists>Q. filter P (filter P' xs) = filter Q xs"
  by (auto simp: filter_filter)

lemma remove1_filter: "distinct xs \<Longrightarrow> remove1 x xs = filter (\<lambda>y. y \<noteq> x) xs"
  by (induction xs) (auto intro!: filter_True [symmetric])

lemma map_of_eq_Some_distinct:
  "distinct (map fst al) \<Longrightarrow> map_of al k = Some v \<longleftrightarrow> (k, v) \<in> set al"
  by (rule map_of_eq_Some_iff)

lemma set_AList_update:
  "distinct (map fst al) \<Longrightarrow>
   set (AList.update k v al) = insert (k, v) {p \<in> set al. fst p \<noteq> k}"
  by (induction al) (auto simp: image_iff)

lemma AList_delete_filter: "AList.delete k al = filter (\<lambda>p. fst p \<noteq> k) al"
  by (auto simp: AList.delete_eq intro!: filter_cong)

lemma distinct_fst_filter: "distinct (map fst al) \<Longrightarrow> distinct (map fst (filter P al))"
  by (induction al) auto

subsection \<open>Numbers put together from bytes\<close>

lemma or_pair:
  fixes x y :: nat
  assumes "y < 2 ^ k"
  shows "push_bit k x OR y = 2 ^ k * x + y" and "y OR push_bit k x = 2 ^ k * x + y"
proof -
  have "take_bit k y = y"
    using assms by (rule take_bit_nat_eq_self)
  moreover have "push_bit k x AND take_bit k y = 0"
    by (auto simp: bit_eq_iff bit_simps)
  ultimately have "push_bit k x + y = push_bit k x OR y"
    using disjunctive_add_eq_or [of "push_bit k x" y] by simp
  then show "push_bit k x OR y = 2 ^ k * x + y" "y OR push_bit k x = 2 ^ k * x + y"
    by (simp_all add: push_bit_eq_mult ac_simps or.commute)
qed

lemma unat_byte: "unat (x :: byte) < 256"
proof -
  have "unat x < 2 ^ LENGTH(8)"
    by (rule unsigned_less)
  then show ?thesis by simp
qed

lemma byte_pair:
  "push_bit 8 (unat hi) OR unat (lo::byte) = 256 * unat (hi::byte) + unat lo"
  "unat lo OR push_bit 8 (unat hi) = 256 * unat hi + unat lo"
  using or_pair [of "unat lo" 8 "unat hi"] unsigned_less [of lo] by simp_all

lemma and_mask_nat: "(x::nat) AND (2 ^ k - 1) = x mod 2 ^ k"
  using take_bit_eq_mask [of k x] by (simp add: mask_eq_exp_minus_1 take_bit_eq_mod)

lemma and_high_nat:
  assumes "(x::nat) < 2 ^ k" shows "x AND push_bit k m = 0"
proof -
  have "take_bit k x = x"
    using assms by (rule take_bit_nat_eq_self)
  moreover have "take_bit k x AND push_bit k m = 0"
    by (auto simp: bit_eq_iff bit_simps)
  ultimately show ?thesis by simp
qed

lemmas and_masks = and_mask_nat [of _ 2, simplified] and_mask_nat [of _ 8, simplified]
  and_mask_nat [of _ 10, simplified]

end
