(* ===== verification/Wire_Format.thy ===== *)
theory Wire_Format
  imports Relay_Prelude
begin

text \<open>
  The wire format of \<open>server/intv_relay_server.py\<close>: message types, protocol constants,
  \<open>frame\<close>, \<open>pad_name\<close>, the name rules of \<open>on_hello\<close>, and the frame reassembly of
  \<open>Server.service\<close> as a scanner on the receive buffer. The interface \<open>frame_scanner\<close> holds
  what any such scanner promises; its lemmas say that TCP segmentation does not matter.
\<close>

subsection \<open>Constants\<close>

definition T_HELLO :: byte where "T_HELLO = 0x01"
definition T_LIST :: byte where "T_LIST = 0x02"
definition T_LOBBY :: byte where "T_LOBBY = 0x03"
definition T_JOIN :: byte where "T_JOIN = 0x04"
definition T_START :: byte where "T_START = 0x05"
definition T_INPUT :: byte where "T_INPUT = 0x06"
definition T_CRC :: byte where "T_CRC = 0x07"
definition T_STATE :: byte where "T_STATE = 0x08"
definition T_RESYNC :: byte where "T_RESYNC = 0x09"
definition T_BYE :: byte where "T_BYE = 0x0A"
definition T_PEER_LEFT :: byte where "T_PEER_LEFT = 0x0B"
definition T_PING :: byte where "T_PING = 0x0C"
definition T_PONG :: byte where "T_PONG = 0x0D"
definition T_ROOM :: byte where "T_ROOM = 0x0E"
definition T_GO :: byte where "T_GO = 0x0F"

lemmas T_defs = T_HELLO_def T_LIST_def T_LOBBY_def T_JOIN_def T_START_def T_INPUT_def
  T_CRC_def T_STATE_def T_RESYNC_def T_BYE_def T_PEER_LEFT_def T_PING_def T_PONG_def
  T_ROOM_def T_GO_def

definition RELAY_TYPES :: "byte set" where
  "RELAY_TYPES = {T_INPUT, T_CRC, T_STATE, T_RESYNC}"

text \<open>\<open>set("ABC...Z0123456789")\<close> as code points.\<close>

definition NAME_CHARS :: "nat set" where
  "NAME_CHARS = {65..90} \<union> {48..57}"

definition PROTO_VER :: byte where "PROTO_VER = 2"
definition DEFAULT_DELAY :: int where "DEFAULT_DELAY = 3"
definition MAX_SEATS :: nat where "MAX_SEATS = 4"
definition ROSTER_SLOTS :: nat where "ROSTER_SLOTS = 4"
definition MAX_TX_BACKLOG :: nat where "MAX_TX_BACKLOG = 64 * 1024"
definition MAX_CLIENTS :: nat where "MAX_CLIENTS = 64"
definition MAX_CONNECTIONS_PER_IP :: nat where "MAX_CONNECTIONS_PER_IP = 8"
definition HELLO_TIMEOUT :: rat where "HELLO_TIMEOUT = 60"

subsection \<open>Frames and names\<close>

definition frame :: "byte \<Rightarrow> bytes \<Rightarrow> pyexn + bytes" where
  "frame ftype payload =
     (let body = ftype # payload
      in if length body \<le> 255 then Inr (of_nat (length body) # body) else Inl AssertionError)"

definition pad_name :: "pystr \<Rightarrow> pyexn + bytes" where
  "pad_name name =
     (case encode_ascii name of Inl e \<Rightarrow> Inl e | Inr b \<Rightarrow> Inr (ljust 8 0 (take 8 b)))"

text \<open>\<open>payload.decode("ascii", "replace").rstrip("\0 ")\<close>, as \<open>on_hello\<close> and \<open>on_join\<close> read a name.\<close>

definition wire_name :: "bytes \<Rightarrow> pystr" where
  "wire_name b = rstrip {0, 32} (decode_ascii_replace b)"

text \<open>The test of \<open>on_hello\<close>: \<open>2 <= len(name) <= 8 and set(name) <= NAME_CHARS\<close>.\<close>

definition valid_name :: "pystr \<Rightarrow> bool" where
  "valid_name name \<longleftrightarrow> 2 \<le> length name \<and> length name \<le> 8 \<and> (\<forall>ch \<in> set name. ch \<in> NAME_CHARS)"

lemma frame_ok: "length p \<le> 254 \<Longrightarrow> frame t p = Inr (of_nat (Suc (length p)) # t # p)"
  by (simp add: frame_def)

lemma frame_eq_Inr:
  "frame t p = Inr f \<longleftrightarrow> length p \<le> 254 \<and> f = of_nat (Suc (length p)) # t # p"
  by (auto simp: frame_def Let_def)

lemma valid_name_ascii: "valid_name n \<Longrightarrow> ch \<in> set n \<Longrightarrow> ch < 128 \<and> ch \<noteq> 0 \<and> ch \<noteq> 32"
  by (auto simp: valid_name_def NAME_CHARS_def)

lemma pad_name_valid:
  assumes "valid_name n"
  shows "pad_name n = Inr (map of_nat n @ replicate (8 - length n) 0)"
proof -
  have "\<forall>ch \<in> set n. ch < 128" "length n \<le> 8"
    using assms valid_name_ascii by (auto simp: valid_name_def)
  then show ?thesis
    by (simp add: pad_name_def encode_ascii_def ljust_def)
qed

lemma length_pad_name: "pad_name n = Inr b \<Longrightarrow> length b = 8"
  by (auto simp: pad_name_def length_ljust split: sum.splits)

lemma decode_encode_ascii:
  "\<forall>ch \<in> set n. ch < 128 \<Longrightarrow> decode_ascii_replace (map of_nat n) = n"
  by (induction n) (auto simp: decode_ascii_replace_def unat_of_nat)

lemma wire_name_pad_name:
  assumes "valid_name n" and "pad_name n = Inr b"
  shows "wire_name b = n"
proof -
  have b: "b = map of_nat n @ replicate (8 - length n) 0"
    using assms by (simp add: pad_name_valid)
  have asc: "\<forall>ch \<in> set n. ch < 128" and nonsp: "\<forall>ch \<in> set n. ch \<notin> {0, 32}"
    using valid_name_ascii [OF assms(1)] by auto
  have "decode_ascii_replace b = n @ replicate (8 - length n) 0"
    using decode_encode_ascii [OF asc] by (simp add: b decode_ascii_replace_def)
  then have "wire_name b = rstrip {0, 32} n"
    by (simp add: wire_name_def rstrip_append_pad set_replicate_conv_if)
  also have "\<dots> = n"
    using nonsp by (intro rstrip_id) (cases n rule: rev_cases, auto)
  finally show ?thesis .
qed

subsection \<open>Scanning the receive buffer\<close>

text \<open>
  One round of the loop of \<open>Server.service\<close> (before the frame is handled): wait for more
  bytes, reject the length byte, or take one frame off the front.
\<close>

datatype scan_result =
    Incomplete
  | BadLength nat
  | Frame byte bytes bytes  \<comment> \<open>type, payload, rest of the buffer\<close>

definition next_frame :: "bytes \<Rightarrow> scan_result" where
  "next_frame rx =
     (case rx of [] \<Rightarrow> Incomplete
      | len # _ \<Rightarrow>
         (let need = unat len + 1
          in if need < 2 \<or> 200 < unat len then BadLength (unat len)
             else if length rx < need then Incomplete
             else let body = take (need - 1) (drop 1 rx)
                  in Frame (hd body) (tl body) (drop need rx)))"

text \<open>
  The whole buffer: the frames it holds, in order, and what stops the scan. The round budget
  is the buffer's length, which is enough because every frame takes at least one byte
  (\<open>scan_all_unfold\<close>).
\<close>

datatype scan_end = NeedMore bytes | Malformed nat

primrec scan_upto ::
  "nat \<Rightarrow> (bytes \<Rightarrow> scan_result) \<Rightarrow> bytes \<Rightarrow> (byte \<times> bytes) list \<times> scan_end" where
  "scan_upto 0 scan rx = ([], NeedMore rx)"
| "scan_upto (Suc n) scan rx =
     (case scan rx of
        Incomplete \<Rightarrow> ([], NeedMore rx)
      | BadLength l \<Rightarrow> ([], Malformed l)
      | Frame t p rest \<Rightarrow> (case scan_upto n scan rest of (fs, e) \<Rightarrow> ((t, p) # fs, e)))"

definition scan_all :: "(bytes \<Rightarrow> scan_result) \<Rightarrow> bytes \<Rightarrow> (byte \<times> bytes) list \<times> scan_end" where
  "scan_all scan rx = scan_upto (Suc (length rx)) scan rx"

text \<open>
  The buffer \<open>rx\<close>, then the chunks that \<open>recv\<close> delivers one after another: each is
  appended to what the scan left, and nothing is read after a bad length.
\<close>

primrec scan_chunks ::
  "(bytes \<Rightarrow> scan_result) \<Rightarrow> bytes \<Rightarrow> bytes list \<Rightarrow> (byte \<times> bytes) list \<times> scan_end" where
  "scan_chunks scan rx [] = scan_all scan rx"
| "scan_chunks scan rx (c # cs) =
     (case scan_all scan rx of
        (fs, Malformed l) \<Rightarrow> (fs, Malformed l)
      | (fs, NeedMore r) \<Rightarrow> (case scan_chunks scan (r @ c) cs of (gs, e) \<Rightarrow> (fs @ gs, e)))"

locale frame_scanner =
  fixes scan :: "bytes \<Rightarrow> scan_result"
  assumes scan_Nil: "scan [] = Incomplete"
    and scan_shrinks: "scan a = Frame t p r \<Longrightarrow> length r < length a"
    and scan_Frame_append: "scan a = Frame t p r \<Longrightarrow> scan (a @ b) = Frame t p (r @ b)"
    and scan_BadLength_append: "scan a = BadLength l \<Longrightarrow> scan (a @ b) = BadLength l"
begin

lemma scan_upto_enough:
  "length rx < n \<Longrightarrow> length rx < m \<Longrightarrow> scan_upto n scan rx = scan_upto m scan rx"
proof (induction n arbitrary: m rx)
  case (Suc n)
  then obtain m' where m: "m = Suc m'"
    by (cases m) auto
  have "scan_upto n scan r = scan_upto m' scan r" if "scan rx = Frame t p r" for t p r
    using Suc.prems scan_shrinks [OF that] m by (intro Suc.IH) auto
  then show ?case
    by (auto simp: m split: scan_result.splits)
qed simp

lemma scan_all_unfold:
  "scan_all scan rx =
     (case scan rx of
        Incomplete \<Rightarrow> ([], NeedMore rx)
      | BadLength l \<Rightarrow> ([], Malformed l)
      | Frame t p rest \<Rightarrow> (case scan_all scan rest of (fs, e) \<Rightarrow> ((t, p) # fs, e)))"
proof (cases "scan rx")
  case (Frame t p rest)
  then have "scan_upto (length rx) scan rest = scan_upto (Suc (length rest)) scan rest"
    using scan_shrinks [OF Frame] by (intro scan_upto_enough) auto
  with Frame show ?thesis
    by (simp add: scan_all_def)
qed (simp_all add: scan_all_def)

lemma scan_all_induct [case_names Incomplete BadLength Frame]:
  assumes "\<And>a. scan a = Incomplete \<Longrightarrow> P a"
    and "\<And>a l. scan a = BadLength l \<Longrightarrow> P a"
    and "\<And>a t p r. scan a = Frame t p r \<Longrightarrow> P r \<Longrightarrow> P a"
  shows "P a"
proof (induction a rule: length_induct)
  case (1 a)
  then show ?case
    using assms scan_shrinks by (cases "scan a") blast+
qed

lemma scan_all_append:
  "scan_all scan (a @ b) =
     (case scan_all scan a of
        (fs, Malformed l) \<Rightarrow> (fs, Malformed l)
      | (fs, NeedMore r) \<Rightarrow> (case scan_all scan (r @ b) of (gs, e) \<Rightarrow> (fs @ gs, e)))"
proof (induction a rule: scan_all_induct)
  case (Incomplete a)
  then show ?case
    by (subst (2) scan_all_unfold) (auto split: prod.splits)
next
  case (BadLength a l)
  then show ?case
    by (subst (1 2) scan_all_unfold) (simp add: scan_BadLength_append)
next
  case (Frame a t p r)
  from Frame(1) show ?case
    by (subst (1 2) scan_all_unfold)
      (auto simp: scan_Frame_append Frame(2) split: prod.splits scan_end.splits)
qed

lemma scan_all_rest:
  "scan_all scan a = (fs, NeedMore r) \<Longrightarrow> scan r = Incomplete"
proof (induction a arbitrary: fs rule: scan_all_induct)
  case (Frame a t p r')
  then show ?case
    by (subst (asm) scan_all_unfold) (auto split: prod.splits)
qed (subst (asm) scan_all_unfold, auto)+

text \<open>Delivering the bytes in pieces gives the frames of delivering them at once.\<close>

lemma scan_chunks_eq: "scan_chunks scan rx cs = scan_all scan (rx @ concat cs)"
proof (induction cs arbitrary: rx)
  case (Cons c cs)
  have "scan_all scan (rx @ c @ concat cs) =
    (case scan_all scan rx of
        (fs, Malformed l) \<Rightarrow> (fs, Malformed l)
      | (fs, NeedMore r) \<Rightarrow> (case scan_all scan (r @ c @ concat cs) of (gs, e) \<Rightarrow> (fs @ gs, e)))"
    by (rule scan_all_append)
  with Cons show ?case by (simp split: prod.splits scan_end.splits)
qed simp

end

text \<open>The server's scanner meets the interface.\<close>

lemma unat_frame_len: "n \<le> 255 \<Longrightarrow> unat (of_nat n :: byte) = n"
  by (simp add: unat_of_nat)

lemma next_frame_complete:
  assumes "length p < 200"
  shows "next_frame (of_nat (Suc (length p)) # t # p @ r) = Frame t p r"
  using assms unat_frame_len [of "Suc (length p)"]
  by (simp add: next_frame_def Let_def del: of_nat_Suc)

lemma next_frame_Frame:
  "next_frame a = Frame t p r \<longleftrightarrow> length p < 200 \<and> a = of_nat (Suc (length p)) # t # p @ r"
proof
  assume f: "next_frame a = Frame t p r"
  then obtain l ls where a: "a = l # ls"
    by (auto simp: next_frame_def split: list.splits)
  obtain k where l: "unat l = Suc k" "Suc k \<le> 200" "Suc k \<le> length ls"
    and p: "t = hd (take (Suc k) ls)" "p = tl (take (Suc k) ls)" "r = drop (Suc k) ls"
    using f by (cases "unat l") (auto simp: next_frame_def a Let_def split: if_splits)
  have "l = of_nat (Suc k)"
    by (simp add: l(1) [symmetric] del: of_nat_Suc)
  moreover from l p obtain x xs where "ls = x # xs" "t = x" "p = take k xs" "r = drop k xs"
    by (cases ls) auto
  ultimately show "length p < 200 \<and> a = of_nat (Suc (length p)) # t # p @ r"
    using l a by (simp del: of_nat_Suc)
qed (auto simp del: of_nat_Suc simp: next_frame_complete)

lemma next_frame_BadLength:
  "next_frame a = BadLength l \<longleftrightarrow> (\<exists>b bs. a = b # bs \<and> l = unat b \<and> (l < 1 \<or> 200 < l))"
  by (cases a) (auto simp: next_frame_def Let_def)

interpretation srv_scan: frame_scanner next_frame
  by unfold_locales (auto simp: next_frame_Frame next_frame_BadLength next_frame_def [of "[]"])

lemma next_frame_frame:
  "frame t p = Inr f \<Longrightarrow> length p < 200 \<Longrightarrow> next_frame (f @ rest) = Frame t p rest"
  by (auto simp: frame_eq_Inr next_frame_Frame)

lemma next_frame_rest_short:
  "next_frame r = Incomplete \<Longrightarrow> length r \<le> 200"
  by (auto simp: next_frame_def Let_def split: list.splits if_splits)

subsection \<open>What the wire format promises\<close>

text \<open>The frames of a list of messages, one behind the other.\<close>

primrec frames :: "(byte \<times> bytes) list \<Rightarrow> pyexn + bytes" where
  "frames [] = Inr []"
| "frames (m # ms) =
     (case frame (fst m) (snd m) of Inl e \<Rightarrow> Inl e
      | Inr b \<Rightarrow> (case frames ms of Inl e \<Rightarrow> Inl e | Inr bs \<Rightarrow> Inr (b @ bs)))"

lemma frames_scan:
  assumes "\<forall>m \<in> set ms. length (snd m) < 200"
  shows "\<exists>stream. frames ms = Inr stream \<and>
    (\<forall>rest. next_frame rest = Incomplete \<longrightarrow> scan_all next_frame (stream @ rest) = (ms, NeedMore rest))"
  using assms
proof (induction ms)
  case Nil
  show ?case
    by (simp add: srv_scan.scan_all_unfold [of rest for rest])
next
  case (Cons m ms)
  then obtain bs where bs: "frames ms = Inr bs"
    "\<forall>rest. next_frame rest = Incomplete \<longrightarrow> scan_all next_frame (bs @ rest) = (ms, NeedMore rest)"
    by auto
  obtain b where b: "frame (fst m) (snd m) = Inr b"
    using Cons.prems by (simp add: frame_ok)
  have "scan_all next_frame (b @ bs @ rest) = (m # ms, NeedMore rest)" if "next_frame rest = Incomplete" for rest
    using bs(2) that Cons.prems next_frame_frame [OF b, of "bs @ rest"]
    by (subst srv_scan.scan_all_unfold) simp
  with bs(1) b show ?case by simp
qed

text \<open>C13: framing round trip under any TCP segmentation: however the stream of framed messages (each
  of at most 199 payload bytes) and the start of a further frame is cut into received chunks, the
  reassembly loop returns exactly the messages sent, in order, and keeps exactly the unfinished rest.\<close>

theorem frames_survive_segmentation:
  assumes "\<forall>m \<in> set ms. length (snd m) < 200" and "frames ms = Inr stream"
    and "next_frame rest = Incomplete" and "concat chunks = stream @ rest"
  shows "scan_chunks next_frame [] chunks = (ms, NeedMore rest)"
  using frames_scan [OF assms(1)] assms(2-4) by (auto simp: srv_scan.scan_chunks_eq)

theorem frames_survive_segmentation_witness:
  "frames [(T_PING, []), (T_INPUT, [7, 8])] = Inr [1, T_PING, 3, T_INPUT, 7, 8] \<and>
   scan_chunks next_frame [] [[1], [T_PING, 3, T_INPUT], [7], [8, 5, 1]] =
     ([(T_PING, []), (T_INPUT, [7, 8])], NeedMore [5, 1])"
proof -
  have f: "frames [(T_PING, []), (T_INPUT, [7, 8])] = Inr [1, T_PING, 3, T_INPUT, 7, 8]"
    by (simp add: frame_def Let_def)
  have "scan_chunks next_frame [] [[1], [T_PING, 3, T_INPUT], [7], [8, 5, 1]] =
      ([(T_PING, []), (T_INPUT, [7, 8])], NeedMore [5, 1])"
    by (rule frames_survive_segmentation [OF _ f]) (simp_all add: next_frame_def Let_def)
  with f show ?thesis by simp
qed

text \<open>Names survive the wire: the 8-byte field written for any valid name (two to eight letters
  and digits) has 8 bytes and is read back as that name.\<close>

theorem valid_names_survive_the_wire:
  assumes "valid_name n"
  shows "\<exists>b. pad_name n = Inr b \<and> length b = 8 \<and> wire_name b = n"
  using assms wire_name_pad_name [OF assms] by (simp add: pad_name_valid valid_name_def)

theorem valid_names_survive_the_wire_witness:
  "valid_name [71, 79, 76, 70, 49] \<and> (\<exists>b. pad_name [71, 79, 76, 70, 49] = Inr b \<and> length b = 8 \<and>
     wire_name b = [71, 79, 76, 70, 49])"
proof -
  have v: "valid_name [71, 79, 76, 70, 49]"
    by (simp add: valid_name_def NAME_CHARS_def)
  with valid_names_survive_the_wire [OF v] show ?thesis by simp
qed

end
