(* ===== verification/Relay_State.thy ===== *)
theory Relay_State
  imports Wire_Format
begin

text \<open>
  The objects of \<open>server/intv_relay_server.py\<close>: \<open>Client\<close>, \<open>Room\<close> and \<open>Server\<close> as
  records. Clients and rooms are shared mutable Python objects, so the server state holds a
  store for each class and refers to them by identity (\<open>cid\<close>, \<open>rid\<close>); \<open>is\<close> is equality
  of identities. What the operating system and the standard library answer (what a socket
  accepts, the random seed) is part of the state, as scripts that the operations consume.
\<close>

subsection \<open>Classes\<close>

type_synonym cid = nat
type_synonym rid = nat
type_synonym addr = "nat \<times> nat"  \<comment> \<open>host and port\<close>

record Client =
  sock_addr :: addr
  rx :: bytes
  tx :: bytes
  name :: "pystr option"
  room :: "rid option"
  connected_at :: rat
  dead :: bool

record Room =
  members :: "cid list"
  started :: bool
  seed :: nat
  crc :: "(nat \<times> (nat \<times> nat) list) list"  \<comment> \<open>tick to (seat to crc)\<close>
  crc_ok :: nat

definition new_Client :: "addr \<Rightarrow> rat \<Rightarrow> Client" where
  "new_Client a now =
     \<lparr>sock_addr = a, rx = [], tx = [], name = None, room = None, connected_at = now, dead = False\<rparr>"

definition new_Room :: "cid \<Rightarrow> Room" where
  "new_Room host = \<lparr>members = [host], started = False, seed = 0, crc = [], crc_ok = 0\<rparr>"

subsection \<open>Outcomes, errors, log records\<close>

text \<open>
  One answer of \<open>sock.send(data)\<close>: a number of bytes taken from the front (the kernel takes
  at most all of them), \<open>BlockingIOError\<close>, or another \<open>OSError\<close>. A socket whose script is
  used up answers \<open>BlockingIOError\<close>.
\<close>

datatype send_answer = Wrote nat | WouldBlock | SendError

datatype proto_error =
    UnknownType byte
  | ShortHello
  | BadVersion byte
  | BadName pystr
  | JoinBeforeHello

text \<open>
  \<open>Stuck\<close> is not a Python exception: it marks a round budget of the model that ran out. The
  development proves that no operation of the server ever raises it.
\<close>

datatype exn = ProtocolError proto_error | Py pyexn | Stuck

datatype drop_reason =
    BacklogExceeded
  | SendFailed
  | SendReturnedZero
  | NoHello
  | RecvError
  | Closed
  | BadFrameLength nat
  | ProtocolViolation proto_error
  | Bye
  | Replaced
  | InternalError

text \<open>\<open>Client.__repr__\<close> and \<open>Room.__repr__\<close>: what a log record says of a client or a room.\<close>

datatype client_repr = ByName pystr | ByAddr addr

definition repr_Client :: "Client \<Rightarrow> client_repr" where
  "repr_Client c =
     (case name c of None \<Rightarrow> ByAddr (sock_addr c)
      | Some n \<Rightarrow> if n = [] then ByAddr (sock_addr c) else ByName n)"

datatype log_record =
    LogReject addr nat
  | LogRejectIP addr nat
  | LogConnect addr
  | LogDrop client_repr drop_reason
  | LogMatchEnded nat client_repr nat
  | LogBackToLobby client_repr
  | LogDissolved "pystr list"
  | LogRename client_repr pystr
  | LogHello client_repr
  | LogJoin client_repr "pystr list"
  | LogMatch "pystr list" nat nat
  | LogCrcMismatch nat "(nat \<times> nat) list"
  | LogCrcOk nat nat
  | LogUnexpected client_repr exn
  | LogStats nat nat

record Stats =
  tx_backlog_drops :: nat
  hello_timeouts :: nat
  connection_limit_rejections :: nat

subsection \<open>The server\<close>

text \<open>
  \<open>clients\<close> is the Python set (its enumeration order is only visible in \<open>sweep\<close>, which
  takes the order as an argument); a client is in it exactly while its socket is registered
  with the selector, and \<open>sel_write\<close> says whether it is registered for \<open>EVENT_WRITE\<close>.
  \<open>wire\<close> is what the kernel has taken for a client so far. Identities from \<open>next_client\<close>
  and \<open>next_room\<close> on are not created yet.
\<close>

record Server =
  delay :: int
  auto_go :: int
  lobby_enabled :: bool
  by_name :: "(pystr \<times> cid) list"
  clients :: "cid list"
  stats :: Stats
  last_stats :: "Stats \<times> nat"
  obj_client :: "cid \<Rightarrow> Client"
  obj_room :: "rid \<Rightarrow> Room"
  next_client :: cid
  next_room :: rid
  sel_write :: "cid \<Rightarrow> bool"
  net :: "cid \<Rightarrow> send_answer list"
  wire :: "cid \<Rightarrow> bytes"
  entropy :: "nat list"
  lobby_calls :: "nat list"
  log_lines :: "log_record list"

type_synonym 'a srv = "(Server, exn, 'a) prog"

definition no_Client :: Client where
  "no_Client = \<lparr>sock_addr = (0, 0), rx = [], tx = [], name = None, room = None,
     connected_at = 0, dead = True\<rparr>"

definition no_Room :: Room where
  "no_Room = \<lparr>members = [], started = False, seed = 0, crc = [], crc_ok = 0\<rparr>"

text \<open>\<open>Server.__init__\<close>, in an environment that will answer by the given scripts.\<close>

definition new_Server ::
  "int \<Rightarrow> int \<Rightarrow> bool \<Rightarrow> (cid \<Rightarrow> send_answer list) \<Rightarrow> nat list \<Rightarrow> Server" where
  "new_Server d ago lob answers rnd =
     \<lparr>delay = d, auto_go = ago, lobby_enabled = lob, by_name = [], clients = [],
      stats = \<lparr>tx_backlog_drops = 0, hello_timeouts = 0, connection_limit_rejections = 0\<rparr>,
      last_stats = (\<lparr>tx_backlog_drops = 0, hello_timeouts = 0, connection_limit_rejections = 0\<rparr>, 0),
      obj_client = (\<lambda>_. no_Client), obj_room = (\<lambda>_. no_Room), next_client = 0, next_room = 0,
      sel_write = (\<lambda>_. False), net = answers, wire = (\<lambda>_. []), entropy = rnd,
      lobby_calls = [], log_lines = []\<rparr>"

abbreviation client_in :: "Server \<Rightarrow> cid \<Rightarrow> Client" where
  "client_in s c \<equiv> obj_client s c"

abbreviation room_in :: "Server \<Rightarrow> rid \<Rightarrow> Room" where
  "room_in s r \<equiv> obj_room s r"

definition set_client :: "cid \<Rightarrow> (Client \<Rightarrow> Client) \<Rightarrow> Server \<Rightarrow> Server" where
  "set_client c f s = s\<lparr>obj_client := (obj_client s)(c := f (obj_client s c))\<rparr>"

definition set_room :: "rid \<Rightarrow> (Room \<Rightarrow> Room) \<Rightarrow> Server \<Rightarrow> Server" where
  "set_room r f s = s\<lparr>obj_room := (obj_room s)(r := f (obj_room s r))\<rparr>"

abbreviation upd_client :: "cid \<Rightarrow> (Client \<Rightarrow> Client) \<Rightarrow> unit srv" where
  "upd_client c f \<equiv> modify (set_client c f)"

abbreviation upd_room :: "rid \<Rightarrow> (Room \<Rightarrow> Room) \<Rightarrow> unit srv" where
  "upd_room r f \<equiv> modify (set_room r f)"

definition log_line :: "(Server \<Rightarrow> log_record) \<Rightarrow> unit srv" where
  "log_line l = modify (\<lambda>s. s\<lparr>log_lines := log_lines s @ [l s]\<rparr>)"

definition room_repr :: "Server \<Rightarrow> rid \<Rightarrow> pystr list" where
  "room_repr s r =
     map (\<lambda>m. case name (client_in s m) of None \<Rightarrow> [63] | Some n \<Rightarrow> if n = [] then [63] else n)
       (members (room_in s r))"

text \<open>\<open>Client.seat\<close> of a client in room \<open>r\<close>, and \<open>Room.roster()\<close>.\<close>

definition seat_in :: "Server \<Rightarrow> rid \<Rightarrow> cid \<Rightarrow> pyexn + nat" where
  "seat_in s r c =
     (case py_index (members (room_in s r)) c of None \<Rightarrow> Inl ValueError | Some i \<Rightarrow> Inr i)"

definition pad_opt :: "pystr option \<Rightarrow> pyexn + bytes" where
  "pad_opt n = (case n of None \<Rightarrow> Inl AttributeError | Some n \<Rightarrow> pad_name n)"

primrec pad_all :: "pystr option list \<Rightarrow> pyexn + bytes" where
  "pad_all [] = Inr []"
| "pad_all (n # ns) =
     (case pad_opt n of Inl e \<Rightarrow> Inl e
      | Inr b \<Rightarrow> (case pad_all ns of Inl e \<Rightarrow> Inl e | Inr bs \<Rightarrow> Inr (b @ bs)))"

definition roster :: "Server \<Rightarrow> rid \<Rightarrow> pyexn + bytes" where
  "roster s r =
     (case pad_all (map (\<lambda>m. name (client_in s m)) (members (room_in s r))) of
        Inl e \<Rightarrow> Inl e
      | Inr pads \<Rightarrow> Inr (pads @ replicate (8 * (ROSTER_SLOTS - length (members (room_in s r)))) 0))"

definition lobby_update :: "unit srv" where
  "lobby_update = reading (\<lambda>s. only_if (lobby_enabled s)
     (modify (\<lambda>s. s\<lparr>lobby_calls := lobby_calls s @ [length (by_name s)]\<rparr>)))"

subsection \<open>Field lemmas\<close>

text \<open>
  The fields that the invariants of the server read. An update of the others leaves every
  fact about these alone; the simplifier sees it through the record selectors.
\<close>

lemma set_client_fields [simp]:
  "delay (set_client c f s) = delay s" "auto_go (set_client c f s) = auto_go s"
  "lobby_enabled (set_client c f s) = lobby_enabled s" "by_name (set_client c f s) = by_name s"
  "clients (set_client c f s) = clients s" "obj_room (set_client c f s) = obj_room s"
  "next_client (set_client c f s) = next_client s" "next_room (set_client c f s) = next_room s"
  "sel_write (set_client c f s) = sel_write s" "wire (set_client c f s) = wire s"
  "net (set_client c f s) = net s" "stats (set_client c f s) = stats s"
  "entropy (set_client c f s) = entropy s" "log_lines (set_client c f s) = log_lines s"
  "lobby_calls (set_client c f s) = lobby_calls s" "last_stats (set_client c f s) = last_stats s"
  by (simp_all add: set_client_def)

lemma client_in_set_client [simp]:
  "client_in (set_client c f s) d = (if d = c then f (client_in s c) else client_in s d)"
  by (simp add: set_client_def)

lemma set_room_fields [simp]:
  "delay (set_room r f s) = delay s" "auto_go (set_room r f s) = auto_go s"
  "lobby_enabled (set_room r f s) = lobby_enabled s" "by_name (set_room r f s) = by_name s"
  "clients (set_room r f s) = clients s" "obj_client (set_room r f s) = obj_client s"
  "next_client (set_room r f s) = next_client s" "next_room (set_room r f s) = next_room s"
  "sel_write (set_room r f s) = sel_write s" "wire (set_room r f s) = wire s"
  "net (set_room r f s) = net s" "stats (set_room r f s) = stats s"
  "entropy (set_room r f s) = entropy s" "log_lines (set_room r f s) = log_lines s"
  "lobby_calls (set_room r f s) = lobby_calls s" "last_stats (set_room r f s) = last_stats s"
  by (simp_all add: set_room_def)

lemma room_in_set_room [simp]:
  "room_in (set_room r f s) q = (if q = r then f (room_in s r) else room_in s q)"
  by (simp add: set_room_def)

lemma pad_opt_valid: "valid_name n \<Longrightarrow> \<exists>b. pad_opt (Some n) = Inr b \<and> length b = 8"
  by (simp add: pad_opt_def pad_name_valid valid_name_def)

lemma pad_all_valid:
  "\<forall>n \<in> set ns. \<exists>m. n = Some m \<and> valid_name m \<Longrightarrow> \<exists>bs. pad_all ns = Inr bs \<and> length bs = 8 * length ns"
proof (induction ns)
  case (Cons n ns)
  then obtain m bs where "n = Some m" "valid_name m" "pad_all ns = Inr bs" "length bs = 8 * length ns"
    by auto
  moreover from this obtain b where "pad_opt n = Inr b" "length b = 8"
    using pad_opt_valid by blast
  ultimately show ?case by simp
qed simp

end
