(* ===== verification/Transport.thy ===== *)
theory Transport
  imports Relay_State
begin

text \<open>
  The plumbing of \<open>Server\<close>: \<open>flush\<close>, \<open>_update_events\<close>, \<open>send\<close>, \<open>room_broadcast\<close>,
  \<open>dissolve\<close> and \<open>drop\<close>. These methods call each other in a circle: a \<open>send\<close> that fails
  drops its client, and a drop tells the rest of the room, by \<open>send\<close>. The circle is closed
  with a recursion budget. Every drop takes one client out of \<open>clients\<close>, so the number of
  connected clients is enough (\<open>drop_contract\<close>, \<open>drop_upto_enough\<close>).
\<close>

subsection \<open>One client's output\<close>

text \<open>
  The loop of \<open>flush\<close> on the script of answers, the pending bytes and the bytes already
  taken: the reason to drop the client, if any, and what is left of the three.
\<close>

fun pump ::
  "send_answer list \<Rightarrow> bytes \<Rightarrow> bytes \<Rightarrow> drop_reason option \<times> send_answer list \<times> bytes \<times> bytes"
where
  "pump as [] w = (None, as, [], w)"
| "pump [] t w = (None, [], t, w)"
| "pump (WouldBlock # as) t w = (None, as, t, w)"
| "pump (SendError # as) t w = (Some SendFailed, as, t, w)"
| "pump (Wrote n # as) t w =
     (if n = 0 then (Some SendReturnedZero, as, t, w) else pump as (drop n t) (w @ take n t))"

lemma pump_stream: "pump as t w = (r, as', t', w') \<Longrightarrow> w' @ t' = w @ t \<and> (\<exists>d. w' = w @ d)"
proof (induction as t w arbitrary: r as' t' w' rule: pump.induct)
  case (5 n as v va w)
  show ?case
  proof (cases "n = 0")
    case False
    with 5 have "w' @ t' = (w @ take n (v # va)) @ drop n (v # va) \<and>
        (\<exists>d. w' = (w @ take n (v # va)) @ d)"
      by simp
    then show ?thesis
      by (metis append.assoc append_take_drop_id)
  qed (use 5 in simp)
qed auto

lemma pump_length: "pump as t w = (r, as', t', w') \<Longrightarrow> length t' \<le> length t"
  by (induction as t w arbitrary: r as' t' w' rule: pump.induct) (fastforce split: if_splits)+

definition update_events :: "cid \<Rightarrow> unit srv" where
  "update_events c = modify (\<lambda>s. if c \<in> set (clients s)
     then s\<lparr>sel_write := (sel_write s)(c := tx (client_in s c) \<noteq> [])\<rparr> else s)"

definition flush_with :: "(cid \<Rightarrow> drop_reason \<Rightarrow> unit srv) \<Rightarrow> cid \<Rightarrow> unit srv" where
  "flush_with disconnect c = reading (\<lambda>s.
     case pump (net s c) (tx (client_in s c)) (wire s c) of
       (failure, answers, pending, taken) \<Rightarrow> block [
         modify (\<lambda>s. s\<lparr>net := (net s)(c := answers), wire := (wire s)(c := taken)\<rparr>),
         upd_client c (\<lambda>x. x\<lparr>tx := pending\<rparr>),
         (case failure of None \<Rightarrow> update_events c | Some why \<Rightarrow> disconnect c why)])"

definition count_backlog_drop :: "Server \<Rightarrow> Server" where
  "count_backlog_drop s =
     s\<lparr>stats := (stats s)\<lparr>tx_backlog_drops := tx_backlog_drops (stats s) + 1\<rparr>\<rparr>"

definition send_with :: "(cid \<Rightarrow> drop_reason \<Rightarrow> unit srv) \<Rightarrow> cid \<Rightarrow> bytes \<Rightarrow> unit srv" where
  "send_with disconnect c data = reading (\<lambda>s.
     if dead (client_in s c) then return ()
     else if MAX_TX_BACKLOG < length (tx (client_in s c)) + length data
     then block [modify count_backlog_drop, disconnect c BacklogExceeded]
     else block [upd_client c (\<lambda>x. x\<lparr>tx := tx x @ data\<rparr>), flush_with disconnect c])"

subsection \<open>Rooms\<close>

definition room_broadcast_with :: "(cid \<Rightarrow> bytes \<Rightarrow> unit srv) \<Rightarrow> rid \<Rightarrow> unit srv" where
  "room_broadcast_with send r = reading (\<lambda>s.
     bind (attempt Py (py_bytes [int (length (members (room_in s r)))])) (\<lambda>count.
     bind (attempt Py (roster s r)) (\<lambda>names.
       for_live Stuck (\<lambda>s. members (room_in s r)) (\<lambda>_ m.
         bind (attempt Py (frame T_ROOM (count @ names))) (\<lambda>f. send m f)))))"

definition dissolve_with :: "(cid \<Rightarrow> bytes \<Rightarrow> unit srv) \<Rightarrow> rid \<Rightarrow> cid list \<Rightarrow> unit srv" where
  "dissolve_with send r notify = block [
     reading (\<lambda>s. for_each (members (room_in s r)) (\<lambda>m. upd_client m (\<lambda>x. x\<lparr>room := None\<rparr>))),
     for_each notify (\<lambda>m.
       bind (attempt Py (py_bytes [0])) (\<lambda>zero.
       bind (attempt Py (frame T_ROOM (zero @ replicate 32 0))) (\<lambda>f. send m f))),
     upd_room r (\<lambda>x. x\<lparr>members := []\<rparr>)]"

subsection \<open>Dropping a client\<close>

text \<open>\<open>drop\<close> up to the point where it looks at the client's room.\<close>

definition forget_client :: "cid \<Rightarrow> drop_reason \<Rightarrow> unit srv" where
  "forget_client c why = block [
     upd_client c (\<lambda>x. x\<lparr>dead := True\<rparr>),
     log_line (\<lambda>s. LogDrop (repr_Client (client_in s c)) why),
     modify (\<lambda>s. s\<lparr>sel_write := (sel_write s)(c := False), clients := removeAll c (clients s)\<rparr>),
     reading (\<lambda>s. let stale = [n. (n, d) \<leftarrow> by_name s, d = c] in block [
       modify (\<lambda>s. s\<lparr>by_name := foldr AList.delete stale (by_name s)\<rparr>),
       only_if (stale \<noteq> []) lobby_update])]"

definition peer_left_frame :: "nat \<Rightarrow> pystr option \<Rightarrow> pyexn + bytes" where
  "peer_left_frame seat n =
     (case py_bytes [int seat] of Inl e \<Rightarrow> Inl e
      | Inr sb \<Rightarrow> (case pad_opt n of Inl e \<Rightarrow> Inl e | Inr nb \<Rightarrow> frame T_PEER_LEFT (sb @ nb)))"

text \<open>
  The rest of \<open>drop\<close>, for a client that held \<open>seat\<close> in room \<open>r\<close>: a drop ends a started
  match for everyone, a host leaving a forming room dissolves it, a guest leaving reseats it.
\<close>

definition end_match_with :: "(cid \<Rightarrow> bytes \<Rightarrow> unit srv) \<Rightarrow> rid \<Rightarrow> cid \<Rightarrow> nat \<Rightarrow> unit srv" where
  "end_match_with send r c seat = block [
     log_line (\<lambda>s. LogMatchEnded (crc_ok (room_in s r)) (repr_Client (client_in s c)) seat),
     reading (\<lambda>s.
       bind (attempt Py (peer_left_frame seat (name (client_in s c)))) (\<lambda>pl.
         let survivors = members (room_in s r) in block [
           dissolve_with send r [],
           for_each survivors (\<lambda>m. block [
             send m pl,
             log_line (\<lambda>s. LogBackToLobby (repr_Client (client_in s m)))])]))]"

definition tell_room_with :: "(cid \<Rightarrow> bytes \<Rightarrow> unit srv) \<Rightarrow> rid \<Rightarrow> cid \<Rightarrow> nat \<Rightarrow> unit srv" where
  "tell_room_with send r c seat = reading (\<lambda>s.
     if started (room_in s r) then end_match_with send r c seat
     else if seat = 0 then block [
       log_line (\<lambda>s. LogDissolved (room_repr s r)),
       dissolve_with send r (members (room_in s r))]
     else if length (members (room_in s r)) < 2
     then dissolve_with send r (members (room_in s r))
     else room_broadcast_with send r)"

definition leave_room_with :: "(cid \<Rightarrow> bytes \<Rightarrow> unit srv) \<Rightarrow> rid \<Rightarrow> cid \<Rightarrow> unit srv" where
  "leave_room_with send r c = reading (\<lambda>s.
     bind (attempt Py (seat_in s r c)) (\<lambda>seat. block [
       upd_client c (\<lambda>x. x\<lparr>room := None\<rparr>),
       upd_room r (\<lambda>x. x\<lparr>members := remove1 c (members x)\<rparr>),
       tell_room_with send r c seat,
       lobby_update]))"

definition drop_body :: "(cid \<Rightarrow> bytes \<Rightarrow> unit srv) \<Rightarrow> cid \<Rightarrow> drop_reason \<Rightarrow> unit srv" where
  "drop_body send c why = reading (\<lambda>s.
     if dead (client_in s c) then return ()
     else block [
       forget_client c why,
       reading (\<lambda>s. case room (client_in s c) of
         None \<Rightarrow> return ()
       | Some r \<Rightarrow> leave_room_with send r c)])"

primrec drop_upto :: "nat \<Rightarrow> cid \<Rightarrow> drop_reason \<Rightarrow> unit srv" where
  "drop_upto 0 c why = raise Stuck"
| "drop_upto (Suc n) c why = drop_body (send_with (drop_upto n)) c why"

definition drop_client :: "cid \<Rightarrow> drop_reason \<Rightarrow> unit srv" where
  "drop_client c why = reading (\<lambda>s. drop_upto (Suc (length (clients s))) c why)"

definition send :: "cid \<Rightarrow> bytes \<Rightarrow> unit srv" where
  "send = send_with drop_client"

definition flush :: "cid \<Rightarrow> unit srv" where
  "flush = flush_with drop_client"

definition room_broadcast :: "rid \<Rightarrow> unit srv" where
  "room_broadcast = room_broadcast_with send"

definition dissolve :: "rid \<Rightarrow> cid list \<Rightarrow> unit srv" where
  "dissolve = dissolve_with send"

end
