(* ===== verification/Transport_Inv.thy ===== *)
theory Transport_Inv
  imports Transport "HOL-Library.Sublist"
begin

text \<open>
  The well-formedness invariant of the server state and what the plumbing of \<open>Transport\<close>
  keeps of it. \<open>srv_inv {} {} {}\<close> holds between any two events. While a method runs it is
  weaker for the objects being changed: rooms in \<open>X\<close> are being dissolved (their list still
  stands, nobody points to them), rooms in \<open>Z\<close> may have one member, clients in \<open>Y\<close> may not
  have their selector registration up to date.
\<close>

subsection \<open>The invariant\<close>

definition clients_ok :: "Server \<Rightarrow> bool" where
  "clients_ok s \<longleftrightarrow> distinct (clients s) \<and> (\<forall>c. c \<in> set (clients s) \<longleftrightarrow> \<not> dead (client_in s c))"

definition rooms_ok :: "rid set \<Rightarrow> rid set \<Rightarrow> Server \<Rightarrow> bool" where
  "rooms_ok X Z s \<longleftrightarrow>
     (\<forall>c r. room (client_in s c) = Some r \<longleftrightarrow> r \<notin> X \<and> c \<in> set (members (room_in s r))) \<and>
     (\<forall>r. distinct (members (room_in s r)) \<and> length (members (room_in s r)) \<le> MAX_SEATS) \<and>
     (\<forall>r. r \<notin> X \<union> Z \<longrightarrow> length (members (room_in s r)) \<noteq> 1)"

definition names_ok :: "Server \<Rightarrow> bool" where
  "names_ok s \<longleftrightarrow>
     distinct (map fst (by_name s)) \<and>
     (\<forall>n c. (n, c) \<in> set (by_name s) \<longrightarrow> name (client_in s c) = Some n) \<and>
     (\<forall>n c. c \<in> set (clients s) \<and> name (client_in s c) = Some n \<longrightarrow> (n, c) \<in> set (by_name s)) \<and>
     (\<forall>n c. name (client_in s c) = Some n \<longrightarrow> valid_name n) \<and>
     (\<forall>c. room (client_in s c) \<noteq> None \<longrightarrow> name (client_in s c) \<noteq> None)"

definition events_ok :: "cid set \<Rightarrow> Server \<Rightarrow> bool" where
  "events_ok Y s \<longleftrightarrow>
     (\<forall>c \<in> set (clients s) - Y. sel_write s c \<longleftrightarrow> tx (client_in s c) \<noteq> []) \<and>
     (\<forall>c. length (tx (client_in s c)) \<le> MAX_TX_BACKLOG)"

definition fresh_ok :: "Server \<Rightarrow> bool" where
  "fresh_ok s \<longleftrightarrow>
     (\<forall>r \<ge> next_room s. members (room_in s r) = []) \<and>
     (\<forall>c \<ge> next_client s. dead (client_in s c) \<and> name (client_in s c) = None)"

definition srv_inv :: "rid set \<Rightarrow> rid set \<Rightarrow> cid set \<Rightarrow> Server \<Rightarrow> bool" where
  "srv_inv X Z Y s \<longleftrightarrow>
     clients_ok s \<and> rooms_ok X Z s \<and> names_ok s \<and> events_ok Y s \<and> fresh_ok s"

lemmas inv_defs = srv_inv_def clients_ok_def rooms_ok_def names_ok_def events_ok_def fresh_ok_def

lemma srv_inv_mono:
  "srv_inv X Z Y s \<Longrightarrow> Z \<subseteq> Z' \<Longrightarrow> Y \<subseteq> Y' \<Longrightarrow> srv_inv X Z' Y' s"
  unfolding srv_inv_def rooms_ok_def events_ok_def by blast

lemma srv_inv_room_iff:
  "srv_inv X Z Y s \<Longrightarrow> room (client_in s c) = Some r \<longleftrightarrow> r \<notin> X \<and> c \<in> set (members (room_in s r))"
  unfolding srv_inv_def rooms_ok_def by blast

lemma srv_inv_one_room:
  "srv_inv X Z Y s \<Longrightarrow> c \<in> set (members (room_in s r)) \<Longrightarrow> c \<in> set (members (room_in s q)) \<Longrightarrow>
   r \<notin> X \<Longrightarrow> q \<notin> X \<Longrightarrow> r = q"
  using srv_inv_room_iff [of X Z Y s c] by (metis option.inject)

lemma srv_inv_members:
  assumes "srv_inv X Z Y s"
  shows "distinct (members (room_in s r))" and "length (members (room_in s r)) \<le> 4"
    and "r \<notin> X \<union> Z \<Longrightarrow> length (members (room_in s r)) \<noteq> 1"
proof -
  have "rooms_ok X Z s"
    using assms by (simp add: srv_inv_def)
  then show "distinct (members (room_in s r))" "length (members (room_in s r)) \<le> 4"
    "r \<notin> X \<union> Z \<Longrightarrow> length (members (room_in s r)) \<noteq> 1"
    unfolding rooms_ok_def MAX_SEATS_def by blast+
qed

lemma rooms_okI:
  assumes "\<And>c r. room (client_in s c) = Some r \<longleftrightarrow> r \<notin> X \<and> c \<in> set (members (room_in s r))"
    and "\<And>r. distinct (members (room_in s r))"
    and "\<And>r. length (members (room_in s r)) \<le> 4"
    and "\<And>r. r \<notin> X \<union> Z \<Longrightarrow> length (members (room_in s r)) \<noteq> 1"
  shows "rooms_ok X Z s"
  using assms by (simp add: rooms_ok_def MAX_SEATS_def)

lemma srv_inv_clients:
  assumes "srv_inv X Z Y s"
  shows "distinct (clients s)" and "c \<in> set (clients s) \<longleftrightarrow> \<not> dead (client_in s c)"
  using assms unfolding srv_inv_def clients_ok_def by blast+

lemma srv_inv_names:
  assumes "srv_inv X Z Y s"
  shows "distinct (map fst (by_name s))"
    and "(n, c) \<in> set (by_name s) \<Longrightarrow> name (client_in s c) = Some n"
    and "c \<in> set (clients s) \<Longrightarrow> name (client_in s c) = Some n \<Longrightarrow> (n, c) \<in> set (by_name s)"
    and "name (client_in s c) = Some n \<Longrightarrow> valid_name n"
    and "room (client_in s c) = Some r \<Longrightarrow> \<exists>n. name (client_in s c) = Some n"
proof -
  have "names_ok s"
    using assms by (simp add: srv_inv_def)
  then show "distinct (map fst (by_name s))"
    "(n, c) \<in> set (by_name s) \<Longrightarrow> name (client_in s c) = Some n"
    "c \<in> set (clients s) \<Longrightarrow> name (client_in s c) = Some n \<Longrightarrow> (n, c) \<in> set (by_name s)"
    "name (client_in s c) = Some n \<Longrightarrow> valid_name n"
    "room (client_in s c) = Some r \<Longrightarrow> \<exists>n. name (client_in s c) = Some n"
    unfolding names_ok_def by blast+
qed

text \<open>The fields outside the invariant.\<close>

lemma srv_inv_other_fields [simp]:
  "srv_inv X Z Y (s\<lparr>log_lines := l\<rparr>) = srv_inv X Z Y s"
  "srv_inv X Z Y (s\<lparr>lobby_calls := lc\<rparr>) = srv_inv X Z Y s"
  "srv_inv X Z Y (s\<lparr>stats := st\<rparr>) = srv_inv X Z Y s"
  "srv_inv X Z Y (s\<lparr>net := n\<rparr>) = srv_inv X Z Y s"
  "srv_inv X Z Y (s\<lparr>wire := w\<rparr>) = srv_inv X Z Y s"
  "srv_inv X Z Y (s\<lparr>entropy := e\<rparr>) = srv_inv X Z Y s"
  "srv_inv X Z Y (s\<lparr>last_stats := ls\<rparr>) = srv_inv X Z Y s"
  "srv_inv X Z Y (count_backlog_drop s) = srv_inv X Z Y s"
  by (simp_all add: inv_defs count_backlog_drop_def)

lemma srv_inv_cong:
  assumes "obj_client s' = obj_client s" "obj_room s' = obj_room s" "clients s' = clients s"
    "by_name s' = by_name s" "sel_write s' = sel_write s"
    "next_client s' = next_client s" "next_room s' = next_room s"
  shows "srv_inv X Z Y s' = srv_inv X Z Y s"
  unfolding inv_defs assms ..

text \<open>Each part of the invariant reads only some fields.\<close>

lemma clients_ok_cong:
  "clients s' = clients s \<Longrightarrow> (\<And>c. dead (client_in s' c) = dead (client_in s c)) \<Longrightarrow>
   clients_ok s' = clients_ok s"
  by (simp only: clients_ok_def)

lemma rooms_ok_cong:
  "(\<And>c. room (client_in s' c) = room (client_in s c)) \<Longrightarrow>
   (\<And>r. members (room_in s' r) = members (room_in s r)) \<Longrightarrow> rooms_ok X Z s' = rooms_ok X Z s"
  by (simp only: rooms_ok_def)

lemma names_ok_cong:
  "by_name s' = by_name s \<Longrightarrow> clients s' = clients s \<Longrightarrow>
   (\<And>c. name (client_in s' c) = name (client_in s c)) \<Longrightarrow>
   (\<And>c. room (client_in s' c) = room (client_in s c)) \<Longrightarrow> names_ok s' = names_ok s"
  by (simp only: names_ok_def)

lemma fresh_ok_cong:
  "next_room s' = next_room s \<Longrightarrow> next_client s' = next_client s \<Longrightarrow>
   (\<And>r. members (room_in s' r) = members (room_in s r)) \<Longrightarrow>
   (\<And>c. dead (client_in s' c) = dead (client_in s c)) \<Longrightarrow>
   (\<And>c. name (client_in s' c) = name (client_in s c)) \<Longrightarrow> fresh_ok s' = fresh_ok s"
  by (simp only: fresh_ok_def)

lemmas ok_congs = clients_ok_cong rooms_ok_cong names_ok_cong fresh_ok_cong

lemma ok_set_room [simp]:
  "clients_ok (set_room r f s) = clients_ok s" "names_ok (set_room r f s) = names_ok s"
  "events_ok Y (set_room r f s) = events_ok Y s"
  by (simp_all only: clients_ok_def names_ok_def events_ok_def set_room_fields)

subsection \<open>What sending never undoes\<close>

text \<open>
  \<open>evolves s s'\<close>: going from \<open>s\<close> to \<open>s'\<close>, clients and room members may only be lost, in
  order; nobody changes name or room except to leave; committed output is never rewritten.
\<close>

definition out_stream :: "Server \<Rightarrow> cid \<Rightarrow> bytes" where
  "out_stream s c = wire s c @ tx (client_in s c)"

definition sublist_of :: "'a list \<Rightarrow> 'a list \<Rightarrow> bool" where
  "sublist_of xs ys \<longleftrightarrow> (\<exists>P. xs = filter P ys)"

definition client_evolves :: "Client \<Rightarrow> Client \<Rightarrow> bool" where
  "client_evolves x x' \<longleftrightarrow>
     name x' = name x \<and> sock_addr x' = sock_addr x \<and> connected_at x' = connected_at x \<and>
     rx x' = rx x \<and> (dead x \<longrightarrow> dead x') \<and> (room x' = room x \<or> room x' = None)"

definition room_evolves :: "Room \<Rightarrow> Room \<Rightarrow> bool" where
  "room_evolves x x' \<longleftrightarrow>
     started x' = started x \<and> seed x' = seed x \<and> crc x' = crc x \<and> crc_ok x' = crc_ok x \<and>
     sublist_of (members x') (members x)"

definition evolves :: "Server \<Rightarrow> Server \<Rightarrow> bool" where
  "evolves s s' \<longleftrightarrow>
     (\<forall>c. client_evolves (client_in s c) (client_in s' c)) \<and>
     (\<forall>c. prefix (out_stream s c) (out_stream s' c)) \<and>
     (\<forall>r. room_evolves (room_in s r) (room_in s' r)) \<and>
     sublist_of (by_name s') (by_name s) \<and> sublist_of (clients s') (clients s) \<and>
     next_client s' = next_client s \<and> next_room s' = next_room s \<and>
     delay s' = delay s \<and> auto_go s' = auto_go s \<and> lobby_enabled s' = lobby_enabled s \<and>
     entropy s' = entropy s"

lemma sublist_of_refl [simp, intro]: "sublist_of xs xs"
  unfolding sublist_of_def by (rule exI [of _ "\<lambda>_. True"]) simp

lemma sublist_of_filter [simp, intro]: "sublist_of (filter P xs) xs"
  by (auto simp: sublist_of_def)

lemma sublist_of_Nil [simp, intro]: "sublist_of [] xs"
  unfolding sublist_of_def by (rule exI [of _ "\<lambda>_. False"]) simp

lemma sublist_of_trans: "sublist_of xs ys \<Longrightarrow> sublist_of ys zs \<Longrightarrow> sublist_of xs zs"
  unfolding sublist_of_def by (metis filter_filter_ex)

lemma sublist_of_length: "sublist_of xs ys \<Longrightarrow> length xs \<le> length ys"
  unfolding sublist_of_def by auto

lemma sublist_of_subset: "sublist_of xs ys \<Longrightarrow> set xs \<subseteq> set ys"
  unfolding sublist_of_def by auto

lemma client_evolves_refl [simp, intro]: "client_evolves x x"
  by (simp add: client_evolves_def)

lemma room_evolves_refl [simp, intro]: "room_evolves x x"
  by (simp add: room_evolves_def)

lemma client_evolves_trans: "client_evolves x y \<Longrightarrow> client_evolves y z \<Longrightarrow> client_evolves x z"
  by (auto simp: client_evolves_def)

lemma room_evolves_trans: "room_evolves x y \<Longrightarrow> room_evolves y z \<Longrightarrow> room_evolves x z"
  by (auto simp: room_evolves_def intro: sublist_of_trans)

lemma evolves_refl [simp, intro]: "evolves s s"
  by (simp add: evolves_def)

lemma evolves_trans [trans]:
  assumes "evolves s t" and "evolves t u"
  shows "evolves s u"
proof -
  have "client_evolves (client_in s c) (client_in u c)" for c
    using assms client_evolves_trans unfolding evolves_def by blast
  moreover have "prefix (out_stream s c) (out_stream u c)" for c
    using assms prefix_order.trans unfolding evolves_def by blast
  moreover have "room_evolves (room_in s r) (room_in u r)" for r
    using assms room_evolves_trans unfolding evolves_def by blast
  moreover have "sublist_of (by_name u) (by_name s)" "sublist_of (clients u) (clients s)"
    using assms sublist_of_trans unfolding evolves_def by blast+
  ultimately show ?thesis
    using assms unfolding evolves_def by simp
qed

lemma evolves_cong:
  assumes "obj_client s' = obj_client t" "obj_room s' = obj_room t" "clients s' = clients t"
    "by_name s' = by_name t" "wire s' = wire t" "next_client s' = next_client t"
    "next_room s' = next_room t" "delay s' = delay t" "auto_go s' = auto_go t"
    "lobby_enabled s' = lobby_enabled t" "entropy s' = entropy t"
  shows "evolves s s' = evolves s t"
  unfolding evolves_def out_stream_def assms ..

lemma evolves_room_evolves: "evolves s s' \<Longrightarrow> room_evolves (room_in s r) (room_in s' r)"
  by (simp add: evolves_def)

lemma evolves_client_evolves: "evolves s s' \<Longrightarrow> client_evolves (client_in s c) (client_in s' c)"
  by (simp add: evolves_def)

lemma evolves_out_stream: "evolves s s' \<Longrightarrow> prefix (out_stream s c) (out_stream s' c)"
  by (simp add: evolves_def)

lemma evolves_clients: "evolves s s' \<Longrightarrow> length (clients s') \<le> length (clients s)"
  by (simp add: evolves_def sublist_of_length)

lemma evolves_clients_subset: "evolves s s' \<Longrightarrow> set (clients s') \<subseteq> set (clients s)"
  by (simp add: evolves_def sublist_of_subset)

lemma evolves_members:
  "evolves s s' \<Longrightarrow> length (members (room_in s' r)) \<le> length (members (room_in s r))"
  using evolves_room_evolves sublist_of_length unfolding room_evolves_def by blast

lemma evolves_members_subset:
  "evolves s s' \<Longrightarrow> set (members (room_in s' r)) \<subseteq> set (members (room_in s r))"
  using evolves_room_evolves sublist_of_subset unfolding room_evolves_def by blast

lemma evolves_by_name_subset: "evolves s s' \<Longrightarrow> set (by_name s') \<subseteq> set (by_name s)"
  by (simp add: evolves_def sublist_of_subset)

lemma evolves_name: "evolves s s' \<Longrightarrow> name (client_in s' c) = name (client_in s c)"
  using evolves_client_evolves unfolding client_evolves_def by blast

lemma evolves_dead: "evolves s s' \<Longrightarrow> dead (client_in s c) \<Longrightarrow> dead (client_in s' c)"
  using evolves_client_evolves unfolding client_evolves_def by blast

lemma evolves_started: "evolves s s' \<Longrightarrow> started (room_in s' r) = started (room_in s r)"
  using evolves_room_evolves unfolding room_evolves_def by blast

text \<open>Updates of one client or room that are such an evolution.\<close>

lemma evolves_other_fields [simp]:
  "evolves s (s\<lparr>log_lines := l\<rparr>)" "evolves s (s\<lparr>lobby_calls := lc\<rparr>)"
  "evolves s (s\<lparr>stats := st\<rparr>)" "evolves s (s\<lparr>net := n\<rparr>)"
  "evolves s (s\<lparr>sel_write := sw\<rparr>)" "evolves s (count_backlog_drop s)"
  by (simp_all add: evolves_def out_stream_def count_backlog_drop_def)

lemma evolves_leave: "evolves s (set_client c (\<lambda>x. x\<lparr>room := None\<rparr>) s)"
  by (simp add: evolves_def out_stream_def client_evolves_def)

lemma evolves_set_members:
  "sublist_of (f (members (room_in s r))) (members (room_in s r)) \<Longrightarrow>
   evolves s (set_room r (\<lambda>x. x\<lparr>members := f (members x)\<rparr>) s)"
  by (simp add: evolves_def out_stream_def room_evolves_def)

end
