(* ===== verification/Transport_Correct.thy ===== *)
theory Transport_Correct
  imports Transport_Inv
begin

text \<open>
  Correctness of the plumbing. Two interfaces describe the two sides of the circle between
  \<open>send\<close> and \<open>drop\<close>: a \<open>dropper\<close> disconnects a client and keeps the invariant, a
  \<open>sender\<close> sends and keeps it. A dropper gives a sender; a sender gives the body of
  \<open>drop\<close>. Induction on the recursion budget closes the circle and shows that the budget is
  never used up and that nothing raises.
\<close>

lemma wp_log_line [wp_simps]:
  "wp (log_line l) Q E s = Q () (s\<lparr>log_lines := log_lines s @ [l s]\<rparr>)"
  by (simp add: log_line_def wp_modify)

lemma wp_lobby_update [wp_simps]:
  "wp lobby_update Q E s =
     Q () (if lobby_enabled s then s\<lparr>lobby_calls := lobby_calls s @ [length (by_name s)]\<rparr> else s)"
  by (simp add: lobby_update_def wp_simps)

text \<open>A frame that fits is built without an error.\<close>

lemma wp_frame:
  "length p \<le> 254 \<Longrightarrow> wp (bind (attempt Py (frame t p)) k) Q E s =
     wp (k (of_nat (Suc (length p)) # t # p)) Q E s"
  by (simp add: wp_simps frame_ok)

subsection \<open>Senders\<close>

locale sender =
  fixes emit :: "cid \<Rightarrow> bytes \<Rightarrow> unit srv" and ready :: "Server \<Rightarrow> bool"
  assumes ready_evolves: "ready s \<Longrightarrow> evolves s s' \<Longrightarrow> ready s'"
    and emit_keeps: "srv_inv X {} {} s \<Longrightarrow> ready s \<Longrightarrow>
      wp (emit c d) (\<lambda>_ s'. srv_inv X {} {} s' \<and> evolves s s') no_exn s"
begin

lemma emit_step:
  assumes "srv_inv X {} {} s \<and> evolves s0 s" and "ready s0"
  shows "wp (emit c d) (\<lambda>_ s'. srv_inv X {} {} s' \<and> evolves s0 s') no_exn s"
  by (rule wp_mono [OF emit_keeps]) (use assms ready_evolves evolves_trans in blast)+

lemma emit_frame_step:
  assumes "srv_inv X {} {} s \<and> evolves s0 s" and "ready s0" and "length p \<le> 254"
  shows "wp (bind (attempt Py (frame t p)) (emit c))
    (\<lambda>_ s'. srv_inv X {} {} s' \<and> evolves s0 s') no_exn s"
  using emit_step [OF assms(1,2)] by (simp add: wp_frame assms(3))

end

subsection \<open>Broadcast\<close>

lemma member_named:
  "srv_inv X Z Y s \<Longrightarrow> r \<notin> X \<Longrightarrow> m \<in> set (members (room_in s r)) \<Longrightarrow>
   \<exists>n. name (client_in s m) = Some n \<and> valid_name n"
  using srv_inv_room_iff [of X Z Y s m r] srv_inv_names [of X Z Y s] by blast

lemma roster_ok:
  assumes "srv_inv X Z Y s" and "r \<notin> X"
  shows "\<exists>b. roster s r = Inr b \<and> length b = 32"
proof -
  let ?ms = "members (room_in s r)"
  have "length ?ms \<le> 4"
    by (rule srv_inv_members [OF assms(1)])
  moreover have "\<forall>n \<in> set (map (\<lambda>m. name (client_in s m)) ?ms). \<exists>k. n = Some k \<and> valid_name k"
    using member_named [OF assms] by simp
  from pad_all_valid [OF this] obtain bs where
    "pad_all (map (\<lambda>m. name (client_in s m)) ?ms) = Inr bs" "length bs = 8 * length ?ms"
    by auto
  ultimately show ?thesis
    by (simp add: roster_def ROSTER_SLOTS_def)
qed

lemma count_byte_ok:
  assumes "srv_inv X Z Y s"
  shows "py_bytes [int (length (members (room_in s r)))] =
    Inr [of_nat (length (members (room_in s r)))]"
proof -
  have "length (members (room_in s r)) \<le> 4"
    by (rule srv_inv_members [OF assms])
  then show ?thesis by (simp add: py_bytes_def)
qed

context sender
begin

lemma room_broadcast_ok:
  assumes "srv_inv X {} {} s" and "ready s" and "r \<notin> X"
  shows "wp (room_broadcast_with emit r) (\<lambda>_ s'. srv_inv X {} {} s' \<and> evolves s s') no_exn s"
proof -
  obtain b where b: "roster s r = Inr b" "length b = 32"
    using roster_ok [OF assms(1,3)] by blast
  let ?f = "\<lambda>_ m. bind (attempt Py
      (frame T_ROOM ([of_nat (length (members (room_in s r)))] @ b))) (\<lambda>f. emit m f)"
  have "wp (for_live Stuck (\<lambda>s. members (room_in s r)) ?f)
      (\<lambda>_ s'. srv_inv X {} {} s' \<and> evolves s s') no_exn s"
  proof (rule wp_for_live)
    show "srv_inv X {} {} s \<and> evolves s s"
      using assms by simp
    fix i t
    assume t: "srv_inv X {} {} t \<and> evolves s t"
    have "wp (?f i (members (room_in t r) ! i))
        (\<lambda>_ s'. srv_inv X {} {} s' \<and> evolves t s') no_exn t"
      by (rule emit_frame_step) (use t b ready_evolves assms in auto)
    then show "wp (?f i (members (room_in t r) ! i)) (\<lambda>_ s'.
        (srv_inv X {} {} s' \<and> evolves s s') \<and>
        length (members (room_in s' r)) \<le> length (members (room_in t r))) no_exn t"
      by (rule wp_mono) (use t evolves_trans evolves_members in auto)
  qed
  then show ?thesis
    by (simp add: room_broadcast_with_def wp_simps count_byte_ok [OF assms(1)] b)
qed

end

subsection \<open>Dissolving a room\<close>

definition leave_all :: "cid list \<Rightarrow> Server \<Rightarrow> Server" where
  "leave_all ms s = s\<lparr>obj_client := (\<lambda>c. if c \<in> set ms
     then (client_in s c)\<lparr>room := None\<rparr> else client_in s c)\<rparr>"

lemma wp_leave_each:
  "wp (for_each ms (\<lambda>m. upd_client m (\<lambda>x. x\<lparr>room := None\<rparr>))) Q E s = Q () (leave_all ms s)"
proof (induction ms arbitrary: s)
  case Nil
  show ?case by (simp add: for_each.simps wp_simps leave_all_def)
next
  case (Cons m ms)
  have "leave_all ms (set_client m (\<lambda>x. x\<lparr>room := None\<rparr>) s) = leave_all (m # ms) s"
    by (auto simp: leave_all_def set_client_def fun_eq_iff)
  with Cons show ?case by (simp add: for_each.simps wp_simps)
qed

lemma evolves_leave_all: "evolves s (leave_all ms s)"
  by (simp add: evolves_def leave_all_def out_stream_def client_evolves_def)

lemma leave_all_fields [simp]:
  "obj_room (leave_all ms s) = obj_room s" "clients (leave_all ms s) = clients s"
  "by_name (leave_all ms s) = by_name s" "sel_write (leave_all ms s) = sel_write s"
  "next_room (leave_all ms s) = next_room s" "next_client (leave_all ms s) = next_client s"
  "name (client_in (leave_all ms s) c) = name (client_in s c)"
  "dead (client_in (leave_all ms s) c) = dead (client_in s c)"
  "tx (client_in (leave_all ms s) c) = tx (client_in s c)"
  "room (client_in (leave_all ms s) c) = (if c \<in> set ms then None else room (client_in s c))"
  by (simp_all add: leave_all_def)

lemma srv_inv_leave_all:
  assumes "srv_inv X {r} Y s" and "r \<notin> X"
  shows "srv_inv (insert r X) {} Y (leave_all (members (room_in s r)) s)"
proof -
  note iff = srv_inv_room_iff [OF assms(1)] and mem = srv_inv_members [OF assms(1)]
  have "rooms_ok (insert r X) {} (leave_all (members (room_in s r)) s)"
  proof (rule rooms_okI)
    fix c q
    show "room (client_in (leave_all (members (room_in s r)) s) c) = Some q \<longleftrightarrow>
      q \<notin> insert r X \<and> c \<in> set (members (room_in (leave_all (members (room_in s r)) s) q))"
      using iff [of c q] srv_inv_one_room [OF assms(1), of c q r] assms(2) by auto
  next
    fix q
    show "distinct (members (room_in (leave_all (members (room_in s r)) s) q))"
      using mem(1) [of q] by simp
    show "length (members (room_in (leave_all (members (room_in s r)) s) q)) \<le> 4"
      using mem(2) [of q] by simp
    show "length (members (room_in (leave_all (members (room_in s r)) s) q)) \<noteq> 1" if "q \<notin> insert r X \<union> {}"
      using mem(3) [of q] that by auto
  qed
  moreover have "clients_ok (leave_all ms s)" "events_ok Y (leave_all ms s)"
    "fresh_ok (leave_all ms s)" for ms
    using assms(1) by (simp_all add: inv_defs)
  moreover have "names_ok (leave_all ms s)" for ms
    unfolding names_ok_def leave_all_fields
    using srv_inv_names [OF assms(1)] by auto
  ultimately show ?thesis
    by (simp add: srv_inv_def)
qed

lemma srv_inv_clear_room:
  assumes "srv_inv (insert r X) Z Y s" and "r \<notin> X"
  shows "srv_inv X Z Y (set_room r (\<lambda>x. x\<lparr>members := []\<rparr>) s)"
proof -
  note iff = srv_inv_room_iff [OF assms(1)] and mem = srv_inv_members [OF assms(1)]
  have "rooms_ok X Z (set_room r (\<lambda>x. x\<lparr>members := []\<rparr>) s)"
  proof (rule rooms_okI)
    fix c q
    show "room (client_in (set_room r (\<lambda>x. x\<lparr>members := []\<rparr>) s) c) = Some q \<longleftrightarrow>
      q \<notin> X \<and> c \<in> set (members (room_in (set_room r (\<lambda>x. x\<lparr>members := []\<rparr>) s) q))"
      using iff [of c q] by (cases "q = r") auto
  next
    fix q
    show "distinct (members (room_in (set_room r (\<lambda>x. x\<lparr>members := []\<rparr>) s) q))"
      using mem(1) [of q] by simp
    show "length (members (room_in (set_room r (\<lambda>x. x\<lparr>members := []\<rparr>) s) q)) \<le> 4"
      using mem(2) [of q] by simp
    show "length (members (room_in (set_room r (\<lambda>x. x\<lparr>members := []\<rparr>) s) q)) \<noteq> 1" if "q \<notin> X \<union> Z"
      using mem(3) [of q] that by auto
  qed
  moreover have "fresh_ok (set_room r (\<lambda>x. x\<lparr>members := []\<rparr>) s)"
    using assms by (simp add: srv_inv_def fresh_ok_def)
  ultimately show ?thesis
    using assms(1) by (simp add: srv_inv_def)
qed

lemma evolves_clear_room:
  "evolves s t \<Longrightarrow> evolves s (set_room r (\<lambda>x. x\<lparr>members := []\<rparr>) t)"
  by (rule evolves_trans, assumption, rule evolves_set_members) simp

context sender
begin

lemma dissolve_ok:
  assumes "srv_inv X {r} {} s" and "ready s" and "r \<notin> X"
  shows "wp (dissolve_with emit r notify)
    (\<lambda>_ s'. srv_inv X {} {} s' \<and> evolves s s' \<and> members (room_in s' r) = []) no_exn s"
proof -
  let ?t = "leave_all (members (room_in s r)) s"
  have t: "srv_inv (insert r X) {} {} ?t" "ready ?t"
    using srv_inv_leave_all [OF assms(1,3)] ready_evolves [OF assms(2) evolves_leave_all] .
  have "wp (for_each notify (\<lambda>m. bind (attempt Py (frame T_ROOM ([0] @ replicate 32 0))) (emit m)))
      (\<lambda>_ s'. srv_inv (insert r X) {} {} s' \<and> evolves ?t s') no_exn ?t"
    by (rule wp_for_each) (use t emit_frame_step in auto)
  then have "wp (for_each notify (\<lambda>m. bind (attempt Py (frame T_ROOM ([0] @ replicate 32 0))) (emit m)))
      (\<lambda>_ s'. srv_inv X {} {} (set_room r (\<lambda>x. x\<lparr>members := []\<rparr>) s') \<and>
        evolves s (set_room r (\<lambda>x. x\<lparr>members := []\<rparr>) s')) no_exn ?t"
    by (rule wp_mono)
      (auto intro: srv_inv_clear_room [OF _ assms(3)] evolves_clear_room
        evolves_trans [OF evolves_leave_all])
  then show ?thesis
    by (simp add: dissolve_with_def wp_block_Cons wp_block_Nil wp_reading wp_leave_each wp_modify py_bytes_def)
qed

end

subsection \<open>Forgetting a client\<close>

lemma foldr_delete: "foldr AList.delete ks al = filter (\<lambda>p. fst p \<notin> set ks) al"
  by (induction ks) (auto simp: AList_delete_filter intro!: filter_cong)

lemma delete_stale:
  assumes "distinct (map fst al)"
  shows "foldr AList.delete [n. (n, d) \<leftarrow> al, d = c] al = filter (\<lambda>p. snd p \<noteq> c) al"
  using assms by (auto simp: foldr_delete intro!: filter_cong dest: eq_key_imp_eq_value)

text \<open>The state after \<open>forget_client\<close>, up to the log and the calls to the lobby publisher.\<close>

definition forgotten :: "cid \<Rightarrow> Server \<Rightarrow> Server" where
  "forgotten c s = (set_client c (\<lambda>x. x\<lparr>dead := True\<rparr>) s)
     \<lparr>sel_write := (sel_write s)(c := False), clients := removeAll c (clients s),
      by_name := filter (\<lambda>p. snd p \<noteq> c) (by_name s)\<rparr>"

lemma forgotten_fields [simp]:
  "obj_room (forgotten c s) = obj_room s"
  "clients (forgotten c s) = removeAll c (clients s)"
  "by_name (forgotten c s) = filter (\<lambda>p. snd p \<noteq> c) (by_name s)"
  "sel_write (forgotten c s) = (sel_write s)(c := False)"
  "next_client (forgotten c s) = next_client s" "next_room (forgotten c s) = next_room s"
  "room (client_in (forgotten c s) d) = room (client_in s d)"
  "name (client_in (forgotten c s) d) = name (client_in s d)"
  "tx (client_in (forgotten c s) d) = tx (client_in s d)"
  "dead (client_in (forgotten c s) d) = (d = c \<or> dead (client_in s d))"
  by (simp_all add: forgotten_def)

lemma wp_forget_client:
  assumes "distinct (map fst (by_name s))"
  shows "wp (forget_client c why) (\<lambda>_ s'.
    obj_client s' = obj_client (forgotten c s) \<and> obj_room s' = obj_room s \<and>
    clients s' = removeAll c (clients s) \<and> by_name s' = by_name (forgotten c s) \<and>
    sel_write s' = sel_write (forgotten c s) \<and> wire s' = wire s \<and>
    next_client s' = next_client s \<and> next_room s' = next_room s \<and> delay s' = delay s \<and>
    auto_go s' = auto_go s \<and> lobby_enabled s' = lobby_enabled s \<and> entropy s' = entropy s \<and> net s' = net s) no_exn s"
  using delete_stale [OF assms, of c]
  by (simp add: forget_client_def wp_simps Let_def forgotten_def)

lemma srv_inv_forgotten:
  assumes "srv_inv X {} {c} s"
  shows "srv_inv X {} {} (forgotten c s)"
proof -
  have "rooms_ok X {} (forgotten c s)"
    using assms by (simp add: srv_inv_def rooms_ok_def)
  moreover have "clients_ok (forgotten c s)"
    using srv_inv_clients [OF assms] by (auto simp: clients_ok_def distinct_removeAll)
  moreover have "names_ok (forgotten c s)"
    unfolding names_ok_def forgotten_fields
    using srv_inv_names [OF assms] distinct_fst_filter by auto
  moreover have "events_ok {} (forgotten c s)" "fresh_ok (forgotten c s)"
    using assms by (auto simp: srv_inv_def events_ok_def fresh_ok_def)
  ultimately show ?thesis
    by (simp add: srv_inv_def)
qed

lemma removeAll_filter: "removeAll c xs = filter (\<lambda>d. d \<noteq> c) xs"
  by (induction xs) auto

lemma evolves_forgotten: "evolves s (forgotten c s)"
  by (simp add: evolves_def client_evolves_def out_stream_def removeAll_filter)
    (simp add: forgotten_def)

lemma forget_client_ok:
  assumes "srv_inv X {} {c} s" and "\<not> dead (client_in s c)"
  shows "wp (forget_client c why) (\<lambda>_ s'. srv_inv X {} {} s' \<and> evolves s s' \<and>
      dead (client_in s' c) \<and> c \<notin> snd ` set (by_name s') \<and>
      length (clients s') < length (clients s)) no_exn s"
proof (rule wp_mono [OF wp_forget_client])
  show "distinct (map fst (by_name s))"
    by (rule srv_inv_names [OF assms(1)])
  have c: "c \<in> set (clients s)"
    using assms srv_inv_clients [OF assms(1)] by blast
  fix x :: unit and s' :: Server
  assume s': "obj_client s' = obj_client (forgotten c s) \<and> obj_room s' = obj_room s \<and>
    clients s' = removeAll c (clients s) \<and> by_name s' = by_name (forgotten c s) \<and>
    sel_write s' = sel_write (forgotten c s) \<and> wire s' = wire s \<and>
    next_client s' = next_client s \<and> next_room s' = next_room s \<and> delay s' = delay s \<and>
    auto_go s' = auto_go s \<and> lobby_enabled s' = lobby_enabled s \<and> entropy s' = entropy s \<and> net s' = net s"
  have "srv_inv X {} {} s'"
    using srv_inv_forgotten [OF assms(1)] s'
    by (subst srv_inv_cong [of s' "forgotten c s"]) auto
  moreover have "evolves s s'"
    using evolves_forgotten [of s c] s'
    by (subst evolves_cong [of s' "forgotten c s"]) (auto simp: forgotten_def)
  moreover have "length (removeAll c (clients s)) < length (clients s)"
    using c by (simp add: removeAll_filter length_filter_less)
  ultimately show "srv_inv X {} {} s' \<and> evolves s s' \<and> dead (client_in s' c) \<and>
      c \<notin> snd ` set (by_name s') \<and> length (clients s') < length (clients s)"
    using s' by auto
qed simp

subsection \<open>Leaving a room\<close>

definition unseated :: "rid \<Rightarrow> cid \<Rightarrow> Server \<Rightarrow> Server" where
  "unseated r c s = set_room r (\<lambda>x. x\<lparr>members := remove1 c (members x)\<rparr>)
     (set_client c (\<lambda>x. x\<lparr>room := None\<rparr>) s)"

lemma unseated_fields [simp]:
  "clients (unseated r c s) = clients s" "by_name (unseated r c s) = by_name s"
  "sel_write (unseated r c s) = sel_write s" "next_client (unseated r c s) = next_client s"
  "next_room (unseated r c s) = next_room s"
  "name (client_in (unseated r c s) d) = name (client_in s d)"
  "tx (client_in (unseated r c s) d) = tx (client_in s d)"
  "dead (client_in (unseated r c s) d) = dead (client_in s d)"
  "room (client_in (unseated r c s) d) = (if d = c then None else room (client_in s d))"
  "members (room_in (unseated r c s) q) =
     (if q = r then remove1 c (members (room_in s r)) else members (room_in s q))"
  "started (room_in (unseated r c s) q) = started (room_in s q)"
  by (simp_all add: unseated_def)

lemma srv_inv_unseated:
  assumes "srv_inv X {} Y s" and "room (client_in s c) = Some r"
  shows "srv_inv X {r} Y (unseated r c s)"
proof -
  note iff = srv_inv_room_iff [OF assms(1)] and mem = srv_inv_members [OF assms(1)]
  have r: "r \<notin> X" "c \<in> set (members (room_in s r))"
    using iff assms(2) by auto
  have "rooms_ok X {r} (unseated r c s)"
  proof (rule rooms_okI)
    fix d q
    have "d \<in> set (remove1 c (members (room_in s r))) \<longleftrightarrow> d \<noteq> c \<and> d \<in> set (members (room_in s r))"
      using mem(1) by (simp add: remove1_filter conj_commute)
    then show "room (client_in (unseated r c s) d) = Some q \<longleftrightarrow>
        q \<notin> X \<and> d \<in> set (members (room_in (unseated r c s) q))"
      using iff [of d q] r srv_inv_one_room [OF assms(1) _ r(2), of q] by (cases "q = r") auto
  next
    fix q
    show "distinct (members (room_in (unseated r c s) q))"
      using mem(1) by simp
    show "length (members (room_in (unseated r c s) q)) \<le> 4"
      using mem(2) [of r] mem(2) [of q] by (simp add: length_remove1 le_diff_conv)
    show "length (members (room_in (unseated r c s) q)) \<noteq> 1" if "q \<notin> X \<union> {r}"
      using mem(3) [of q] that by auto
  qed
  moreover have "clients_ok (unseated r c s)" "events_ok Y (unseated r c s)"
    "fresh_ok (unseated r c s)"
    using assms(1) by (auto simp: inv_defs)
  moreover have "names_ok (unseated r c s)"
    unfolding names_ok_def unseated_fields using srv_inv_names [OF assms(1)] by auto
  ultimately show ?thesis
    by (simp add: srv_inv_def)
qed

lemma srv_inv_tighten:
  "srv_inv X {r} Y s \<Longrightarrow> length (members (room_in s r)) \<noteq> 1 \<Longrightarrow> srv_inv X {} Y s"
  unfolding srv_inv_def rooms_ok_def by (metis Un_iff singletonD)

lemma evolves_unseated:
  "srv_inv X Z Y s \<Longrightarrow> evolves s (unseated r c s)"
  unfolding unseated_def
  by (rule evolves_trans [OF evolves_leave evolves_set_members])
    (use srv_inv_members(1) [of X Z Y s r] in \<open>auto simp: remove1_filter\<close>)

lemma peer_left_ok:
  assumes "valid_name n" and "seat < 256"
  shows "\<exists>f. peer_left_frame seat (Some n) = Inr f"
proof -
  obtain b where "pad_opt (Some n) = Inr b" "length b = 8"
    using pad_opt_valid [OF assms(1)] by blast
  then show ?thesis
    using assms(2) by (simp add: peer_left_frame_def py_bytes_def frame_ok)
qed

lemma srv_inv_log [simp]: "srv_inv X Z Y (s\<lparr>log_lines := l\<rparr>) = srv_inv X Z Y s"
  by simp

lemma evolves_log_iff [simp]:
  "evolves s (t\<lparr>log_lines := l\<rparr>) = evolves s t" "evolves s (t\<lparr>lobby_calls := lc\<rparr>) = evolves s t"
  by (rule evolves_cong; simp)+

definition gone :: "Server \<Rightarrow> cid \<Rightarrow> Server \<Rightarrow> bool" where
  "gone s c s' \<longleftrightarrow> dead (client_in s' c) \<and>
     (\<not> dead (client_in s c) \<longrightarrow> room (client_in s' c) = None \<and> c \<notin> snd ` set (by_name s'))"

context sender
begin

lemma end_match_ok:
  assumes "srv_inv X {r} {} s" and "ready s" and "r \<notin> X"
    and f: "peer_left_frame seat (name (client_in s c)) = Inr f"
  shows "wp (end_match_with emit r c seat) (\<lambda>_ s'. srv_inv X {} {} s' \<and> evolves s s') no_exn s"
proof -
  let ?l = "s\<lparr>log_lines := log_lines s @
    [LogMatchEnded (crc_ok (room_in s r)) (repr_Client (client_in s c)) seat]\<rparr>"
  let ?tell = "\<lambda>m. block [emit m f, log_line (\<lambda>s. LogBackToLobby (repr_Client (client_in s m)))]"
  have l: "srv_inv X {r} {} ?l" "ready ?l" "evolves s ?l"
    using assms(1) ready_evolves [OF assms(2)] by simp_all
  have step: "wp (?tell m) (\<lambda>_ s'. srv_inv X {} {} s' \<and> evolves s s') no_exn t"
    if "srv_inv X {} {} t \<and> evolves s t" for m t
    unfolding wp_block_Cons wp_block_Nil
    by (rule wp_mono [OF emit_step [OF that assms(2)]]) (auto simp: wp_simps)
  have "wp (dissolve_with emit r []) (\<lambda>_ t. wp (for_each (members (room_in s r)) ?tell)
      (\<lambda>_ s'. srv_inv X {} {} s' \<and> evolves s s') no_exn t) no_exn ?l"
    by (rule wp_mono [OF dissolve_ok [OF l(1,2) assms(3)]])
      (auto intro!: wp_for_each step intro: evolves_trans [OF l(3)])
  then show ?thesis
    by (simp add: end_match_with_def f Let_def wp_simps)
qed

lemma tell_room_ok:
  assumes "srv_inv X {r} {} s" and "ready s" and "r \<notin> X"
    and f: "peer_left_frame seat (name (client_in s c)) = Inr f"
  shows "wp (tell_room_with emit r c seat) (\<lambda>_ s'. srv_inv X {} {} s' \<and> evolves s s') no_exn s"
proof -
  let ?l = "s\<lparr>log_lines := log_lines s @ [LogDissolved (room_repr s r)]\<rparr>"
  have l: "srv_inv X {r} {} ?l" "ready ?l" "evolves s ?l"
    using assms(1) ready_evolves [OF assms(2)] by simp_all
  have "wp (dissolve_with emit r (members (room_in s r)))
      (\<lambda>_ s'. srv_inv X {} {} s' \<and> evolves s s') no_exn ?l"
    by (rule wp_mono [OF dissolve_ok [OF l(1,2) assms(3)]])
      (auto intro: evolves_trans [OF l(3)])
  moreover have "wp (dissolve_with emit r (members (room_in s r)))
      (\<lambda>_ s'. srv_inv X {} {} s' \<and> evolves s s') no_exn s"
    by (rule wp_mono [OF dissolve_ok [OF assms(1-3)]]) auto
  moreover have "wp (room_broadcast_with emit r)
      (\<lambda>_ s'. srv_inv X {} {} s' \<and> evolves s s') no_exn s"
    if "\<not> length (members (room_in s r)) < 2"
    by (rule room_broadcast_ok [OF srv_inv_tighten [OF assms(1)] assms(2,3)]) (use that in simp)
  ultimately show ?thesis
    using end_match_ok [OF assms] by (simp add: tell_room_with_def wp_simps)
qed

lemma leave_room_ok:
  assumes "srv_inv X {} {} s" and "ready s" and "room (client_in s c) = Some r"
  shows "wp (leave_room_with emit r c)
    (\<lambda>_ s'. srv_inv X {} {} s' \<and> evolves s s' \<and> room (client_in s' c) = None) no_exn s"
proof -
  let ?u = "unseated r c s"
  note mem = srv_inv_members [OF assms(1), of r]
  have r: "r \<notin> X" "c \<in> set (members (room_in s r))"
    using srv_inv_room_iff [OF assms(1)] assms(3) by auto
  then obtain seat where seat: "py_index (members (room_in s r)) c = Some seat"
    using py_index_None by fastforce
  then have "seat < 256"
    using py_index_Some [OF seat] mem(2) by simp
  moreover obtain n where "name (client_in ?u c) = Some n" "valid_name n"
    using srv_inv_names(4,5) [OF assms(1)] assms(3) by fastforce
  ultimately obtain f where f: "peer_left_frame seat (name (client_in ?u c)) = Inr f"
    using peer_left_ok by metis
  have u: "srv_inv X {r} {} ?u" "evolves s ?u" "ready ?u"
    using srv_inv_unseated [OF assms(1,3)] evolves_unseated [OF assms(1)] ready_evolves assms(2)
    by blast+
  have out: "room (client_in t c) = None" if "evolves ?u t" for t
    using evolves_client_evolves [OF that, of c] by (simp add: client_evolves_def)
  have "wp (tell_room_with emit r c seat)
      (\<lambda>_ s'. wp lobby_update (\<lambda>_ s'. srv_inv X {} {} s' \<and> evolves s s' \<and>
        room (client_in s' c) = None) no_exn s') no_exn ?u"
    by (rule wp_mono [OF tell_room_ok [OF u(1,3) r(1) f]])
      (auto simp: wp_simps out intro: evolves_trans [OF u(2)])
  then show ?thesis
    by (simp add: leave_room_with_def wp_simps seat_in_def seat flip: unseated_def)
qed

text \<open>A client that was connected is out of its room and out of \<open>by_name\<close> when it is dropped.\<close>

lemma drop_body_ok:
  assumes "srv_inv X {} {c} s"
    and "\<And>t. evolves s t \<Longrightarrow> length (clients t) < length (clients s) \<Longrightarrow> ready t"
  shows "wp (drop_body emit c why)
    (\<lambda>_ s'. srv_inv X {} {} s' \<and> evolves s s' \<and> gone s c s') no_exn s"
proof (cases "dead (client_in s c)")
  case True
  then have "srv_inv X {} {} s"
    using assms(1) srv_inv_clients(2) [OF assms(1), of c]
    by (simp add: srv_inv_def events_ok_def)
  with True show ?thesis
    by (simp add: drop_body_def wp_simps gone_def)
next
  case False
  have "wp (case room (client_in t c) of None \<Rightarrow> return () | Some r \<Rightarrow> leave_room_with emit r c)
      (\<lambda>_ s'. srv_inv X {} {} s' \<and> evolves s s' \<and> gone s c s') no_exn t"
    if t: "srv_inv X {} {} t" "evolves s t" "dead (client_in t c)" "c \<notin> snd ` set (by_name t)"
      "ready t" for t
  proof (cases "room (client_in t c)")
    case None
    with t show ?thesis by (simp add: wp_simps gone_def)
  next
    case (Some r)
    show ?thesis
      unfolding Some option.case
    proof (rule wp_mono [OF leave_room_ok [OF t(1,5) Some]])
      fix x :: unit and u
      assume u: "srv_inv X {} {} u \<and> evolves t u \<and> room (client_in u c) = None"
      then have "dead (client_in u c)" "c \<notin> snd ` set (by_name u)"
        using t(3,4) evolves_dead [of t u c] evolves_by_name_subset [of t u] by blast+
      with u show "srv_inv X {} {} u \<and> evolves s u \<and> gone s c u"
        using evolves_trans [OF t(2)] by (simp add: gone_def)
    qed simp
  qed
  then have "wp (forget_client c why) (\<lambda>_ t. wp
        (case room (client_in t c) of None \<Rightarrow> return () | Some r \<Rightarrow> leave_room_with emit r c)
        (\<lambda>_ s'. srv_inv X {} {} s' \<and> evolves s s' \<and> gone s c s') no_exn t) no_exn s"
    by (intro wp_mono [OF forget_client_ok [OF assms(1) False]]) (auto intro: assms(2))
  with False show ?thesis
    by (simp add: drop_body_def wp_simps)
qed

end

subsection \<open>Droppers, and the recursion budget\<close>

locale dropper =
  fixes disconnect :: "cid \<Rightarrow> drop_reason \<Rightarrow> unit srv" and ready :: "Server \<Rightarrow> bool"
  assumes still_ready: "ready s \<Longrightarrow> evolves s s' \<Longrightarrow> ready s'"
    and disconnect_ok: "srv_inv X {} {c} s \<Longrightarrow> ready s \<Longrightarrow>
      wp (disconnect c why)
        (\<lambda>_ s'. srv_inv X {} {} s' \<and> evolves s s' \<and> dead (client_in s' c)) no_exn s"

text \<open>Filling the transmit buffer and pumping it, without the drop that may follow.\<close>

definition queued :: "cid \<Rightarrow> bytes \<Rightarrow> Server \<Rightarrow> Server" where
  "queued c data s = set_client c (\<lambda>x. x\<lparr>tx := tx x @ data\<rparr>) s"

definition pumped :: "cid \<Rightarrow> send_answer list \<Rightarrow> bytes \<Rightarrow> bytes \<Rightarrow> Server \<Rightarrow> Server" where
  "pumped c answers pending taken s = set_client c (\<lambda>x. x\<lparr>tx := pending\<rparr>)
     (s\<lparr>net := (net s)(c := answers), wire := (wire s)(c := taken)\<rparr>)"

lemma srv_inv_set_tx:
  assumes "srv_inv X Z Y s" and "length t \<le> MAX_TX_BACKLOG"
  shows "srv_inv X Z (insert c Y) (set_client c (\<lambda>x. x\<lparr>tx := t\<rparr>) s)"
proof -
  let ?s = "set_client c (\<lambda>x. x\<lparr>tx := t\<rparr>) s"
  have "clients_ok ?s = clients_ok s" "rooms_ok X Z ?s = rooms_ok X Z s"
    "names_ok ?s = names_ok s" "fresh_ok ?s = fresh_ok s"
    by (rule ok_congs; simp)+
  moreover have "events_ok (insert c Y) ?s"
    using assms by (simp add: srv_inv_def events_ok_def)
  ultimately show ?thesis
    using assms(1) by (simp add: srv_inv_def)
qed

lemma evolves_queued: "evolves s (queued c data s)"
  by (auto simp: evolves_def queued_def out_stream_def client_evolves_def)

lemma evolves_pumped:
  "pump (net s c) (tx (client_in s c)) (wire s c) = (r, as, t, w) \<Longrightarrow> evolves s (pumped c as t w s)"
  by (auto simp: evolves_def pumped_def out_stream_def client_evolves_def dest: pump_stream)

lemma srv_inv_pumped:
  assumes "srv_inv X Z {c} s" and "pump (net s c) (tx (client_in s c)) (wire s c) = (r, as, t, w)"
  shows "srv_inv X Z {c} (pumped c as t w s)"
proof -
  let ?n = "s\<lparr>net := (net s)(c := as), wire := (wire s)(c := w)\<rparr>"
  have "length (tx (client_in s c)) \<le> MAX_TX_BACKLOG"
    using assms(1) by (simp add: srv_inv_def events_ok_def)
  then have "length t \<le> MAX_TX_BACKLOG"
    using pump_length [OF assms(2)] by simp
  moreover have "srv_inv X Z {c} ?n"
    using assms(1) by (subst srv_inv_cong [of _ s]) simp_all
  ultimately show ?thesis
    using srv_inv_set_tx [of X Z "{c}" ?n t c] by (simp add: pumped_def)
qed

lemma update_events_ok:
  assumes "srv_inv X {} {c} s"
  shows "wp (update_events c) (\<lambda>_ s'. srv_inv X {} {} s' \<and> evolves s s') no_exn s"
proof -
  let ?s = "s\<lparr>sel_write := (sel_write s)(c := tx (client_in s c) \<noteq> [])\<rparr>"
  have "clients_ok ?s = clients_ok s" "rooms_ok X {} ?s = rooms_ok X {} s"
    "names_ok ?s = names_ok s" "fresh_ok ?s = fresh_ok s"
    by (rule ok_congs; simp)+
  moreover have "events_ok {} ?s"
    using assms by (simp add: srv_inv_def events_ok_def)
  ultimately have "srv_inv X {} {} ?s"
    using assms by (simp add: srv_inv_def)
  moreover have "srv_inv X {} {} s" if "c \<notin> set (clients s)"
    using assms that by (auto simp: srv_inv_def events_ok_def)
  ultimately show ?thesis
    by (simp add: update_events_def wp_simps)
qed

context dropper
begin

lemma flush_ok:
  assumes "srv_inv X {} {c} s" and "ready s"
  shows "wp (flush_with disconnect c) (\<lambda>_ s'. srv_inv X {} {} s' \<and> evolves s s') no_exn s"
proof -
  obtain r as t w where p: "pump (net s c) (tx (client_in s c)) (wire s c) = (r, as, t, w)"
    by (metis prod_cases4)
  have u: "srv_inv X {} {c} (pumped c as t w s)" "evolves s (pumped c as t w s)"
    using srv_inv_pumped [OF assms(1) p] evolves_pumped [OF p] .
  have "wp (case r of None \<Rightarrow> update_events c | Some why \<Rightarrow> disconnect c why)
      (\<lambda>_ s'. srv_inv X {} {} s' \<and> evolves s s') no_exn (pumped c as t w s)"
  proof (cases r)
    case None
    show ?thesis
      unfolding None option.case
      by (rule wp_mono [OF update_events_ok [OF u(1)]]) (auto intro: evolves_trans [OF u(2)])
  next
    case (Some why)
    show ?thesis
      unfolding Some option.case
      by (rule wp_mono [OF disconnect_ok [OF u(1) still_ready [OF assms(2) u(2)]]])
        (auto intro: evolves_trans [OF u(2)])
  qed
  then show ?thesis
    by (simp add: flush_with_def wp_simps p pumped_def)
qed

lemma send_ok:
  assumes "srv_inv X {} {} s" and "ready s"
  shows "wp (send_with disconnect c data) (\<lambda>_ s'. srv_inv X {} {} s' \<and> evolves s s') no_exn s"
proof -
  have Y: "srv_inv X {} {c} s"
    using assms(1) by (rule srv_inv_mono) auto
  have "wp (disconnect c BacklogExceeded)
      (\<lambda>_ s'. srv_inv X {} {} s' \<and> evolves s s') no_exn (count_backlog_drop s)"
    by (rule wp_mono [OF disconnect_ok])
      (use Y still_ready [OF assms(2)] in \<open>auto intro: evolves_trans [OF evolves_other_fields(6)]\<close>)
  moreover have "wp (flush_with disconnect c)
      (\<lambda>_ s'. srv_inv X {} {} s' \<and> evolves s s') no_exn (queued c data s)"
    if "\<not> MAX_TX_BACKLOG < length (tx (client_in s c)) + length data"
  proof (rule wp_mono [OF flush_ok])
    have "srv_inv X {} (insert c {}) (set_client c (\<lambda>x. x\<lparr>tx := tx (client_in s c) @ data\<rparr>) s)"
      by (rule srv_inv_set_tx [OF assms(1)]) (use that in simp)
    then show "srv_inv X {} {c} (queued c data s)"
      by (simp add: queued_def set_client_def)
    show "ready (queued c data s)"
      by (rule still_ready [OF assms(2) evolves_queued])
  qed (auto intro: evolves_trans [OF evolves_queued])
  ultimately show ?thesis
    using assms(1) by (simp add: send_with_def wp_simps queued_def)
qed

lemma as_sender: "sender (send_with disconnect) ready"
proof (rule sender.intro)
  show "ready s \<Longrightarrow> evolves s s' \<Longrightarrow> ready s'" for s s'
    by (rule still_ready)
  show "srv_inv X {} {} s \<Longrightarrow> ready s \<Longrightarrow> wp (send_with disconnect c d)
      (\<lambda>_ s'. srv_inv X {} {} s' \<and> evolves s s') no_exn s" for X s c d
    by (rule send_ok)
qed

end

sublocale dropper \<subseteq> sender "send_with disconnect" ready
  by (rule as_sender)

text \<open>With a budget of \<open>n\<close>, fewer than \<open>n\<close> connected clients can be handled.\<close>

lemma drop_upto_dropper: "dropper (drop_upto n) (\<lambda>s. length (clients s) < n)"
proof (induction n)
  case 0
  show ?case
    by (rule dropper.intro) auto
next
  case (Suc n)
  show ?case
  proof (rule dropper.intro)
    show "length (clients s) < Suc n \<Longrightarrow> evolves s s' \<Longrightarrow> length (clients s') < Suc n" for s s'
      using evolves_clients by fastforce
    show "wp (drop_upto (Suc n) c why)
        (\<lambda>_ s'. srv_inv X {} {} s' \<and> evolves s s' \<and> dead (client_in s' c)) no_exn s"
      if "srv_inv X {} {c} s" and "length (clients s) < Suc n" for X c s why
      unfolding drop_upto.simps
      by (rule wp_mono [OF sender.drop_body_ok [OF dropper.as_sender [OF Suc] that(1)]])
        (use that in \<open>auto simp: gone_def\<close>)
  qed
qed

text \<open>The plumbing itself: its budget always suffices.\<close>

interpretation srv_drop: dropper drop_client "\<lambda>_. True"
proof (rule dropper.intro)
  fix X c s why
  assume "srv_inv X {} {c} s"
  then show "wp (drop_client c why)
      (\<lambda>_ s'. srv_inv X {} {} s' \<and> evolves s s' \<and> dead (client_in s' c)) no_exn s"
    unfolding drop_client_def wp_reading
    by (rule dropper.disconnect_ok [OF drop_upto_dropper]) simp
qed simp

interpretation srv_send: sender send "\<lambda>_. True"
  unfolding send_def by (rule srv_drop.as_sender)

lemma drop_client_gone:
  assumes "srv_inv X {} {c} s"
  shows "wp (drop_client c why) (\<lambda>_ s'. srv_inv X {} {} s' \<and> evolves s s' \<and> gone s c s') no_exn s"
  unfolding drop_client_def wp_reading drop_upto.simps
  by (rule sender.drop_body_ok [OF dropper.as_sender [OF drop_upto_dropper] assms]) simp

lemmas drop_client_ok = srv_drop.disconnect_ok [OF _ TrueI]
lemmas flush_keeps = srv_drop.flush_ok [OF _ TrueI, folded flush_def]
lemmas send_keeps = srv_drop.emit_keeps [OF _ TrueI, folded send_def]
lemmas send_step = srv_drop.emit_step [OF _ TrueI, folded send_def]
lemmas send_frame_step = srv_drop.emit_frame_step [OF _ TrueI, folded send_def]
lemmas room_broadcast_keeps =
  srv_drop.room_broadcast_ok [OF _ TrueI, folded send_def, folded room_broadcast_def]
lemmas dissolve_keeps = srv_drop.dissolve_ok [OF _ TrueI, folded send_def, folded dissolve_def]

end
