(* ===== verification/Matchmaking.thy ===== *)
theory Matchmaking
  imports Transport_Correct
begin

text \<open>
  The protocol of \<open>Server\<close>: \<open>on_hello\<close>, \<open>on_list\<close>, \<open>on_join\<close>, \<open>on_go\<close>, \<open>start_room\<close>,
  the relay branch of \<open>handle\<close>, the CRC comparator \<open>log_crc\<close>, and \<open>handle\<close> itself.
\<close>

subsection \<open>The lobby list\<close>

definition status_byte :: "Server \<Rightarrow> cid \<Rightarrow> int" where
  "status_byte s c =
     (case room (client_in s c) of
        None \<Rightarrow> 1
      | Some r \<Rightarrow>
          (let n = length (members (room_in s r));
               busy = (if started (room_in s r) \<or> MAX_SEATS \<le> n then 0x80 else 0)
           in busy OR int n))"

primrec lobby_entries :: "Server \<Rightarrow> cid list \<Rightarrow> pyexn + bytes" where
  "lobby_entries s [] = Inr []"
| "lobby_entries s (c # cs) =
     (case pad_opt (name (client_in s c)) of Inl e \<Rightarrow> Inl e
      | Inr nb \<Rightarrow> (case py_bytes [status_byte s c] of Inl e \<Rightarrow> Inl e
      | Inr sb \<Rightarrow> (case lobby_entries s cs of Inl e \<Rightarrow> Inl e
      | Inr bs \<Rightarrow> Inr (nb @ sb @ bs))))"

definition listed_for :: "Server \<Rightarrow> cid \<Rightarrow> cid list" where
  "listed_for s c = take 8
     [d. (n, d) \<leftarrow> by_name s, d \<noteq> c, name (client_in s d) \<noteq> None, name (client_in s d) \<noteq> Some []]"

definition on_list :: "cid \<Rightarrow> unit srv" where
  "on_list c = reading (\<lambda>s.
     let others = listed_for s c in
     bind (attempt Py (py_bytes [int (length others)])) (\<lambda>count.
     bind (attempt Py (lobby_entries s others)) (\<lambda>entries.
     bind (attempt Py (frame T_LOBBY (count @ entries))) (\<lambda>f. send c f))))"

subsection \<open>Identification\<close>

definition set_name :: "cid \<Rightarrow> pystr \<Rightarrow> Server \<Rightarrow> Server" where
  "set_name c n s = (set_client c (\<lambda>x. x\<lparr>name := Some n\<rparr>) s)\<lparr>by_name := AList.update n c (by_name s)\<rparr>"

definition evict_holder :: "cid \<Rightarrow> pystr \<Rightarrow> unit srv" where
  "evict_holder c n = reading (\<lambda>s.
     case map_of (by_name s) n of
       None \<Rightarrow> return ()
     | Some old \<Rightarrow> only_if (old \<noteq> c) (drop_client old Replaced))"

definition drop_old_alias :: "cid \<Rightarrow> pystr \<Rightarrow> unit srv" where
  "drop_old_alias c n = reading (\<lambda>s.
     case name (client_in s c) of
       None \<Rightarrow> return ()
     | Some was \<Rightarrow> only_if (was \<noteq> n) (block [
         only_if (map_of (by_name s) was = Some c)
           (modify (\<lambda>s. s\<lparr>by_name := AList.delete was (by_name s)\<rparr>)),
         log_line (\<lambda>s. LogRename (repr_Client (client_in s c)) n)]))"

definition on_hello :: "cid \<Rightarrow> bytes \<Rightarrow> unit srv" where
  "on_hello c payload =
     (if length payload < 3 then raise (ProtocolError ShortHello)
      else if payload ! 0 \<noteq> PROTO_VER then raise (ProtocolError (BadVersion (payload ! 0)))
      else let n = wire_name (drop 1 payload) in
        if \<not> valid_name n then raise (ProtocolError (BadName n))
        else block [
          evict_holder c n,
          drop_old_alias c n,
          modify (set_name c n),
          log_line (\<lambda>s. LogHello (repr_Client (client_in s c))),
          lobby_update,
          on_list c])"

subsection \<open>Rooms and matches\<close>

text \<open>\<open>random.randrange(lo, hi)\<close>: some value of the range, chosen by the environment.\<close>

definition randrange :: "nat \<Rightarrow> nat \<Rightarrow> nat srv" where
  "randrange lo hi = reading (\<lambda>s.
     case entropy s of
       [] \<Rightarrow> return lo
     | x # xs \<Rightarrow> bind (modify (\<lambda>s. s\<lparr>entropy := xs\<rparr>)) (\<lambda>_. return (lo + x mod (hi - lo))))"

definition announce_start :: "rid \<Rightarrow> unit srv" where
  "announce_start r = reading (\<lambda>s.
     bind (attempt Py (py_bytes [int (length (members (room_in s r))), int (seed (room_in s r) AND 0xFF),
       int (drop_bit 8 (seed (room_in s r))), delay s])) (\<lambda>hdr.
     bind (attempt Py (roster s r)) (\<lambda>names.
       for_live Stuck (\<lambda>s. members (room_in s r)) (\<lambda>seat m.
         bind (attempt Py (py_bytes [int seat])) (\<lambda>sb.
         bind (attempt Py (frame T_START (sb @ hdr @ names))) (\<lambda>f. send m f))))))"

definition start_room :: "rid \<Rightarrow> unit srv" where
  "start_room r = block [
     upd_room r (\<lambda>x. x\<lparr>started := True\<rparr>),
     bind (randrange 1 0x10000) (\<lambda>v. upd_room r (\<lambda>x. x\<lparr>seed := v\<rparr>)),
     upd_room r (\<lambda>x. x\<lparr>crc := [], crc_ok := 0\<rparr>),
     announce_start r,
     log_line (\<lambda>s. LogMatch (room_repr s r) (length (members (room_in s r))) (seed (room_in s r))),
     lobby_update]"

definition on_go :: "cid \<Rightarrow> unit srv" where
  "on_go c = reading (\<lambda>s.
     case room (client_in s c) of
       None \<Rightarrow> return ()
     | Some r \<Rightarrow>
         if started (room_in s r) then return ()
         else bind (attempt Py (seat_in s r c)) (\<lambda>seat.
           if seat \<noteq> 0 then return ()
           else if \<not> (2 \<le> length (members (room_in s r)) \<and> length (members (room_in s r)) \<le> MAX_SEATS)
           then return ()
           else start_room r))"

definition open_room :: "cid \<Rightarrow> rid srv" where
  "open_room host = reading (\<lambda>s.
     case room (client_in s host) of
       Some r \<Rightarrow> return r
     | None \<Rightarrow> bind (modify (\<lambda>s. set_client host (\<lambda>x. x\<lparr>room := Some (next_room s)\<rparr>)
           (s\<lparr>obj_room := (obj_room s)(next_room s := new_Room host), next_room := next_room s + 1\<rparr>)))
         (\<lambda>_. return (next_room s)))"

definition joinable :: "Server \<Rightarrow> cid \<Rightarrow> cid \<Rightarrow> bool" where
  "joinable s c target \<longleftrightarrow> target \<noteq> c \<and> name (client_in s target) \<noteq> None \<and>
     (case room (client_in s target) of None \<Rightarrow> True
      | Some r \<Rightarrow> \<not> started (room_in s r) \<and> length (members (room_in s r)) < MAX_SEATS)"

definition enter_room :: "cid \<Rightarrow> rid \<Rightarrow> unit srv" where
  "enter_room c r = block [
     upd_room r (\<lambda>x. x\<lparr>members := members x @ [c]\<rparr>),
     upd_client c (\<lambda>x. x\<lparr>room := Some r\<rparr>),
     log_line (\<lambda>s. LogJoin (repr_Client (client_in s c)) (room_repr s r)),
     room_broadcast r,
     lobby_update,
     reading (\<lambda>s. only_if (auto_go s \<noteq> 0 \<and> auto_go s \<le> int (length (members (room_in s r))))
       (start_room r))]"

definition on_join :: "cid \<Rightarrow> bytes \<Rightarrow> unit srv" where
  "on_join c payload = reading (\<lambda>s.
     if name (client_in s c) = None then raise (ProtocolError JoinBeforeHello)
     else if room (client_in s c) \<noteq> None then return ()
     else case map_of (by_name s) (wire_name payload) of
       None \<Rightarrow> on_list c
     | Some target \<Rightarrow>
         if joinable s c target then bind (open_room target) (\<lambda>r. enter_room c r)
         else on_list c)"

subsection \<open>The CRC comparator\<close>

text \<open>
  \<open>log_crc\<close> on the room: one report of \<open>seat\<close> for \<open>tick\<close>. \<open>entry\<close> is the tick's dict with
  the report stored; the table keeps at most 64 ticks, evicting the smallest; a complete
  round leaves the table and is compared.
\<close>

definition crc_report :: "nat \<Rightarrow> nat \<Rightarrow> nat \<Rightarrow> Room \<Rightarrow> Room \<times> log_record list" where
  "crc_report seat tick v rm =
     (let entry = AList.update seat v (case map_of (crc rm) tick of None \<Rightarrow> [] | Some e \<Rightarrow> e);
          table = AList.update tick entry (crc rm);
          table = (if 64 < length table then AList.delete (Min (set (map fst table))) table else table)
      in if length entry < length (members rm) then (rm\<lparr>crc := table\<rparr>, [])
         else let table = AList.delete tick table in
           if length (remdups (map snd entry)) \<noteq> 1
           then (rm\<lparr>crc := table\<rparr>, [LogCrcMismatch tick (sort_key fst entry)])
           else (rm\<lparr>crc := table, crc_ok := crc_ok rm + 1\<rparr>,
             if (crc_ok rm + 1) mod 4 = 0 then [LogCrcOk tick (crc_ok rm + 1)] else []))"

definition le16 :: "byte \<Rightarrow> byte \<Rightarrow> nat" where
  "le16 lo hi = unat lo OR push_bit 8 (unat hi)"

definition log_crc :: "cid \<Rightarrow> bytes \<Rightarrow> unit srv" where
  "log_crc c payload = reading (\<lambda>s.
     case room (client_in s c) of
       None \<Rightarrow> raise (Py AttributeError)
     | Some r \<Rightarrow>
         if length payload < 5 then raise (Py IndexError)
         else (case crc_report (unat (payload ! 0)) (le16 (payload ! 1) (payload ! 2))
             (le16 (payload ! 3) (payload ! 4)) (room_in s r) of
           (rm, records) \<Rightarrow> modify (\<lambda>s.
             (set_room r (\<lambda>_. rm) s)\<lparr>log_lines := log_lines s @ records\<rparr>)))"

subsection \<open>Dispatch\<close>

definition relay :: "cid \<Rightarrow> byte \<Rightarrow> bytes \<Rightarrow> unit srv" where
  "relay c ftype payload = reading (\<lambda>s.
     case room (client_in s c) of
       None \<Rightarrow> return ()
     | Some r \<Rightarrow>
         if \<not> started (room_in s r) then return ()
         else block [
           only_if (ftype = T_CRC \<and> length payload = 5) (log_crc c payload),
           bind (attempt Py (frame ftype payload)) (\<lambda>data.
             for_live Stuck (\<lambda>s. members (room_in s r)) (\<lambda>_ m.
               only_if (m \<noteq> c) (send m data)))])"

definition handle :: "cid \<Rightarrow> byte \<Rightarrow> bytes \<Rightarrow> unit srv" where
  "handle c ftype payload =
     (if ftype \<in> RELAY_TYPES then relay c ftype payload
      else if ftype = T_HELLO then on_hello c payload
      else if ftype = T_LIST then on_list c
      else if ftype = T_JOIN then on_join c payload
      else if ftype = T_GO then on_go c
      else if ftype = T_BYE then drop_client c Bye
      else if ftype = T_PING then bind (attempt Py (frame T_PONG [])) (\<lambda>f. send c f)
      else raise (ProtocolError (UnknownType ftype)))"

end
