(* ===== verification/Matchmaking_Correct.thy ===== *)
theory Matchmaking_Correct
  imports Matchmaking
begin

text \<open>
  Every protocol handler keeps the invariant of the server, and raises nothing but
  \<open>ProtocolError\<close> unless the configured delay is no byte (\<open>handle_ok\<close>).
\<close>

subsection \<open>What no handler changes\<close>

definition conns_kept :: "Server \<Rightarrow> Server \<Rightarrow> bool" where
  "conns_kept s s' \<longleftrightarrow>
     sublist_of (clients s') (clients s) \<and>
     (\<forall>c. sock_addr (client_in s' c) = sock_addr (client_in s c) \<and>
          rx (client_in s' c) = rx (client_in s c) \<and>
          connected_at (client_in s' c) = connected_at (client_in s c) \<and>
          (dead (client_in s c) \<longrightarrow> dead (client_in s' c))) \<and>
     next_client s' = next_client s \<and> delay s' = delay s \<and> auto_go s' = auto_go s \<and>
     lobby_enabled s' = lobby_enabled s"

lemma conns_kept_refl [simp, intro]: "conns_kept s s"
  by (simp add: conns_kept_def)

lemma conns_kept_trans [trans]: "conns_kept s t \<Longrightarrow> conns_kept t u \<Longrightarrow> conns_kept s u"
  by (auto simp: conns_kept_def intro: sublist_of_trans)

lemma conns_kept_evolves [intro]: "evolves s s' \<Longrightarrow> conns_kept s s'"
  by (simp add: conns_kept_def evolves_def client_evolves_def)

abbreviation quiet :: "Server \<Rightarrow> bool" where
  "quiet \<equiv> srv_inv {} {} {}"

abbreviation keeps_from :: "Server \<Rightarrow> 'a \<Rightarrow> Server \<Rightarrow> bool" where
  "keeps_from s \<equiv> \<lambda>_ s'. quiet s' \<and> conns_kept s s'"

text \<open>A step that only evolves the state, after a start that kept the connections.\<close>

lemma wp_evolve:
  assumes "wp m (\<lambda>_ s'. quiet s' \<and> evolves t s') no_exn t" and "conns_kept s t"
  shows "wp m (keeps_from s) E t"
  by (rule wp_mono [OF assms(1)]) (use assms(2) conns_kept_trans in blast)+

lemma wp_seq:
  assumes "wp m (keeps_from s) E t"
    and "\<And>u. quiet u \<Longrightarrow> conns_kept s u \<Longrightarrow> wp (block ms) Q E u"
  shows "wp (block (m # ms)) Q E t"
  unfolding wp_block_Cons by (rule wp_mono [OF assms(1)]) (use assms(2) in auto)

subsection \<open>The lobby list\<close>

lemma room_size:
  assumes "quiet s" and "room (client_in s c) = Some r"
  shows "length (members (room_in s r)) \<in> {2, 3, 4}"
proof -
  have "length (members (room_in s r)) \<noteq> 0"
    using srv_inv_room_iff [OF assms(1)] assms(2) by fastforce
  moreover have "length (members (room_in s r)) \<noteq> 1" "length (members (room_in s r)) \<le> 4"
    using srv_inv_members [OF assms(1)] by auto
  ultimately have "length (members (room_in s r)) = 2 \<or> length (members (room_in s r)) = 3 \<or>
      length (members (room_in s r)) = 4"
    by arith
  then show ?thesis by simp
qed

lemma status_byte_room:
  assumes "quiet s" and "room (client_in s c) = Some r"
  shows "status_byte s c =
    (if started (room_in s r) \<or> length (members (room_in s r)) = 4 then 128 else 0) +
      int (length (members (room_in s r)))"
  using room_size [OF assms] assms(2) by (auto simp: status_byte_def MAX_SEATS_def)

lemma status_joinable:
  assumes "quiet s" and "name (client_in s t) \<noteq> None" and "t \<noteq> c"
  shows "status_byte s t < 128 \<longleftrightarrow> joinable s c t"
proof (cases "room (client_in s t)")
  case (Some r)
  with assms room_size [OF assms(1) Some] show ?thesis
    by (auto simp: status_byte_room [OF assms(1) Some] joinable_def MAX_SEATS_def)
qed (use assms in \<open>simp add: status_byte_def joinable_def\<close>)

lemma status_byte_range:
  assumes "quiet s"
  shows "1 \<le> status_byte s c \<and> status_byte s c \<le> 132"
proof (cases "room (client_in s c)")
  case None
  then show ?thesis by (simp add: status_byte_def)
next
  case (Some r)
  show ?thesis
    using room_size [OF assms Some] unfolding status_byte_room [OF assms Some] by auto
qed

lemma lobby_entries_ok:
  assumes "quiet s" and "\<forall>d \<in> set ds. \<exists>n. name (client_in s d) = Some n"
  shows "\<exists>b. lobby_entries s ds = Inr b \<and> length b = 9 * length ds"
  using assms(2)
proof (induction ds)
  case (Cons d ds)
  then obtain n bs where n: "name (client_in s d) = Some n"
    and bs: "lobby_entries s ds = Inr bs" "length bs = 9 * length ds"
    by auto
  moreover obtain nb where "pad_opt (Some n) = Inr nb" "length nb = 8"
    using pad_opt_valid srv_inv_names(4) [OF assms(1) n] by blast
  ultimately show ?case
    using status_byte_range [OF assms(1), of d] by (simp add: py_bytes_def)
qed simp

lemma listed_named:
  "quiet s \<Longrightarrow> d \<in> set (listed_for s c) \<Longrightarrow> \<exists>n. name (client_in s d) = Some n"
  unfolding listed_for_def by (auto dest!: in_set_takeD)

lemma length_listed_for: "length (listed_for s c) \<le> 8"
  by (simp add: listed_for_def)

lemma on_list_ok:
  assumes "quiet s"
  shows "wp (on_list c) (\<lambda>_ s'. quiet s' \<and> evolves s s') no_exn s"
proof -
  obtain b where b: "lobby_entries s (listed_for s c) = Inr b" "length b \<le> 72"
    using lobby_entries_ok [OF assms, of "listed_for s c"] listed_named [OF assms]
      length_listed_for [of s c] by fastforce
  have count: "py_bytes [int (length (listed_for s c))] = Inr [of_nat (length (listed_for s c))]"
    using length_listed_for [of s c] by (simp add: py_bytes_def)
  have "wp (bind (attempt Py (frame T_LOBBY ([of_nat (length (listed_for s c))] @ b))) (send c))
      (\<lambda>_ s'. quiet s' \<and> evolves s s') no_exn s"
    by (rule send_frame_step) (use assms b in auto)
  then show ?thesis
    by (simp add: on_list_def wp_reading count b Let_def)
qed

subsection \<open>Identification\<close>

lemma evict_holder_ok:
  assumes "quiet s"
  shows "wp (evict_holder c n) (\<lambda>_ t. quiet t \<and> evolves s t \<and>
    (\<forall>d. (n, d) \<in> set (by_name t) \<longrightarrow> d = c \<or> dead (client_in t d))) no_exn s"
proof (cases "map_of (by_name s) n")
  case None
  then have "(n, d) \<notin> set (by_name s)" for d
    by (force simp: map_of_eq_None_iff image_iff)
  with None assms show ?thesis
    by (simp add: evict_holder_def wp_simps)
next
  case (Some old)
  have only: "(n, d) \<in> set (by_name s) \<Longrightarrow> d = old" for d
    using Some srv_inv_names(1) [OF assms] by (metis map_of_eq_Some_iff option.inject)
  have "wp (drop_client old Replaced) (\<lambda>_ t. quiet t \<and> evolves s t \<and>
      (\<forall>d. (n, d) \<in> set (by_name t) \<longrightarrow> d = c \<or> dead (client_in t d))) no_exn s"
    by (rule wp_mono [OF drop_client_ok])
      (use srv_inv_mono [OF assms] only evolves_by_name_subset in blast)+
  with Some only assms show ?thesis
    by (auto simp: evict_holder_def wp_simps)
qed

lemma srv_inv_set_name:
  assumes "quiet t" and "c < next_client t" and "valid_name n"
    and taken: "\<forall>d. (n, d) \<in> set (by_name t) \<longrightarrow> d = c \<or> dead (client_in t d)"
    and bn: "distinct (map fst bn)" "set bn \<subseteq> set (by_name t)"
      "\<And>m d. (m, d) \<in> set (by_name t) \<Longrightarrow> d \<noteq> c \<Longrightarrow> (m, d) \<in> set bn"
      "\<And>m. (m, c) \<in> set bn \<Longrightarrow> m = n"
  shows "quiet (set_name c n (t\<lparr>by_name := bn, log_lines := l\<rparr>))"
proof -
  let ?v = "set_name c n (t\<lparr>by_name := bn, log_lines := l\<rparr>)"
  have "clients_ok ?v = clients_ok t" "rooms_ok {} {} ?v = rooms_ok {} {} t"
    by (rule clients_ok_cong rooms_ok_cong, simp_all add: set_name_def)+
  moreover have "events_ok {} ?v"
    using assms(1) by (auto simp: srv_inv_def events_ok_def set_name_def)
  moreover have "fresh_ok ?v"
    using assms(1,2) by (auto simp: srv_inv_def fresh_ok_def set_name_def)
  moreover have "names_ok ?v"
  proof -
    have set: "set (by_name ?v) = insert (n, c) {p \<in> set bn. fst p \<noteq> n}"
      by (simp add: set_name_def set_AList_update [OF bn(1)])
    have nm: "name (client_in ?v d) = (if d = c then Some n else name (client_in t d))"
      "room (client_in ?v d) = room (client_in t d)" "clients ?v = clients t" for d
      by (simp_all add: set_name_def)
    have "distinct (map fst (by_name ?v))"
      by (simp add: set_name_def AList.distinct_update bn(1))
    moreover have "name (client_in ?v d) = Some m" if "(m, d) \<in> set (by_name ?v)" for m d
      using that bn(2,4) srv_inv_names(2) [OF assms(1)] unfolding set nm by auto
    moreover have "(m, d) \<in> set (by_name ?v)"
      if "d \<in> set (clients t)" "name (client_in ?v d) = Some m" for m d
    proof (cases "d = c")
      case False
      then have d: "(m, d) \<in> set (by_name t)" "\<not> dead (client_in t d)"
        using that srv_inv_names(3) [OF assms(1)] srv_inv_clients(2) [OF assms(1)]
        unfolding nm by auto
      then have "m \<noteq> n"
        using taken False by blast
      with d False bn(3) show ?thesis unfolding set by auto
    next
      case True
      with that have "m = n"
        by (simp add: nm)
      with True show ?thesis unfolding set by simp
    qed
    moreover have "valid_name m" if "name (client_in ?v d) = Some m" for m d
      using that assms(3) srv_inv_names(4) [OF assms(1), of d] unfolding nm by (auto split: if_splits)
    moreover have "room (client_in ?v d) \<noteq> None \<Longrightarrow> name (client_in ?v d) \<noteq> None" for d
      using srv_inv_names(5) [OF assms(1), of d] unfolding nm by auto
    ultimately show ?thesis
      unfolding names_ok_def nm(3) by blast
  qed
  ultimately show ?thesis
    using assms(1) by (simp add: srv_inv_def)
qed

lemma drop_old_alias_ok:
  assumes "quiet t" and "c < next_client t" and "valid_name n"
    and taken: "\<forall>d. (n, d) \<in> set (by_name t) \<longrightarrow> d = c \<or> dead (client_in t d)"
  shows "wp (drop_old_alias c n) (\<lambda>_ u. quiet (set_name c n u) \<and> conns_kept t (set_name c n u)) no_exn t"
proof -
  note names = srv_inv_names [OF assms(1)]
  have kept: "conns_kept t (set_name c n (t\<lparr>by_name := bn, log_lines := l\<rparr>))" for bn l
    by (simp add: conns_kept_def set_name_def)
  have same: "t\<lparr>by_name := by_name t, log_lines := log_lines t\<rparr> = t" for t :: Server
    by simp
  have keep: "quiet (set_name c n (t\<lparr>by_name := by_name t, log_lines := l\<rparr>))"
    if "\<And>m. (m, c) \<in> set (by_name t) \<Longrightarrow> m = n" for l
    by (rule srv_inv_set_name [OF assms names(1)]) (use that in auto)
  show ?thesis
  proof (cases "name (client_in t c)")
    case None
    then have "m = n" if "(m, c) \<in> set (by_name t)" for m
      using names(2) that by fastforce
    with keep [of "log_lines t"] kept [of "log_lines t" "by_name t"] None show ?thesis
      by (simp add: drop_old_alias_def wp_simps)
  next
    case (Some was)
    have key: "m = was" if "(m, c) \<in> set (by_name t)" for m
      using names(2) that Some by fastforce
    show ?thesis
    proof (cases "was = n \<or> map_of (by_name t) was \<noteq> Some c")
      case True
      then have "m = n" if "(m, c) \<in> set (by_name t)" for m
        using key that names(1) by auto
      with keep kept [where bn = "by_name t"] keep [of "log_lines t"] kept [of "log_lines t" "by_name t"]
        Some True show ?thesis
        by (auto simp: drop_old_alias_def wp_simps)
    next
      case False
      let ?bn = "AList.delete was (by_name t)"
      have "quiet (set_name c n (t\<lparr>by_name := ?bn, log_lines := l\<rparr>))" for l
      proof (rule srv_inv_set_name [OF assms])
        show "distinct (map fst ?bn)"
          unfolding AList_delete_filter using names(1) by (rule distinct_fst_filter)
        show "(m, d) \<in> set ?bn" if "(m, d) \<in> set (by_name t)" "d \<noteq> c" for m d
          using that False names(1) by (auto simp: AList_delete_filter dest: eq_key_imp_eq_value)
        show "m = n" if "(m, c) \<in> set ?bn" for m
          using that key by (auto simp: AList_delete_filter)
      qed (auto simp: AList_delete_filter)
      with False Some kept show ?thesis
        by (simp add: drop_old_alias_def wp_simps)
    qed
  qed
qed

lemma quiet_log [simp]: "conns_kept s (t\<lparr>log_lines := l\<rparr>) = conns_kept s t"
  "conns_kept s (t\<lparr>lobby_calls := lc\<rparr>) = conns_kept s t"
  by (simp_all add: conns_kept_def)

definition hello_valid :: "bytes \<Rightarrow> bool" where
  "hello_valid payload \<longleftrightarrow> 3 \<le> length payload \<and> payload ! 0 = PROTO_VER \<and>
     valid_name (wire_name (drop 1 payload))"

lemma on_hello_invalid:
  "\<not> hello_valid payload \<Longrightarrow> \<exists>pe. on_hello c payload s = (Inl (ProtocolError pe), s)"
  by (auto simp: on_hello_def hello_valid_def raise_def Let_def)

lemma on_hello_valid:
  assumes "quiet s" and "c < next_client s" and "hello_valid payload"
  shows "wp (on_hello c payload) (\<lambda>_ s'. quiet s' \<and> conns_kept s s' \<and>
    name (client_in s' c) = Some (wire_name (drop 1 payload))) no_exn s"
proof -
  define n where "n = wire_name (drop 1 payload)"
  let ?Q = "\<lambda>_ s'. quiet s' \<and> conns_kept s s' \<and> name (client_in s' c) = Some n"
  let ?rest = "[modify (set_name c n), log_line (\<lambda>s. LogHello (repr_Client (client_in s c))),
    lobby_update, on_list c]"
  have v: "valid_name n"
    using assms(3) by (simp add: hello_valid_def n_def)
  have last: "wp (on_list c) ?Q no_exn u"
    if u: "quiet u" "conns_kept s u" "name (client_in u c) = Some n" for u
    by (rule wp_mono [OF on_list_ok [OF u(1)]])
      (use u conns_kept_trans evolves_name in \<open>auto simp: evolves_name\<close>)
  have "wp (drop_old_alias c n) (\<lambda>_. wp (block ?rest) ?Q no_exn) no_exn t"
    if t: "quiet t" "evolves s t"
      "\<forall>d. (n, d) \<in> set (by_name t) \<longrightarrow> d = c \<or> dead (client_in t d)" for t
  proof (rule wp_mono [OF drop_old_alias_ok [OF t(1) _ v t(3)]])
    show "c < next_client t"
      using assms(2) t(2) by (simp add: evolves_def)
    fix x :: unit and u
    assume u: "quiet (set_name c n u) \<and> conns_kept t (set_name c n u)"
    then have "conns_kept s (set_name c n u)" "name (client_in (set_name c n u) c) = Some n"
      using conns_kept_trans [OF conns_kept_evolves [OF t(2)]] by (auto simp: set_name_def)
    with u show "wp (block ?rest) ?Q no_exn u"
      by (auto simp: wp_simps intro!: last)
  qed simp
  then have "wp (block (evict_holder c n # drop_old_alias c n # ?rest)) ?Q no_exn s"
    unfolding wp_block_Cons [of "evict_holder c n"] wp_block_Cons [of "drop_old_alias c n"]
    by (intro wp_mono [OF evict_holder_ok [OF assms(1)]]) blast+
  then show ?thesis
    using assms(3) by (simp add: on_hello_def hello_valid_def n_def Let_def)
qed

lemma on_hello_ok:
  assumes "quiet s" and "c < next_client s"
  shows "wp (on_hello c payload) (keeps_from s)
    (\<lambda>e s'. (\<exists>pe. e = ProtocolError pe) \<and> s' = s) s"
proof (cases "hello_valid payload")
  case True
  show ?thesis
    by (rule wp_mono [OF on_hello_valid [OF assms True]]) auto
next
  case False
  with on_hello_invalid [of payload c s] show ?thesis
    by (auto simp: wp_def)
qed

subsection \<open>Rooms and matches\<close>

text \<open>The exception that leaves a handler when the configured delay is no byte.\<close>

definition bad_delay :: "Server \<Rightarrow> exn \<Rightarrow> Server \<Rightarrow> bool" where
  "bad_delay s e s' \<longleftrightarrow> e = Py ValueError \<and> \<not> (0 \<le> delay s \<and> delay s < 256) \<and>
     quiet s' \<and> conns_kept s s'"

lemma bad_delay_trans:
  "conns_kept s u \<Longrightarrow> bad_delay u e s' \<Longrightarrow> bad_delay s e s'"
  using conns_kept_trans [of s u s'] by (simp add: bad_delay_def) (simp add: conns_kept_def)

lemma quiet_room_data:
  assumes "quiet s" and "\<And>x. members (f x) = members x"
  shows "quiet (set_room r f s)"
proof -
  have "rooms_ok {} {} (set_room r f s) = rooms_ok {} {} s" "fresh_ok (set_room r f s) = fresh_ok s"
    by (rule rooms_ok_cong fresh_ok_cong; simp add: assms(2))+
  with assms(1) show ?thesis by (simp add: srv_inv_def)
qed

lemma conns_kept_set_room [simp]: "conns_kept s (set_room r f t) = conns_kept s t"
  by (simp add: conns_kept_def)

lemma conns_kept_entropy [simp]: "conns_kept s (t\<lparr>entropy := e\<rparr>) = conns_kept s t"
  by (simp add: conns_kept_def)

lemma nat_and_255: "(x::nat) AND 0xFF = x mod 256"
  using take_bit_eq_mask [of 8 x] by (simp add: mask_eq_exp_minus_1 take_bit_eq_mod)

lemma start_header:
  assumes "n \<le> 4" and "x < 0x10000" and "0 \<le> d" and "d < 256"
  shows "py_bytes [int n, int (x AND 0xFF), int (drop_bit 8 x), d] =
    Inr (map of_int [int n, int (x AND 0xFF), int (drop_bit 8 x), d])"
proof -
  have "x AND 0xFF < 256" "drop_bit 8 x < 256"
    using assms(2) by (simp_all add: nat_and_255 drop_bit_eq_div)
  with assms show ?thesis by (simp add: py_bytes_def)
qed

lemma announce_start_ok:
  assumes "quiet s" and "seed (room_in s r) < 0x10000"
  shows "wp (announce_start r) (\<lambda>_ s'. quiet s' \<and> evolves s s')
    (\<lambda>e s'. e = Py ValueError \<and> \<not> (0 \<le> delay s \<and> delay s < 256) \<and> s' = s) s"
proof -
  let ?ms = "members (room_in s r)"
  let ?hdr = "[int (length ?ms), int (seed (room_in s r) AND 0xFF), int (drop_bit 8 (seed (room_in s r))), delay s]"
  obtain b where b: "roster s r = Inr b" "length b = 32"
    using roster_ok [OF assms(1), of r] by blast
  have len: "length ?ms \<le> 4"
    by (rule srv_inv_members [OF assms(1)])
  show ?thesis
  proof (cases "0 \<le> delay s \<and> delay s < 256")
    case False
    then have "py_bytes ?hdr = Inl ValueError"
      by (auto simp: py_bytes_def)
    with False show ?thesis
      by (simp add: announce_start_def wp_reading wp_raise)
  next
    case True
    then have hdr: "py_bytes ?hdr = Inr (map of_int ?hdr)"
      by (intro start_header [OF len assms(2)]) simp_all
    let ?f = "\<lambda>seat m. bind (attempt Py (py_bytes [int seat])) (\<lambda>sb.
         bind (attempt Py (frame T_START (sb @ map of_int ?hdr @ b))) (\<lambda>f. send m f))"
    have "wp (for_live Stuck (\<lambda>s. members (room_in s r)) ?f) (\<lambda>_ s'. quiet s' \<and> evolves s s') no_exn s"
    proof (rule wp_for_live)
      show "quiet s \<and> evolves s s"
        using assms by simp
      fix i t
      assume t: "quiet t \<and> evolves s t" and i: "i < length (members (room_in t r))"
      have "length (members (room_in t r)) \<le> 4"
        using t srv_inv_members(2) by blast
      with i have sb: "py_bytes [int i] = Inr [of_nat i]"
        by (simp add: py_bytes_def)
      have "wp (?f i (members (room_in t r) ! i)) (\<lambda>_ s'. quiet s' \<and> evolves t s') no_exn t"
        unfolding sb bind_attempt by (rule send_frame_step) (use t b in auto)
      then show "wp (?f i (members (room_in t r) ! i)) (\<lambda>_ s'. (quiet s' \<and> evolves s s') \<and>
          length (members (room_in s' r)) \<le> length (members (room_in t r))) no_exn t"
        by (rule wp_mono) (use t evolves_trans evolves_members in auto)
    qed
    then show ?thesis
      unfolding announce_start_def wp_reading hdr b(1) bind_attempt
      by (rule wp_mono) auto
  qed
qed

definition seeded :: "rid \<Rightarrow> nat \<Rightarrow> Server \<Rightarrow> Server" where
  "seeded r v s = set_room r (\<lambda>x. x\<lparr>started := True, seed := v, crc := [], crc_ok := 0\<rparr>) s"

lemma wp_randrange:
  assumes "\<And>v e. lo \<le> v \<Longrightarrow> v < hi \<Longrightarrow> Q v (s\<lparr>entropy := e\<rparr>)" and "lo < hi"
  shows "wp (randrange lo hi) Q E s"
proof (cases "entropy s")
  case Nil
  have "Q lo s"
    using assms(1) [of lo "entropy s"] assms(2) by simp
  with Nil show ?thesis
    by (simp add: randrange_def wp_simps)
next
  case (Cons x xs)
  have "lo + x mod (hi - lo) < hi"
    using assms(2) mod_less_divisor [of "hi - lo" x] by linarith
  with Cons show ?thesis
    using assms(1) [of "lo + x mod (hi - lo)" xs] by (simp add: randrange_def wp_simps)
qed

lemma start_room_ok:
  assumes "quiet s"
  shows "wp (start_room r) (keeps_from s) (bad_delay s) s"
proof -
  have rest: "wp (block [announce_start r,
      log_line (\<lambda>s. LogMatch (room_repr s r) (length (members (room_in s r))) (seed (room_in s r))),
      lobby_update]) (keeps_from s) (bad_delay s) u"
    if u: "quiet u" "conns_kept s u" "seed (room_in u r) < 0x10000" for u
  proof -
    have "delay u = delay s"
      using u(2) by (simp add: conns_kept_def)
    with u show ?thesis
      unfolding wp_block_Cons [of "announce_start r"]
      by (intro wp_mono [OF announce_start_ok [OF u(1,3)]])
        (auto simp: wp_simps bad_delay_def intro: conns_kept_trans)
  qed
  have "quiet (set_room r (\<lambda>x. x\<lparr>crc := [], crc_ok := 0\<rparr>) (set_room r (\<lambda>x. x\<lparr>seed := v\<rparr>)
      ((set_room r (\<lambda>x. x\<lparr>started := True\<rparr>) s)\<lparr>entropy := e\<rparr>)))" for v e
    by (intro quiet_room_data) (simp_all add: assms quiet_room_data)
  then show ?thesis
    unfolding start_room_def wp_block_Cons wp_modify wp_bind
    by (intro wp_randrange) (auto intro!: rest [unfolded wp_block_Cons])
qed

lemma on_go_ok:
  assumes "quiet s"
  shows "wp (on_go c) (keeps_from s) (bad_delay s) s"
proof (cases "room (client_in s c)")
  case None
  then show ?thesis using assms by (simp add: on_go_def wp_simps)
next
  case (Some r)
  then have "c \<in> set (members (room_in s r))"
    using srv_inv_room_iff [OF assms] by blast
  then obtain seat where "py_index (members (room_in s r)) c = Some seat"
    using py_index_None by fastforce
  with Some start_room_ok [OF assms, of r] assms show ?thesis
    by (simp add: on_go_def wp_simps seat_in_def)
qed

definition seated :: "rid \<Rightarrow> cid \<Rightarrow> Server \<Rightarrow> Server" where
  "seated r c s = set_client c (\<lambda>x. x\<lparr>room := Some r\<rparr>)
     (set_room r (\<lambda>x. x\<lparr>members := members x @ [c]\<rparr>) s)"

lemma seated_fields [simp]:
  "clients (seated r c s) = clients s" "by_name (seated r c s) = by_name s"
  "sel_write (seated r c s) = sel_write s" "next_client (seated r c s) = next_client s"
  "next_room (seated r c s) = next_room s"
  "name (client_in (seated r c s) d) = name (client_in s d)"
  "tx (client_in (seated r c s) d) = tx (client_in s d)"
  "dead (client_in (seated r c s) d) = dead (client_in s d)"
  "room (client_in (seated r c s) d) = (if d = c then Some r else room (client_in s d))"
  "members (room_in (seated r c s) q) =
     (if q = r then members (room_in s r) @ [c] else members (room_in s q))"
  by (simp_all add: seated_def)

lemma quiet_seated:
  assumes "srv_inv {} {r} {} s" and "room (client_in s c) = None" and "name (client_in s c) \<noteq> None"
    and "members (room_in s r) \<noteq> []" and "length (members (room_in s r)) < 4"
  shows "quiet (seated r c s)"
proof -
  note iff = srv_inv_room_iff [OF assms(1)] and mem = srv_inv_members [OF assms(1)]
  have c: "c \<notin> set (members (room_in s q))" for q
    using iff [of c q] assms(2) by simp
  have "rooms_ok {} {} (seated r c s)"
  proof (rule rooms_okI)
    fix d q
    show "room (client_in (seated r c s) d) = Some q \<longleftrightarrow>
        q \<notin> {} \<and> d \<in> set (members (room_in (seated r c s) q))"
      using iff [of d q] c by auto
  next
    fix q
    show "distinct (members (room_in (seated r c s) q))"
      using mem(1) [of q] mem(1) [of r] c by simp
    show "length (members (room_in (seated r c s) q)) \<le> 4"
      using mem(2) [of q] assms(5) by simp
    show "length (members (room_in (seated r c s) q)) \<noteq> 1" if "q \<notin> {} \<union> {}"
      using mem(3) [of q] assms(4) by auto
  qed
  moreover have "fresh_ok (seated r c s)"
    using assms(1,4) by (auto simp: srv_inv_def fresh_ok_def)
  moreover have "clients_ok (seated r c s)" "events_ok {} (seated r c s)"
    using assms(1) by (auto simp: srv_inv_def clients_ok_def events_ok_def)
  moreover have "names_ok (seated r c s)"
    unfolding names_ok_def seated_fields using srv_inv_names [OF assms(1)] assms(3) by auto
  ultimately show ?thesis
    by (simp add: srv_inv_def)
qed

lemma enter_room_ok:
  assumes "srv_inv {} {r} {} s" and "room (client_in s c) = None" and "name (client_in s c) \<noteq> None"
    and "members (room_in s r) \<noteq> []" and "length (members (room_in s r)) < 4"
  shows "wp (enter_room c r) (keeps_from s) (bad_delay s) s"
proof -
  have kept: "conns_kept s (seated r c s)"
    by (simp add: conns_kept_def seated_def)
  have start: "wp (start_room r) (keeps_from s) (bad_delay s) u" if u: "quiet u" "conns_kept s u" for u
    by (rule wp_mono [OF start_room_ok [OF u(1)]])
      (use u(2) conns_kept_trans bad_delay_trans in blast)+
  let ?tail = "[lobby_update, reading (\<lambda>s. only_if (auto_go s \<noteq> 0 \<and>
      auto_go s \<le> int (length (members (room_in s r)))) (start_room r))]"
  have "wp (block (room_broadcast r # ?tail)) (keeps_from s) (bad_delay s) u"
    if u: "quiet u" "conns_kept s u" for u
    unfolding wp_block_Cons [of "room_broadcast r"]
  proof (rule wp_mono [OF room_broadcast_keeps [OF u(1)]])
    fix x :: unit and t
    assume t: "quiet t \<and> evolves u t"
    then have "conns_kept s t"
      using u(2) conns_kept_trans by blast
    with t show "wp (block ?tail) (keeps_from s) (bad_delay s) t"
      by (auto simp: wp_simps intro!: start)
  qed simp_all
  then have "wp (block (room_broadcast r # ?tail)) (keeps_from s) (bad_delay s)
      ((seated r c s)\<lparr>log_lines := l\<rparr>)" for l
    using quiet_seated [OF assms] kept by simp
  then show ?thesis
    unfolding enter_room_def wp_block_Cons wp_modify wp_log_line by (simp flip: seated_def)
qed

definition opened :: "cid \<Rightarrow> Server \<Rightarrow> Server" where
  "opened host s = set_client host (\<lambda>x. x\<lparr>room := Some (next_room s)\<rparr>)
     (s\<lparr>obj_room := (obj_room s)(next_room s := new_Room host), next_room := next_room s + 1\<rparr>)"

lemma opened_fields [simp]:
  "clients (opened h s) = clients s" "by_name (opened h s) = by_name s"
  "sel_write (opened h s) = sel_write s" "next_client (opened h s) = next_client s"
  "next_room (opened h s) = Suc (next_room s)"
  "name (client_in (opened h s) d) = name (client_in s d)"
  "tx (client_in (opened h s) d) = tx (client_in s d)"
  "dead (client_in (opened h s) d) = dead (client_in s d)"
  "room (client_in (opened h s) d) = (if d = h then Some (next_room s) else room (client_in s d))"
  "room_in (opened h s) q = (if q = next_room s then new_Room h else room_in s q)"
  by (simp_all add: opened_def)

lemma new_Room_fields [simp]: "members (new_Room h) = [h]" "started (new_Room h) = False"
  by (simp_all add: new_Room_def)

lemma srv_inv_opened:
  assumes "quiet s" and "room (client_in s h) = None" and "name (client_in s h) \<noteq> None"
  shows "srv_inv {} {next_room s} {} (opened h s)"
proof -
  note iff = srv_inv_room_iff [OF assms(1)] and mem = srv_inv_members [OF assms(1)]
  have fresh: "members (room_in s (next_room s)) = []"
    using assms(1) by (simp add: srv_inv_def fresh_ok_def)
  have h: "h \<notin> set (members (room_in s q))" for q
    using iff [of h q] assms(2) by simp
  have old: "room (client_in s d) \<noteq> Some (next_room s)" for d
    using iff [of d "next_room s"] fresh by simp
  have "rooms_ok {} {next_room s} (opened h s)"
  proof (rule rooms_okI)
    fix d q
    show "room (client_in (opened h s) d) = Some q \<longleftrightarrow>
        q \<notin> {} \<and> d \<in> set (members (room_in (opened h s) q))"
      using iff [of d q] h [of q] old [of d] by auto
  next
    fix q
    show "distinct (members (room_in (opened h s) q))"
      using mem(1) [of q] by simp
    show "length (members (room_in (opened h s) q)) \<le> 4"
      using mem(2) [of q] by simp
    show "length (members (room_in (opened h s) q)) \<noteq> 1" if "q \<notin> {} \<union> {next_room s}"
      using mem(3) [of q] that by simp
  qed
  moreover have "clients_ok (opened h s)" "events_ok {} (opened h s)" "fresh_ok (opened h s)"
    using assms(1) by (auto simp: srv_inv_def clients_ok_def events_ok_def fresh_ok_def)
  moreover have "names_ok (opened h s)"
    unfolding names_ok_def opened_fields using srv_inv_names [OF assms(1)] assms(3) by auto
  ultimately show ?thesis
    by (simp add: srv_inv_def)
qed

lemma on_join_ok:
  assumes "quiet s"
  shows "wp (on_join c payload) (keeps_from s)
    (\<lambda>e s'. (\<exists>pe. e = ProtocolError pe) \<and> s' = s \<or> bad_delay s e s') s"
proof -
  let ?E = "\<lambda>e s'. (\<exists>pe. e = ProtocolError pe) \<and> s' = s \<or> bad_delay s e s'"
  have refresh: "wp (on_list c) (keeps_from s) ?E s"
    by (rule wp_evolve [OF on_list_ok [OF assms]]) simp
  have enter: "wp (bind (open_room target) (\<lambda>r. enter_room c r)) (keeps_from s) ?E s"
    if c: "name (client_in s c) \<noteq> None" "room (client_in s c) = None" and j: "joinable s c target"
    for target
  proof (cases "room (client_in s target)")
    case (Some r)
    then have "members (room_in s r) \<noteq> []"
      using srv_inv_room_iff [OF assms] by fastforce
    moreover have "srv_inv {} {r} {} s"
      by (rule srv_inv_mono [OF assms]) auto
    ultimately have "wp (enter_room c r) (keeps_from s) (bad_delay s) s"
      using c j Some by (intro enter_room_ok) (auto simp: joinable_def MAX_SEATS_def)
    with Some show ?thesis
      by (auto simp: open_room_def wp_simps intro: wp_mono)
  next
    case None
    have kept: "conns_kept s (opened target s)"
      by (simp add: conns_kept_def opened_def)
    have "wp (enter_room c (next_room s)) (keeps_from (opened target s))
        (bad_delay (opened target s)) (opened target s)"
      by (rule enter_room_ok) (use c j None srv_inv_opened [OF assms None] in \<open>auto simp: joinable_def\<close>)
    then have "wp (enter_room c (next_room s)) (keeps_from s) ?E (opened target s)"
      by (rule wp_mono) (use kept conns_kept_trans bad_delay_trans in blast)+
    with None show ?thesis
      by (simp add: open_room_def wp_simps opened_def)
  qed
  show ?thesis
    using assms refresh enter
    by (auto simp: on_join_def wp_reading wp_raise wp_return split: option.splits)
qed

subsection \<open>Relay\<close>

lemma crc_report_members [simp]: "crc_report seat tick v rm = (rm', rec) \<Longrightarrow> members rm' = members rm"
  by (auto simp: crc_report_def Let_def split: if_splits)

lemma log_crc_ok:
  assumes "quiet s" and "room (client_in s c) = Some r" and "length payload = 5"
  shows "wp (log_crc c payload) (\<lambda>_ s'. quiet s' \<and> conns_kept s s' \<and>
    obj_client s' = obj_client s \<and> (\<forall>q. members (room_in s' q) = members (room_in s q))) no_exn s"
proof -
  obtain rm rec where rep: "crc_report (unat (payload ! 0)) (le16 (payload ! 1) (payload ! 2))
      (le16 (payload ! 3) (payload ! 4)) (room_in s r) = (rm, rec)"
    by fastforce
  let ?s = "(set_room r (\<lambda>_. rm) s)\<lparr>log_lines := log_lines s @ rec\<rparr>"
  have mem: "members (room_in (set_room r (\<lambda>_. rm) s) q) = members (room_in s q)" for q
    using crc_report_members [OF rep] by simp
  have "rooms_ok {} {} ?s = rooms_ok {} {} s" "fresh_ok ?s = fresh_ok s"
    "clients_ok ?s = clients_ok s" "names_ok ?s = names_ok s"
    by (rule ok_congs; simp add: mem del: room_in_set_room)+
  moreover have "events_ok {} ?s = events_ok {} s"
    by (simp add: events_ok_def)
  ultimately have "quiet ?s"
    using assms(1) by (simp add: srv_inv_def)
  then show ?thesis
    using assms(2,3) by (simp add: log_crc_def wp_simps rep [unfolded One_nat_def] mem conns_kept_def del: room_in_set_room)
qed

lemma fanout_ok:
  assumes "quiet s"
  shows "wp (for_live Stuck (\<lambda>s. members (room_in s r)) (\<lambda>_ m. only_if (m \<noteq> c) (send m data)))
    (\<lambda>_ s'. quiet s' \<and> evolves s s') no_exn s"
proof (rule wp_for_live)
  show "quiet s \<and> evolves s s"
    using assms by simp
  fix i t
  assume t: "quiet t \<and> evolves s t"
  have "wp (send (members (room_in t r) ! i) data) (\<lambda>_ s'. quiet s' \<and> evolves t s') no_exn t"
    using t by (intro send_keeps) blast
  then have "wp (only_if (members (room_in t r) ! i \<noteq> c) (send (members (room_in t r) ! i) data))
      (\<lambda>_ s'. quiet s' \<and> evolves t s') no_exn t"
    using t by (simp add: wp_only_if)
  then show "wp (only_if (members (room_in t r) ! i \<noteq> c) (send (members (room_in t r) ! i) data))
      (\<lambda>_ s'. (quiet s' \<and> evolves s s') \<and>
        length (members (room_in s' r)) \<le> length (members (room_in t r))) no_exn t"
    by (rule wp_mono) (use t evolves_trans evolves_members in auto)
qed

lemma relay_ok:
  assumes "quiet s" and "length payload \<le> 254"
  shows "wp (relay c ftype payload) (keeps_from s) no_exn s"
proof (cases "room (client_in s c)")
  case None
  with assms show ?thesis by (simp add: relay_def wp_simps)
next
  case (Some r)
  have fan: "wp (for_live Stuck (\<lambda>s. members (room_in s r)) (\<lambda>_ m. only_if (m \<noteq> c) (send m data)))
      (keeps_from s) no_exn t" if "quiet t" "conns_kept s t" for t data
    by (rule wp_evolve [OF fanout_ok]) (use that in auto)
  have "wp (only_if (ftype = T_CRC \<and> length payload = 5) (log_crc c payload))
      (keeps_from s) no_exn s"
    using assms(1) by (auto simp: wp_only_if intro!: wp_mono [OF log_crc_ok [OF _ Some]])
  then have "wp (only_if (ftype = T_CRC \<and> length payload = 5) (log_crc c payload))
      (\<lambda>_. wp (for_live Stuck (\<lambda>s. members (room_in s r))
        (\<lambda>_ m. only_if (m \<noteq> c) (send m (of_nat (Suc (length payload)) # ftype # payload))))
        (keeps_from s) no_exn) no_exn s"
    by (rule wp_mono) (use fan in auto)
  with Some assms show ?thesis
    by (simp add: relay_def wp_reading wp_return wp_block_Cons wp_block_Nil frame_ok del: of_nat_Suc)
qed

subsection \<open>Every message\<close>

text \<open>What may leave a handler as an exception: the state is still well-formed.\<close>

definition handler_error :: "Server \<Rightarrow> exn \<Rightarrow> Server \<Rightarrow> bool" where
  "handler_error s e s' \<longleftrightarrow> quiet s' \<and> conns_kept s s' \<and>
     ((\<exists>pe. e = ProtocolError pe) \<or> e = Py ValueError \<and> \<not> (0 \<le> delay s \<and> delay s < 256))"

lemma handle_ok:
  assumes "quiet s" and "c < next_client s" and "length payload \<le> 254"
  shows "wp (handle c ftype payload) (keeps_from s) (handler_error s) s"
proof -
  have "wp (relay c ftype payload) (keeps_from s) (handler_error s) s"
    by (rule wp_mono [OF relay_ok [OF assms(1,3)]]) auto
  moreover have "wp (on_hello c payload) (keeps_from s) (handler_error s) s"
    by (rule wp_mono [OF on_hello_ok [OF assms(1,2)]]) (use assms in \<open>auto simp: handler_error_def\<close>)
  moreover have "wp (on_list c) (keeps_from s) (handler_error s) s"
    by (rule wp_evolve [OF on_list_ok [OF assms(1)]]) simp
  moreover have "wp (on_join c payload) (keeps_from s) (handler_error s) s"
    by (rule wp_mono [OF on_join_ok [OF assms(1)]])
      (use assms in \<open>auto simp: handler_error_def bad_delay_def\<close>)
  moreover have "wp (on_go c) (keeps_from s) (handler_error s) s"
    by (rule wp_mono [OF on_go_ok [OF assms(1)]]) (auto simp: handler_error_def bad_delay_def)
  moreover have "wp (drop_client c Bye) (keeps_from s) (handler_error s) s"
    by (rule wp_mono [OF drop_client_ok]) (use srv_inv_mono [OF assms(1)] in auto)
  moreover have "wp (bind (attempt Py (frame T_PONG [])) (\<lambda>f. send c f)) (keeps_from s) (handler_error s) s"
    by (rule wp_evolve [OF send_frame_step]) (use assms in auto)
  moreover have "handler_error s (ProtocolError (UnknownType ftype)) s"
    using assms by (simp add: handler_error_def)
  ultimately show ?thesis
    by (simp add: handle_def wp_raise)
qed

end
