(* ===== verification/Delivery.thy ===== *)
theory Delivery
  imports Matchmaking_Correct
begin

text \<open>
  What the peers receive. A send to a client whose backlog has room and whose socket reports
  no error is a pure update, \<open>delivered\<close>; the loops of \<open>relay\<close>, \<open>start_room\<close> and
  \<open>room_broadcast\<close> over such peers are folds of it.
\<close>

subsection \<open>A send that succeeds\<close>

definition accepts :: "Server \<Rightarrow> cid \<Rightarrow> bytes \<Rightarrow> bool" where
  "accepts s c data \<longleftrightarrow> \<not> dead (client_in s c) \<and>
     length (tx (client_in s c)) + length data \<le> MAX_TX_BACKLOG \<and>
     fst (pump (net s c) (tx (client_in s c) @ data) (wire s c)) = None"

definition delivered :: "cid \<Rightarrow> bytes \<Rightarrow> Server \<Rightarrow> Server" where
  "delivered c data s =
     (case pump (net s c) (tx (client_in s c) @ data) (wire s c) of (_, answers, pending, taken) \<Rightarrow>
       (set_client c (\<lambda>x. x\<lparr>tx := pending\<rparr>) s)
         \<lparr>sel_write := (if c \<in> set (clients s) then (sel_write s)(c := pending \<noteq> []) else sel_write s),
          net := (net s)(c := answers), wire := (wire s)(c := taken)\<rparr>)"

lemma send_with_accepts:
  assumes "accepts s c data"
  shows "send_with disconnect c data s = (Inr (), delivered c data s)"
proof -
  obtain as t w where p: "pump (net s c) (tx (client_in s c) @ data) (wire s c) = (None, as, t, w)"
    using assms by (metis accepts_def fst_conv prod_cases4)
  show ?thesis
    using assms p
    by (simp add: send_with_def flush_with_def accepts_def delivered_def block.simps
      bind_def modify_def reading_def return_def update_events_def set_client_def)
qed

text \<open>A send that does not succeed disconnects its client.\<close>

lemma send_fails:
  assumes "quiet s" and "\<not> dead (client_in s c)" and "\<not> accepts s c data"
  shows "wp (send c data) (\<lambda>_ s'. dead (client_in s' c)) no_exn s"
proof (cases "MAX_TX_BACKLOG < length (tx (client_in s c)) + length data")
  case True
  have "srv_inv {} {} {c} (count_backlog_drop s)"
    using srv_inv_mono [OF assms(1)] by simp
  from drop_client_ok [OF this, of BacklogExceeded] True assms(2) show ?thesis
    by (auto simp: send_def send_with_def wp_reading wp_block_Cons wp_block_Nil wp_modify elim!: wp_mono)
next
  case False
  let ?q = "queued c data s"
  obtain r as t w where p: "pump (net ?q c) (tx (client_in ?q c)) (wire ?q c) = (r, as, t, w)"
    by (metis prod_cases4)
  obtain why where r: "r = Some why"
    using p False assms(2,3) by (auto simp: accepts_def queued_def)
  have "srv_inv {} {} {c} ?q"
    using srv_inv_set_tx [OF assms(1), of "tx (client_in s c) @ data" c] False
    by (simp add: queued_def set_client_def)
  from drop_client_ok [OF srv_inv_pumped [OF this p], of why] r p False assms(2) show ?thesis
    by (auto simp: send_def send_with_def flush_with_def wp_reading wp_block_Cons wp_block_Nil wp_modify
      simp flip: queued_def pumped_def elim!: wp_mono)
qed

lemmas send_accepts = send_with_accepts [of _ _ _ drop_client, folded send_def]

lemma pump_no_answers: "pump [] t w = (None, [], t, w)"
  by (cases t) auto

lemma accepts_idle:
  "\<not> dead (client_in s c) \<Longrightarrow> net s c = [] \<Longrightarrow>
   length (tx (client_in s c)) + length data \<le> MAX_TX_BACKLOG \<Longrightarrow> accepts s c data"
  by (simp add: accepts_def pump_no_answers)

lemma delivered_fields [simp]:
  "clients (delivered c d s) = clients s" "by_name (delivered c d s) = by_name s"
  "obj_room (delivered c d s) = obj_room s" "delay (delivered c d s) = delay s"
  "name (client_in (delivered c d s) m) = name (client_in s m)"
  "room (client_in (delivered c d s) m) = room (client_in s m)"
  "dead (client_in (delivered c d s) m) = dead (client_in s m)"
  "rx (client_in (delivered c d s) m) = rx (client_in s m)"
  "log_lines (delivered c d s) = log_lines s"
  "lobby_enabled (delivered c d s) = lobby_enabled s" "auto_go (delivered c d s) = auto_go s"
  by (simp_all add: delivered_def split: prod.splits)

lemma out_stream_delivered:
  "out_stream (delivered c d s) m = out_stream s m @ (if m = c then d else [])"
  using pump_stream [of "net s c" "tx (client_in s c) @ d" "wire s c"]
  by (auto simp: out_stream_def delivered_def split: prod.splits)

lemma accepts_delivered: "m \<noteq> c \<Longrightarrow> accepts (delivered c d s) m x = accepts s m x"
  by (auto simp: accepts_def delivered_def split: prod.splits)

lemma accepts_cong:
  "obj_client s' m = obj_client s m \<Longrightarrow> net s' m = net s m \<Longrightarrow> wire s' m = wire s m \<Longrightarrow>
   accepts s' m x = accepts s m x"
  by (simp add: accepts_def)

lemma other_fields_accepts [simp]:
  "accepts (s\<lparr>log_lines := l\<rparr>) m x = accepts s m x" "out_stream (s\<lparr>log_lines := l\<rparr>) m = out_stream s m"
  "accepts (s\<lparr>lobby_calls := lc\<rparr>) m x = accepts s m x" "out_stream (s\<lparr>lobby_calls := lc\<rparr>) m = out_stream s m"
  "accepts (s\<lparr>entropy := e\<rparr>) m x = accepts s m x" "out_stream (s\<lparr>entropy := e\<rparr>) m = out_stream s m"
  "accepts (set_room r f s) m x = accepts s m x" "out_stream (set_room r f s) m = out_stream s m"
  by (simp_all add: accepts_def out_stream_def)

subsection \<open>A loop of sends\<close>

text \<open>\<open>msg i m\<close> is what the \<open>i\<close>-th member \<open>m\<close> is sent, if anything.\<close>

definition deliver_from :: "nat \<Rightarrow> (nat \<Rightarrow> cid \<Rightarrow> bytes option) \<Rightarrow> cid list \<Rightarrow> Server \<Rightarrow> Server" where
  "deliver_from k msg ms = fold (\<lambda>(i, m). case msg i m of None \<Rightarrow> id | Some d \<Rightarrow> delivered m d) (enumerate k ms)"

lemma deliver_from_simps [simp]:
  "deliver_from k msg [] s = s"
  "deliver_from k msg (m # ms) s =
     deliver_from (Suc k) msg ms (case msg k m of None \<Rightarrow> s | Some d \<Rightarrow> delivered m d s)"
  by (simp_all add: deliver_from_def split: option.split)

lemma py_index_mem: "(case py_index xs x of None \<Rightarrow> a | Some _ \<Rightarrow> b) = (if x \<in> set xs then b else a)"
  using py_index_None [of xs x] by (auto split: option.split)

text \<open>The fields that deliveries leave alone.\<close>

definition same_rest :: "Server \<Rightarrow> Server \<Rightarrow> bool" where
  "same_rest s s' \<longleftrightarrow> clients s' = clients s \<and> by_name s' = by_name s \<and> obj_room s' = obj_room s \<and>
     delay s' = delay s \<and> auto_go s' = auto_go s \<and> lobby_enabled s' = lobby_enabled s \<and>
     log_lines s' = log_lines s \<and>
     (\<forall>m. name (client_in s' m) = name (client_in s m) \<and> room (client_in s' m) = room (client_in s m) \<and>
       dead (client_in s' m) = dead (client_in s m) \<and> rx (client_in s' m) = rx (client_in s m))"

lemma same_rest_delivered: "same_rest s t \<Longrightarrow> same_rest s (delivered m d t)"
  by (simp add: same_rest_def)

lemma same_rest_deliver: "same_rest s t \<Longrightarrow> same_rest s (deliver_from k msg ms t)"
  by (induction ms arbitrary: k t) (auto simp: same_rest_delivered split: option.split)

lemma out_stream_deliver:
  "distinct ms \<Longrightarrow> out_stream (deliver_from k msg ms s) m = out_stream s m @
     (case py_index ms m of None \<Rightarrow> []
      | Some i \<Rightarrow> (case msg (k + i) m of None \<Rightarrow> [] | Some d \<Rightarrow> d))"
proof (induction ms arbitrary: k s)
  case (Cons x xs)
  have "py_index xs m = None" if "x = m"
    using Cons.prems that by (simp add: py_index_None)
  with Cons show ?case
    by (auto simp: out_stream_delivered split: option.split)
qed simp

lemma accepts_deliver:
  "m \<notin> set ms \<Longrightarrow> accepts (deliver_from k msg ms s) m d = accepts s m d"
  by (induction ms arbitrary: k s) (auto simp: accepts_delivered split: option.split)

lemma fanout_delivers:
  assumes "distinct (members (room_in s r))"
    and "\<And>i d. i < length (members (room_in s r)) \<Longrightarrow> msg i (members (room_in s r) ! i) = Some d \<Longrightarrow>
      accepts s (members (room_in s r) ! i) d"
    and f: "\<And>i m. i < length (members (room_in s r)) \<Longrightarrow>
      f i m = (case msg i m of None \<Rightarrow> return () | Some d \<Rightarrow> send_with disconnect m d)"
  shows "for_live Stuck (\<lambda>s. members (room_in s r)) f s =
    (Inr (), deliver_from 0 msg (members (room_in s r)) s)"
proof -
  let ?ms = "members (room_in s r)"
  let ?g = "\<lambda>i m. case msg i m of None \<Rightarrow> id | Some d \<Rightarrow> delivered m d"
  let ?J = "\<lambda>i t. same_rest s t \<and> (\<forall>j < length ?ms. i \<le> j \<longrightarrow>
    (\<forall>d. msg j (?ms ! j) = Some d \<longrightarrow> accepts t (?ms ! j) d))"
  have "for_live Stuck (\<lambda>s. members (room_in s r)) f s = (Inr (), fold (\<lambda>(i, m). ?g i m) (enumerate 0 ?ms) s)"
  proof (rule for_live_run [where J = ?J])
    show "?J 0 s"
      using assms(2) by (simp add: same_rest_def)
    show "members (room_in t r) = ?ms" if "?J i t" for i t
      using that by (simp add: same_rest_def)
    show "f i (?ms ! i) t = (Inr (), ?g i (?ms ! i) t)" if "?J i t" "i < length ?ms" for i t
      using that f [OF that(2)] send_with_accepts [of t "?ms ! i"]
      by (cases "msg i (?ms ! i)") (simp_all add: return_def)
    show "?J (Suc i) (?g i (?ms ! i) t)" if "?J i t" "i < length ?ms" for i t
    proof -
      have "?ms ! j \<noteq> ?ms ! i" if "j < length ?ms" "Suc i \<le> j" for j
        using that \<open>i < length ?ms\<close> assms(1) by (simp add: nth_eq_iff_index_eq)
      with that show ?thesis
        by (auto simp: accepts_delivered same_rest_delivered split: option.split)
    qed
  qed
  then show ?thesis
    by (simp add: deliver_from_def)
qed

subsection \<open>Relay, START, ROOM\<close>

text \<open>The state after the CRC comparator has seen the report, if the frame is one.\<close>

definition compared :: "cid \<Rightarrow> rid \<Rightarrow> byte \<Rightarrow> bytes \<Rightarrow> Server \<Rightarrow> Server" where
  "compared c r ftype payload s =
     (if ftype = T_CRC \<and> length payload = 5
      then (case crc_report (unat (payload ! 0)) (le16 (payload ! 1) (payload ! 2))
               (le16 (payload ! 3) (payload ! 4)) (room_in s r) of
              (rm, records) \<Rightarrow> (set_room r (\<lambda>_. rm) s)\<lparr>log_lines := log_lines s @ records\<rparr>)
      else s)"

lemma compared_run:
  "room (client_in s c) = Some r \<Longrightarrow>
   only_if (ftype = T_CRC \<and> length payload = 5) (log_crc c payload) s = (Inr (), compared c r ftype payload s)"
  by (auto simp: only_if_def compared_def log_crc_def reading_def modify_def return_def split: prod.split)

lemma compared_fields [simp]:
  "members (room_in (compared c r ftype payload s) q) = members (room_in s q)"
  "obj_client (compared c r ftype payload s) = obj_client s"
  "net (compared c r ftype payload s) = net s" "wire (compared c r ftype payload s) = wire s"
  "accepts (compared c r ftype payload s) m d = accepts s m d"
  "out_stream (compared c r ftype payload s) m = out_stream s m"
  "clients (compared c r ftype payload s) = clients s"
  by (auto simp: compared_def accepts_def out_stream_def split: prod.split)

lemma relay_delivers:
  assumes "quiet s" and "room (client_in s c) = Some r" and "started (room_in s r)"
    and "length payload \<le> 254"
    and "\<forall>m \<in> set (members (room_in s r)) - {c}. accepts s m (of_nat (Suc (length payload)) # ftype # payload)"
  shows "relay c ftype payload s = (Inr (), deliver_from 0
    (\<lambda>_ m. if m = c then None else Some (of_nat (Suc (length payload)) # ftype # payload))
    (members (room_in s r)) (compared c r ftype payload s))"
proof -
  let ?d = "of_nat (Suc (length payload)) # ftype # payload"
  let ?t = "compared c r ftype payload s"
  have "for_live Stuck (\<lambda>s. members (room_in s r)) (\<lambda>_ m. only_if (m \<noteq> c) (send m ?d)) ?t =
      (Inr (), deliver_from 0 (\<lambda>_ m. if m = c then None else Some ?d) (members (room_in ?t r)) ?t)"
    by (rule fanout_delivers [where disconnect = drop_client, folded send_def])
      (use assms(5) srv_inv_members(1) [OF assms(1)] in \<open>auto simp: only_if_def split: if_splits\<close>)
  then show ?thesis
    using assms(3) by (simp add: relay_def reading_def block.simps bind_def frame_ok [OF assms(4)]
        assms(2) compared_run attempt_def return_def del: of_nat_Suc)
qed

text \<open>What \<open>start_room\<close> sends seat \<open>i\<close>, and what \<open>room_broadcast\<close> sends everybody.\<close>

definition start_message :: "Server \<Rightarrow> rid \<Rightarrow> nat \<Rightarrow> bytes" where
  "start_message s r i =
     38 # T_START # of_nat i # of_nat (length (members (room_in s r))) #
       of_nat (seed (room_in s r)) # of_nat (drop_bit 8 (seed (room_in s r))) # of_int (delay s) #
       (case roster s r of Inl _ \<Rightarrow> [] | Inr names \<Rightarrow> names)"

lemma announce_start_delivers:
  assumes "quiet s" and "seed (room_in s r) < 0x10000" and "0 \<le> delay s" and "delay s < 256"
    and "\<And>i. i < length (members (room_in s r)) \<Longrightarrow>
      accepts s (members (room_in s r) ! i) (start_message s r i)"
  shows "announce_start r s =
    (Inr (), deliver_from 0 (\<lambda>i _. Some (start_message s r i)) (members (room_in s r)) s)"
proof -
  let ?ms = "members (room_in s r)" and ?seed = "seed (room_in s r)"
  let ?hdr = "[int (length ?ms), int (?seed AND 0xFF), int (drop_bit 8 ?seed), delay s]"
  obtain b where b: "roster s r = Inr b" "length b = 32"
    using roster_ok [OF assms(1), of r] by blast
  have len: "length ?ms \<le> 4"
    by (rule srv_inv_members [OF assms(1)])
  have hdr: "py_bytes ?hdr = Inr (map of_int ?hdr)"
    by (rule start_header [OF len assms(2-4)])
  have lo: "(of_int (int (?seed AND 0xFF)) :: byte) = of_nat ?seed"
    by (simp add: nat_and_255 word_of_nat_eq_iff take_bit_eq_mod)
  have "for_live Stuck (\<lambda>s. members (room_in s r)) (\<lambda>seat m.
         bind (attempt Py (py_bytes [int seat])) (\<lambda>sb.
         bind (attempt Py (frame T_START (sb @ map of_int ?hdr @ b))) (\<lambda>f. send m f))) s =
      (Inr (), deliver_from 0 (\<lambda>i _. Some (start_message s r i)) ?ms s)"
  proof (rule fanout_delivers [where disconnect = drop_client, folded send_def])
    fix i m
    assume "i < length ?ms"
    with len have "py_bytes [int i] = Inr [of_nat i]"
      by (simp add: py_bytes_def)
    then show "bind (attempt Py (py_bytes [int i])) (\<lambda>sb.
         bind (attempt Py (frame T_START (sb @ map of_int ?hdr @ b))) (\<lambda>f. send m f)) =
         (case Some (start_message s r i) of None \<Rightarrow> return () | Some d \<Rightarrow> send m d)"
      using lo by (simp add: frame_ok b start_message_def)
  qed (use assms(5) srv_inv_members(1) [OF assms(1)] in auto)
  then show ?thesis
    unfolding announce_start_def reading_def hdr b(1) bind_attempt .
qed

lemma start_message_cong:
  assumes "members (room_in t r) = members (room_in u r)" and "seed (room_in t r) = seed (room_in u r)"
    and "delay t = delay u" and "\<And>m. name (client_in t m) = name (client_in u m)"
  shows "start_message t r i = start_message u r i"
  by (simp only: start_message_def roster_def assms)

lemma start_message_other_fields [simp]:
  "start_message (s\<lparr>log_lines := l\<rparr>) r i = start_message s r i"
  "start_message (s\<lparr>lobby_calls := lc\<rparr>) r i = start_message s r i"
  by (rule start_message_cong; simp)+

lemma length_start_message:
  assumes "quiet s" shows "length (start_message s r i) = 39"
proof -
  obtain b where "roster s r = Inr b" "length b = 32"
    using roster_ok [OF assms, of r] by blast
  then show ?thesis by (simp add: start_message_def)
qed

lemma start_room_delivers:
  assumes "quiet s" and "0 \<le> delay s" and "delay s < 256"
    and "\<And>m x. m \<in> set (members (room_in s r)) \<Longrightarrow> length x = 39 \<Longrightarrow> accepts s m x"
  shows "wp (start_room r) (\<lambda>_ t. members (room_in t r) = members (room_in s r) \<and>
    started (room_in t r) \<and> 0 < seed (room_in t r) \<and> seed (room_in t r) < 0x10000 \<and>
    crc (room_in t r) = [] \<and> (\<forall>i < length (members (room_in s r)).
      out_stream t (members (room_in s r) ! i) = out_stream s (members (room_in s r) ! i) @ start_message t r i))
    no_exn s"
proof -
  let ?ms = "members (room_in s r)"
  let ?Q = "\<lambda>t. members (room_in t r) = ?ms \<and>
    started (room_in t r) \<and> 0 < seed (room_in t r) \<and> seed (room_in t r) < 0x10000 \<and>
    crc (room_in t r) = [] \<and> (\<forall>i < length ?ms.
      out_stream t (?ms ! i) = out_stream s (?ms ! i) @ start_message t r i)"
  have dist: "distinct ?ms"
    by (rule srv_inv_members [OF assms(1)])
  have rest: "wp (announce_start r) (\<lambda>_. ?Q) no_exn u"
    if u: "quiet u" "room_in u r = (room_in s r)\<lparr>started := True, seed := v, crc := [], crc_ok := 0\<rparr>"
      "delay u = delay s" "0 < v" "v < 0x10000" "\<And>m x. accepts u m x = accepts s m x"
      "\<And>m. out_stream u m = out_stream s m" for u v
  proof -
    let ?t = "deliver_from 0 (\<lambda>i _. Some (start_message u r i)) (members (room_in u r)) u"
    have t: "same_rest u ?t"
      by (rule same_rest_deliver) (simp add: same_rest_def)
    then have same: "start_message ?t r i = start_message u r i" for i
      by (intro start_message_cong) (simp_all add: same_rest_def)
    have "announce_start r u = (Inr (), ?t)"
      by (rule announce_start_delivers [OF u(1)])
        (use u assms(2-4) length_start_message [OF u(1)] in auto)
    moreover have "?Q ?t"
      using t u dist same
      by (auto simp: same_rest_def out_stream_deliver py_index_nth)
    ultimately show ?thesis
      by (simp add: wp_def)
  qed
  have "wp (block [announce_start r,
      log_line (\<lambda>s. LogMatch (room_repr s r) (length (members (room_in s r))) (seed (room_in s r))),
      lobby_update]) (\<lambda>_. ?Q) no_exn u"
    if u: "quiet u" "room_in u r = (room_in s r)\<lparr>started := True, seed := v, crc := [], crc_ok := 0\<rparr>"
      "delay u = delay s" "0 < v" "v < 0x10000" "\<And>m x. accepts u m x = accepts s m x"
      "\<And>m. out_stream u m = out_stream s m" for u v
    unfolding wp_block_Cons [of "announce_start r"]
    by (rule wp_mono [OF rest [OF u]])
      (simp_all add: wp_block_Cons wp_block_Nil wp_log_line wp_lobby_update)
  moreover have "quiet (set_room r (\<lambda>x. x\<lparr>crc := [], crc_ok := 0\<rparr>) (set_room r (\<lambda>x. x\<lparr>seed := v\<rparr>)
      ((set_room r (\<lambda>x. x\<lparr>started := True\<rparr>) s)\<lparr>entropy := e\<rparr>)))" for v e
    by (intro quiet_room_data) (simp_all add: assms(1) quiet_room_data)
  ultimately show ?thesis
    unfolding start_room_def wp_block_Cons [of "upd_room r f" for f]
      wp_block_Cons [of "bind m k" for m k] wp_modify wp_bind
    by (intro wp_randrange) simp_all
qed

definition room_message :: "Server \<Rightarrow> rid \<Rightarrow> bytes" where
  "room_message s r = 34 # T_ROOM # of_nat (length (members (room_in s r))) #
     (case roster s r of Inl _ \<Rightarrow> [] | Inr names \<Rightarrow> names)"

lemma room_broadcast_delivers:
  assumes "srv_inv X {} {} s" and "r \<notin> X"
    and "\<And>m. m \<in> set (members (room_in s r)) \<Longrightarrow> accepts s m (room_message s r)"
  shows "room_broadcast_with (send_with disconnect) r s =
    (Inr (), deliver_from 0 (\<lambda>_ _. Some (room_message s r)) (members (room_in s r)) s)"
proof -
  let ?ms = "members (room_in s r)"
  obtain b where b: "roster s r = Inr b" "length b = 32"
    using roster_ok [OF assms(1), of r] assms(2) by blast
  have count: "py_bytes [int (length ?ms)] = Inr [of_nat (length ?ms)]"
    using srv_inv_members(2) [OF assms(1), of r] by (simp add: py_bytes_def)
  have "for_live Stuck (\<lambda>s. members (room_in s r)) (\<lambda>_ m.
         bind (attempt Py (frame T_ROOM ([of_nat (length ?ms)] @ b))) (\<lambda>f. send_with disconnect m f)) s =
      (Inr (), deliver_from 0 (\<lambda>_ _. Some (room_message s r)) ?ms s)"
    by (rule fanout_delivers [where disconnect = disconnect])
      (use assms(3) srv_inv_members(1) [OF assms(1)] b in \<open>auto simp: frame_ok room_message_def\<close>)
  then show ?thesis
    by (simp add: room_broadcast_with_def reading_def count b(1))
qed

lemma room_message_cong:
  assumes "members (room_in t r) = members (room_in u r)"
    and "\<And>m. name (client_in t m) = name (client_in u m)"
  shows "room_message t r = room_message u r"
  by (simp only: room_message_def roster_def assms)

lemma room_message_other_fields [simp]:
  "room_message (t\<lparr>lobby_calls := lc\<rparr>) r = room_message t r"
  "room_message (t\<lparr>log_lines := l\<rparr>) r = room_message t r"
  by (rule room_message_cong; simp)+

lemma length_room_message:
  assumes "srv_inv X Z Y s" and "r \<notin> X"
  shows "length (room_message s r) = 35"
proof -
  obtain b where "roster s r = Inr b" "length b = 32"
    using roster_ok [OF assms] by blast
  then show ?thesis by (simp add: room_message_def)
qed

text \<open>A client that takes the next seat of a forming room: everybody in it gets the new roster.\<close>

lemma enter_room_delivers:
  assumes "srv_inv {} {r} {} s" and "room (client_in s c) = None" and "name (client_in s c) \<noteq> None"
    and "members (room_in s r) \<noteq> []" and "length (members (room_in s r)) < 4" and "auto_go s = 0"
    and acc: "\<And>m x. m \<in> set (members (room_in s r)) \<union> {c} \<Longrightarrow> length x = 35 \<Longrightarrow> accepts s m x"
  shows "wp (enter_room c r) (\<lambda>_ t. members (room_in t r) = members (room_in s r) @ [c] \<and>
    room (client_in t c) = Some r \<and> (\<forall>m. m \<noteq> c \<longrightarrow> room (client_in t m) = room (client_in s m)) \<and>
    started (room_in t r) = started (room_in s r) \<and>
    (\<forall>m. out_stream t m = out_stream s m @
      (if m \<in> set (members (room_in s r)) \<union> {c} then room_message t r else []))) no_exn s"
proof -
  have c: "c \<notin> set (members (room_in s r))"
    using srv_inv_room_iff [OF assms(1), of c r] assms(2) by simp
  have dist: "distinct (members (room_in s r))"
    by (rule srv_inv_members [OF assms(1)])
  have bc: "wp (room_broadcast r) (\<lambda>_ t. same_rest u t \<and> (\<forall>m. out_stream t m = out_stream u m @
      (if m \<in> set (members (room_in u r)) then room_message t r else []))) no_exn u"
    if u: "u = (seated r c s)\<lparr>log_lines := l\<rparr>" for u l
  proof -
    let ?t = "deliver_from 0 (\<lambda>_ _. Some (room_message u r)) (members (room_in u r)) u"
    have q: "quiet u"
      using quiet_seated [OF assms(1-5)] u by simp
    have acc_u: "accepts u m (room_message u r)" if "m \<in> set (members (room_in u r))" for m
      using acc [of m "room_message u r"] that length_room_message [OF q] u
      by (auto simp: accepts_def seated_def)
    have t: "same_rest u ?t"
      by (rule same_rest_deliver) (simp add: same_rest_def)
    then have same: "room_message ?t r = room_message u r"
      by (intro room_message_cong) (simp_all add: same_rest_def)
    have "distinct (members (room_in u r))"
      using dist c u by simp
    with t room_broadcast_delivers [OF q _ acc_u, of drop_client] same show ?thesis
      by (simp add: wp_def room_broadcast_def send_def out_stream_deliver py_index_mem)
  qed
  have seat: "out_stream (seated r c s) m = out_stream s m" "started (room_in (seated r c s) r) = started (room_in s r)"
    "auto_go (seated r c s) = auto_go s" for m
    by (simp_all add: seated_def out_stream_def)
  show ?thesis
    unfolding enter_room_def wp_block_Cons wp_modify wp_log_line
    unfolding seated_def [symmetric]
    by (rule wp_mono [OF bc [OF refl]])
      (simp_all add: wp_simps same_rest_def assms(6) seat)
qed

end
