(* ===== verification/Departure.thy ===== *)
theory Departure
  imports Delivery
begin

text \<open>
  What a departure tells the room, when the peers can be told: a drop ends a started match
  for everybody (PEER_LEFT), a host leaving a forming room dissolves it (ROOM with count 0),
  a guest leaving one reseats it (ROOM with the new roster).
\<close>

subsection \<open>Telling everybody the same\<close>

definition told :: "bytes \<Rightarrow> cid set \<Rightarrow> Server \<Rightarrow> Server \<Rightarrow> bool" where
  "told d M s t \<longleftrightarrow> clients t = clients s \<and> obj_room t = obj_room s \<and> by_name t = by_name s \<and>
     (\<forall>m. name (client_in t m) = name (client_in s m) \<and> room (client_in t m) = room (client_in s m) \<and>
       dead (client_in t m) = dead (client_in s m)) \<and>
     (\<forall>m. out_stream t m = out_stream s m @ (if m \<in> M then d else [])) \<and>
     (\<forall>m x. m \<notin> M \<longrightarrow> accepts t m x = accepts s m x)"

lemma told_refl [simp]: "told d {} s s"
  by (simp add: told_def)

lemma told_trans: "told d M s t \<Longrightarrow> told d N t u \<Longrightarrow> M \<inter> N = {} \<Longrightarrow> told d (M \<union> N) s u"
  by (auto simp: told_def)

lemma told_delivered: "told d {c} s (delivered c d s)"
  by (simp add: told_def out_stream_delivered accepts_delivered)

lemma told_log [simp]: "told d M s (t\<lparr>log_lines := l\<rparr>) = told d M s t"
  by (simp add: told_def out_stream_def accepts_def)

lemma wp_tell_each:
  assumes "distinct ms" and "\<forall>m \<in> set ms. accepts s m d"
    and body: "\<And>m t. accepts t m d \<Longrightarrow> wp (f m) (\<lambda>_. told d {m} t) E t"
  shows "wp (for_each ms f) (\<lambda>_. told d (set ms) s) E s"
  using assms(1,2)
proof (induction ms arbitrary: s)
  case Nil
  then show ?case by (simp add: for_each.simps wp_return)
next
  case (Cons m ms)
  have "wp (f m) (\<lambda>_ t. wp (for_each ms f) (\<lambda>_. told d (set (m # ms)) s) E t) E s"
  proof (rule wp_mono [OF body])
    show "accepts s m d"
      using Cons.prems by simp
    fix x :: unit and t
    assume t: "told d {m} s t"
    then have "\<forall>n \<in> set ms. accepts t n d"
      using Cons.prems by (auto simp: told_def)
    then have "wp (for_each ms f) (\<lambda>_. told d (set ms) t) E t"
      using Cons.prems by (intro Cons.IH) simp_all
    then show "wp (for_each ms f) (\<lambda>_. told d (set (m # ms)) s) E t"
      by (rule wp_mono) (use told_trans [OF t] Cons.prems in auto)
  qed
  then show ?case by (simp add: for_each.simps wp_bind)
qed

lemma wp_send_accepts:
  "accepts t m d \<Longrightarrow> wp (send_with disconnect m d) (\<lambda>_. told d {m} t) E t"
  by (simp add: wp_def send_with_accepts told_delivered)

lemma leave_all_accepts [simp]:
  "accepts (leave_all ms s) m x = accepts s m x" "out_stream (leave_all ms s) m = out_stream s m"
  by (simp_all add: accepts_def out_stream_def leave_all_def)

text \<open>A room that is no more: its former members \<open>ms\<close> are solo, those in \<open>M\<close> were sent \<open>d\<close>.\<close>

definition disbanded :: "rid \<Rightarrow> cid list \<Rightarrow> bytes \<Rightarrow> cid set \<Rightarrow> Server \<Rightarrow> Server \<Rightarrow> bool" where
  "disbanded r ms d M s t \<longleftrightarrow> members (room_in t r) = [] \<and>
     (\<forall>m \<in> set ms. room (client_in t m) = None) \<and> clients t = clients s \<and> by_name t = by_name s \<and>
     (\<forall>m. dead (client_in t m) = dead (client_in s m)) \<and>
     (\<forall>m. out_stream t m = out_stream s m @ (if m \<in> M then d else []))"

lemma wp_dissolve_tells:
  assumes "distinct notify" and "\<forall>m \<in> set notify. accepts s m (34 # T_ROOM # 0 # replicate 32 0)"
  shows "wp (dissolve_with (send_with disconnect) r notify)
    (\<lambda>_ t. disbanded r (members (room_in s r)) (34 # T_ROOM # 0 # replicate 32 0) (set notify) s t \<and>
      (notify = [] \<longrightarrow> (\<forall>m x. accepts t m x = accepts s m x))) E s"
proof -
  let ?d = "34 # T_ROOM # 0 # replicate 32 0 :: bytes"
  let ?t = "leave_all (members (room_in s r)) s"
  have tell: "wp (for_each notify (\<lambda>m. bind (attempt Py (frame T_ROOM ([0] @ replicate 32 0)))
      (\<lambda>f. send_with disconnect m f))) (\<lambda>_. told ?d (set notify) ?t) E ?t"
  proof (rule wp_tell_each [OF assms(1)])
    show "\<forall>m \<in> set notify. accepts ?t m ?d"
      using assms(2) by simp
    have "frame T_ROOM ([0] @ replicate 32 0) = Inr ?d"
      by (simp add: frame_ok)
    then show "wp (bind (attempt Py (frame T_ROOM ([0] @ replicate 32 0))) (\<lambda>f. send_with disconnect m f))
        (\<lambda>_. told ?d {m} t) E t" if "accepts t m ?d" for m t
      using wp_send_accepts [OF that] by simp
  qed
  have zero: "py_bytes [0] = Inr [0]"
    by (simp add: py_bytes_def)
  show ?thesis
    unfolding dissolve_with_def wp_block_Cons wp_block_Nil wp_reading wp_leave_each wp_modify
      zero bind_attempt
    by (rule wp_mono [OF tell]) (auto simp: told_def disbanded_def)
qed

text \<open>A match that ends: everybody left is told who left.\<close>

lemma wp_end_match_tells:
  assumes "distinct (members (room_in s r))" and f: "peer_left_frame seat (name (client_in s c)) = Inr d"
    and "\<forall>m \<in> set (members (room_in s r)). accepts s m d"
  shows "wp (end_match_with (send_with disconnect) r c seat)
    (\<lambda>_. disbanded r (members (room_in s r)) d (set (members (room_in s r))) s) E s"
proof -
  let ?ms = "members (room_in s r)"
  let ?l = "s\<lparr>log_lines := log_lines s @
    [LogMatchEnded (crc_ok (room_in s r)) (repr_Client (client_in s c)) seat]\<rparr>"
  let ?tell = "\<lambda>m. block [send_with disconnect m d, log_line (\<lambda>s. LogBackToLobby (repr_Client (client_in s m)))]"
  have tell: "wp (for_each ?ms ?tell) (\<lambda>_. told d (set ?ms) t) E t"
    if "\<forall>m \<in> set ?ms. accepts t m d" for t
  proof (rule wp_tell_each [OF assms(1) that])
    show "wp (?tell m) (\<lambda>_. told d {m} u) E u" if "accepts u m d" for m u
      using wp_send_accepts [OF that] by (simp add: wp_block_Cons wp_block_Nil wp_log_line)
  qed
  have "wp (dissolve_with (send_with disconnect) r []) (\<lambda>_ t. wp (for_each ?ms ?tell)
      (\<lambda>_. disbanded r ?ms d (set ?ms) s) E t) E ?l"
  proof (rule wp_mono [OF wp_dissolve_tells])
    fix x :: unit and t
    assume "disbanded r (members (room_in ?l r)) (34 # T_ROOM # 0 # replicate 32 0) (set []) ?l t \<and>
      ([] = [] \<longrightarrow> (\<forall>m x. accepts t m x = accepts ?l m x))"
    then have t: "disbanded r ?ms d {} s t" "\<forall>m \<in> set ?ms. accepts t m d"
      using assms(3) by (simp_all add: disbanded_def)
    show "wp (for_each ?ms ?tell) (\<lambda>_. disbanded r ?ms d (set ?ms) s) E t"
      by (rule wp_mono [OF tell [OF t(2)]]) (use t(1) in \<open>auto simp: told_def disbanded_def\<close>)
  qed simp_all
  then show ?thesis
    by (simp add: end_match_with_def f Let_def wp_simps)
qed

subsection \<open>From the drop to what the room is told\<close>

text \<open>The state in which \<open>drop\<close> turns to the rest of the room: \<open>c\<close> is dead and has no seat.\<close>

definition left_seat :: "rid \<Rightarrow> cid \<Rightarrow> Server \<Rightarrow> Server \<Rightarrow> bool" where
  "left_seat r c s u \<longleftrightarrow> srv_inv {} {r} {} u \<and>
     members (room_in u r) = remove1 c (members (room_in s r)) \<and>
     started (room_in u r) = started (room_in s r) \<and>
     clients u = clients (forgotten c s) \<and> by_name u = by_name (forgotten c s) \<and>
     (\<forall>m. name (client_in u m) = name (client_in s m) \<and> out_stream u m = out_stream s m \<and>
        dead (client_in u m) = dead (client_in (forgotten c s) m)) \<and>
     (\<forall>m x. m \<noteq> c \<longrightarrow> accepts u m x = accepts s m x)"

lemma out_stream_forgotten [simp]: "out_stream (forgotten c s) m = out_stream s m"
  by (simp add: out_stream_def forgotten_def)

lemma disbanded_left_seat:
  "left_seat r c s u \<Longrightarrow> disbanded r ms d M u t \<Longrightarrow> disbanded r ms d M (forgotten c s) t"
  by (simp add: left_seat_def disbanded_def)

lemma forget_client_run:
  assumes "quiet s" and "\<not> dead (client_in s c)"
  shows "wp (forget_client c why) (\<lambda>_ t. quiet t \<and> obj_client t = obj_client (forgotten c s) \<and>
    obj_room t = obj_room s \<and> clients t = removeAll c (clients s) \<and>
    by_name t = by_name (forgotten c s) \<and> wire t = wire s \<and> net t = net s) no_exn s"
proof -
  have "srv_inv {} {} {c} s"
    by (rule srv_inv_mono [OF assms(1)]) auto
  note ok = forget_client_ok [OF this assms(2), of why]
  show ?thesis
    by (rule wp_mono [OF wp_conj [OF ok wp_forget_client [OF srv_inv_names(1) [OF assms(1)], of c why]]])
      simp_all
qed

lemma wp_drop_in_room:
  assumes "quiet s" and "\<not> dead (client_in s c)" and "room (client_in s c) = Some r"
    and seat: "py_index (members (room_in s r)) c = Some seat"
    and tell: "\<And>disconnect u. left_seat r c s u \<Longrightarrow>
      wp (tell_room_with (send_with disconnect) r c seat) (\<lambda>_. Q) no_exn u"
    and Q: "\<And>t l. Q t \<Longrightarrow> Q (t\<lparr>lobby_calls := l\<rparr>)"
  shows "wp (drop_client c why) (\<lambda>_. Q) no_exn s"
proof -
  let ?emit = "send_with (drop_upto (length (clients s)))"
  have "wp (case room (client_in t c) of None \<Rightarrow> return () | Some r \<Rightarrow> leave_room_with ?emit r c)
      (\<lambda>_. Q) no_exn t"
    if t: "quiet t" "obj_client t = obj_client (forgotten c s)" "obj_room t = obj_room s"
      "clients t = removeAll c (clients s)" "by_name t = by_name (forgotten c s)"
      "wire t = wire s" "net t = net s" for t
  proof -
    have r: "room (client_in t c) = Some r"
      using t(2) assms(3) by simp
    have "left_seat r c s (unseated r c t)"
      unfolding left_seat_def
      using srv_inv_unseated [OF t(1) r] t(2-7)
      by (auto simp: accepts_def out_stream_def unseated_def)
    then have "wp (tell_room_with ?emit r c seat) (\<lambda>_ t. wp lobby_update (\<lambda>_. Q) no_exn t) no_exn (unseated r c t)"
      by (intro wp_mono [OF tell]) (auto simp: wp_simps Q)
    then show ?thesis
      by (simp add: r leave_room_with_def wp_simps seat_in_def t(3) seat flip: unseated_def)
  qed
  then have "wp (forget_client c why) (\<lambda>_ t. wp
      (case room (client_in t c) of None \<Rightarrow> return () | Some r \<Rightarrow> leave_room_with ?emit r c) (\<lambda>_. Q) no_exn t) no_exn s"
    by (intro wp_mono [OF forget_client_run [OF assms(1,2)]]) simp_all
  then show ?thesis
    using assms(2) by (simp add: drop_client_def drop_body_def wp_simps)
qed

lemma peer_left_message:
  assumes "valid_name n" and "seat < 256"
  shows "peer_left_frame seat (Some n) =
    Inr (10 # T_PEER_LEFT # of_nat seat # map of_nat n @ replicate (8 - length n) 0)"
proof -
  have "length n \<le> 8"
    using assms(1) by (simp add: valid_name_def)
  then show ?thesis
    using assms by (simp add: peer_left_frame_def py_bytes_def pad_opt_def pad_name_valid frame_ok)
qed

lemma drop_ends_match:
  assumes "quiet s" and "\<not> dead (client_in s c)" and "room (client_in s c) = Some r"
    and "started (room_in s r)" and seat: "py_index (members (room_in s r)) c = Some seat"
    and "name (client_in s c) = Some n"
    and acc: "\<forall>m \<in> set (members (room_in s r)) - {c}.
      accepts s m (10 # T_PEER_LEFT # of_nat seat # map of_nat n @ replicate (8 - length n) 0)"
  shows "wp (drop_client c why) (\<lambda>_. disbanded r (remove1 c (members (room_in s r)))
    (10 # T_PEER_LEFT # of_nat seat # map of_nat n @ replicate (8 - length n) 0)
    (set (members (room_in s r)) - {c}) (forgotten c s)) no_exn s"
proof (rule wp_drop_in_room [OF assms(1-3) seat])
  let ?ms = "members (room_in s r)"
  let ?d = "10 # T_PEER_LEFT # of_nat seat # map of_nat n @ replicate (8 - length n) 0"
  have dist: "distinct ?ms" and len: "length ?ms \<le> 4"
    by (rule srv_inv_members [OF assms(1)])+
  have "valid_name n" "seat < 256"
    using srv_inv_names(4) [OF assms(1,6)] py_index_Some [OF seat] len by auto
  note msg = peer_left_message [OF this]
  fix disconnect u
  assume u: "left_seat r c s u"
  have ms: "members (room_in u r) = remove1 c ?ms" "set (remove1 c ?ms) = set ?ms - {c}"
    using u dist by (simp_all add: left_seat_def)
  have "wp (end_match_with (send_with disconnect) r c seat)
      (\<lambda>_. disbanded r (members (room_in u r)) ?d (set (members (room_in u r))) u) no_exn u"
    by (rule wp_end_match_tells) (use u dist acc msg assms(6) in \<open>auto simp: left_seat_def\<close>)
  then have "wp (end_match_with (send_with disconnect) r c seat)
      (\<lambda>_. disbanded r (remove1 c ?ms) ?d (set ?ms - {c}) (forgotten c s)) no_exn u"
    unfolding ms by (rule wp_mono) (simp_all add: disbanded_left_seat [OF u])
  with u assms(4) show "wp (tell_room_with (send_with disconnect) r c seat)
      (\<lambda>_. disbanded r (remove1 c ?ms) ?d (set ?ms - {c}) (forgotten c s)) no_exn u"
    by (simp add: tell_room_with_def wp_reading left_seat_def)
qed (simp add: disbanded_def)

text \<open>A forming room is dissolved when its host leaves, or when only one member would stay.\<close>

lemma drop_dissolves_room:
  assumes "quiet s" and "\<not> dead (client_in s c)" and "room (client_in s c) = Some r"
    and "\<not> started (room_in s r)" and seat: "py_index (members (room_in s r)) c = Some seat"
    and small: "seat = 0 \<or> length (members (room_in s r)) = 2"
    and acc: "\<forall>m \<in> set (members (room_in s r)) - {c}. accepts s m (34 # T_ROOM # 0 # replicate 32 0)"
  shows "wp (drop_client c why) (\<lambda>_. disbanded r (remove1 c (members (room_in s r)))
    (34 # T_ROOM # 0 # replicate 32 0) (set (members (room_in s r)) - {c}) (forgotten c s)) no_exn s"
proof (rule wp_drop_in_room [OF assms(1-3) seat])
  let ?ms = "members (room_in s r)"
  let ?d = "34 # T_ROOM # 0 # replicate 32 0"
  have dist: "distinct ?ms"
    by (rule srv_inv_members [OF assms(1)])
  have c: "c \<in> set ?ms"
    using srv_inv_room_iff [OF assms(1)] assms(3) by blast
  fix disconnect u
  assume u: "left_seat r c s u"
  have ms: "members (room_in u r) = remove1 c ?ms" "set (remove1 c ?ms) = set ?ms - {c}"
    using u dist by (simp_all add: left_seat_def)
  have dis: "wp (dissolve_with (send_with disconnect) r (members (room_in u r)))
      (\<lambda>_. disbanded r (remove1 c ?ms) ?d (set ?ms - {c}) (forgotten c s)) no_exn v"
    if v: "v = u \<or> v = u\<lparr>log_lines := l\<rparr>" for v l
  proof -
    have "accepts v m ?d" if m: "m \<in> set (members (room_in u r))" for m
    proof -
      have "m \<in> set ?ms - {c}"
        using m unfolding ms .
      then have "accepts u m ?d"
        using acc u unfolding left_seat_def by blast
      with v show ?thesis by auto
    qed
    then have "wp (dissolve_with (send_with disconnect) r (members (room_in u r)))
      (\<lambda>_ t. disbanded r (members (room_in v r)) ?d (set (members (room_in u r))) v t \<and>
        (members (room_in u r) = [] \<longrightarrow> (\<forall>m x. accepts t m x = accepts v m x))) no_exn v"
      by (intro wp_dissolve_tells) (use ms dist in \<open>simp_all\<close>)
    then show ?thesis
    proof (rule wp_mono)
      fix x :: unit and t
      assume t: "disbanded r (members (room_in v r)) ?d (set (members (room_in u r))) v t \<and>
        (members (room_in u r) = [] \<longrightarrow> (\<forall>m x. accepts t m x = accepts v m x))"
      then have "disbanded r (remove1 c ?ms) ?d (set ?ms - {c}) u t"
        using v ms by (auto simp: disbanded_def)
      then show "disbanded r (remove1 c ?ms) ?d (set ?ms - {c}) (forgotten c s) t"
        by (rule disbanded_left_seat [OF u])
    qed simp
  qed
  have "length (members (room_in u r)) < 2" if "seat \<noteq> 0"
    using small that ms(1) c by (simp add: length_remove1)
  moreover have "\<not> started (room_in u r)"
    using u assms(4) by (simp add: left_seat_def)
  ultimately show "wp (tell_room_with (send_with disconnect) r c seat)
      (\<lambda>_. disbanded r (remove1 c ?ms) ?d (set ?ms - {c}) (forgotten c s)) no_exn u"
    using dis [OF disjI1 [OF refl]] dis [OF disjI2 [OF refl]]
    by (simp add: tell_room_with_def wp_reading wp_block_Cons wp_block_Nil wp_log_line)
qed (simp add: disbanded_def)

text \<open>A guest leaving a forming room of three or more reseats the room.\<close>

lemma drop_reseats_room:
  assumes "quiet s" and "\<not> dead (client_in s c)" and "room (client_in s c) = Some r"
    and "\<not> started (room_in s r)" and seat: "py_index (members (room_in s r)) c = Some seat"
    and "seat \<noteq> 0" and "2 < length (members (room_in s r))"
    and acc: "\<And>m x. m \<in> set (members (room_in s r)) - {c} \<Longrightarrow> length x = 35 \<Longrightarrow> accepts s m x"
  shows "wp (drop_client c why) (\<lambda>_ t. members (room_in t r) = remove1 c (members (room_in s r)) \<and>
    clients t = clients (forgotten c s) \<and>
    (\<forall>m. out_stream t m = out_stream s m @
      (if m \<in> set (members (room_in s r)) - {c} then room_message t r else []))) no_exn s"
proof (rule wp_drop_in_room [OF assms(1-3) seat])
  let ?ms = "members (room_in s r)"
  have dist: "distinct ?ms"
    by (rule srv_inv_members [OF assms(1)])
  fix disconnect u
  assume u: "left_seat r c s u"
  have ms: "members (room_in u r) = remove1 c ?ms" "set (remove1 c ?ms) = set ?ms - {c}"
    using u dist by (simp_all add: left_seat_def)
  have "c \<in> set ?ms"
    using srv_inv_room_iff [OF assms(1)] assms(3) by blast
  then have "\<not> length (members (room_in u r)) < 2"
    using assms(7) ms(1) by (simp add: length_remove1)
  moreover have inv: "srv_inv {} {} {} u"
    by (rule srv_inv_tighten [where r = r]) (use u calculation in \<open>simp_all add: left_seat_def\<close>)
  then have "length (room_message u r) = 35"
    by (rule length_room_message) simp
  then have acc_u: "accepts u m (room_message u r)" if "m \<in> set (members (room_in u r))" for m
    using that acc u unfolding ms left_seat_def by (metis DiffD2 insertI1)
  let ?t = "deliver_from 0 (\<lambda>_ _. Some (room_message u r)) (members (room_in u r)) u"
  have t: "same_rest u ?t"
    by (rule same_rest_deliver) (simp add: same_rest_def)
  then have "room_message ?t r = room_message u r"
    by (intro room_message_cong) (simp_all add: same_rest_def)
  then have "wp (room_broadcast_with (send_with disconnect) r)
      (\<lambda>_ t. members (room_in t r) = remove1 c ?ms \<and> clients t = clients (forgotten c s) \<and>
        (\<forall>m. out_stream t m = out_stream s m @ (if m \<in> set ?ms - {c} then room_message t r else []))) no_exn u"
    using t u ms dist room_broadcast_delivers [OF inv _ acc_u, of disconnect]
    by (simp add: wp_def same_rest_def out_stream_deliver left_seat_def py_index_mem split: option.split)
  ultimately show "wp (tell_room_with (send_with disconnect) r c seat)
      (\<lambda>_ t. members (room_in t r) = remove1 c ?ms \<and> clients t = clients (forgotten c s) \<and>
        (\<forall>m. out_stream t m = out_stream s m @ (if m \<in> set ?ms - {c} then room_message t r else []))) no_exn u"
    using u assms(4,6) by (simp add: tell_room_with_def wp_reading left_seat_def)
qed simp

end
