(* ===== verification/Crc_Comparator.thy ===== *)
theory Crc_Comparator
  imports Matchmaking_Correct
begin

text \<open>
  The CRC comparator \<open>log_crc\<close> over a whole round: the reports of all seats for one tick, in
  whatever order they arrive, and the bound on its table.
\<close>

subsection \<open>Dictionaries in insertion order\<close>

lemma AList_update_new: "k \<notin> fst ` set al \<Longrightarrow> AList.update k v al = al @ [(k, v)]"
  by (induction al) auto

lemma AList_update_last: "k \<notin> fst ` set al \<Longrightarrow> AList.update k v (al @ [(k, w)]) = al @ [(k, v)]"
  by (induction al) auto

lemma AList_delete_last: "k \<notin> fst ` set al \<Longrightarrow> AList.delete k (al @ [(k, v)]) = al"
  by (auto simp: AList_delete_filter intro!: filter_True)

lemma map_of_last: "k \<notin> fst ` set al \<Longrightarrow> map_of (al @ [(k, v)]) k = Some v"
  by (induction al) auto

subsection \<open>A round of reports\<close>

text \<open>The reports \<open>(seat, crc)\<close> for one tick, one after another, and what they log.\<close>

primrec feed :: "nat \<Rightarrow> (nat \<times> nat) list \<Rightarrow> Room \<Rightarrow> Room \<times> log_record list" where
  "feed tick [] rm = (rm, [])"
| "feed tick (rep # reps) rm =
     (case crc_report (fst rep) tick (snd rep) rm of (rm1, l1) \<Rightarrow>
       (case feed tick reps rm1 of (rm2, l2) \<Rightarrow> (rm2, l1 @ l2)))"

text \<open>The table while the round is open, over the rest \<open>T\<close> of the table; and its outcome.\<close>

definition open_round :: "nat \<Rightarrow> (nat \<times> nat) list \<Rightarrow> (nat \<times> (nat \<times> nat) list) list \<Rightarrow>
    (nat \<times> (nat \<times> nat) list) list" where
  "open_round tick es T = (if es = [] then T else T @ [(tick, es)])"

definition round_outcome :: "nat \<Rightarrow> (nat \<times> nat) list \<Rightarrow> Room \<Rightarrow> Room \<times> log_record list" where
  "round_outcome tick es rm =
     (if \<exists>v. snd ` set es = {v}
      then (rm\<lparr>crc_ok := crc_ok rm + 1\<rparr>,
        if (crc_ok rm + 1) mod 4 = 0 then [LogCrcOk tick (crc_ok rm + 1)] else [])
      else (rm, [LogCrcMismatch tick (sort_key fst es)]))"

lemma one_value: "length (remdups (map snd es)) = 1 \<longleftrightarrow> (\<exists>v. snd ` set es = {v})"
  by (simp add: length_remdups_card_conv card_1_singleton_iff)

lemma crc_report_open:
  assumes "tick \<notin> fst ` set T" and "length T < 64" and "seat \<notin> fst ` set es"
  shows "crc_report seat tick v (rm\<lparr>crc := open_round tick es T\<rparr>) =
    (if length es + 1 < length (members rm)
     then (rm\<lparr>crc := open_round tick (es @ [(seat, v)]) T\<rparr>, [])
     else round_outcome tick (es @ [(seat, v)]) (rm\<lparr>crc := T\<rparr>))"
proof -
  let ?es = "es @ [(seat, v)]"
  have entry: "AList.update seat v (case map_of (open_round tick es T) tick of None \<Rightarrow> [] | Some e \<Rightarrow> e) = ?es"
    using assms(3) map_of_last [OF assms(1)] map_of_eq_None_iff [THEN iffD2, OF assms(1)]
    by (simp add: open_round_def AList_update_new)
  have table: "AList.update tick ?es (open_round tick es T) = T @ [(tick, ?es)]"
    using assms(1) by (simp add: open_round_def AList_update_new AList_update_last)
  let ?r = "rm\<lparr>crc := open_round tick es T\<rparr>"
  have r: "crc ?r = open_round tick es T" "members ?r = members rm" "crc_ok ?r = crc_ok rm"
    "?r\<lparr>crc := x\<rparr> = rm\<lparr>crc := x\<rparr>" "?r\<lparr>crc := x, crc_ok := y\<rparr> = rm\<lparr>crc := x, crc_ok := y\<rparr>"
    "crc_ok (rm\<lparr>crc := x\<rparr>) = crc_ok rm" for x y
    by simp_all
  have small: "(64 < length (T @ [(tick, ?es)])) = False" "length ?es = length es + 1"
    "open_round tick ?es T = T @ [(tick, ?es)]"
    using assms(2) by (simp_all add: open_round_def)
  show ?thesis
    unfolding round_outcome_def r small(3)
    unfolding crc_report_def Let_def r
    unfolding entry table
    unfolding small if_False AList_delete_last [OF assms(1)] one_value
    by (cases "\<exists>w. snd ` set ?es = {w}") (simp_all only: not_True_eq_False not_False_eq_True if_True if_False r)
qed

lemma feed_open:
  assumes "tick \<notin> fst ` set T" and "length T < 64"
  shows "reps \<noteq> [] \<Longrightarrow> distinct (map fst (es @ reps)) \<Longrightarrow>
    length es + length reps = length (members rm) \<Longrightarrow>
    feed tick reps (rm\<lparr>crc := open_round tick es T\<rparr>) = round_outcome tick (es @ reps) (rm\<lparr>crc := T\<rparr>)"
proof (induction reps arbitrary: es)
  case (Cons rep reps)
  have new: "fst rep \<notin> fst ` set es"
    using Cons.prems(2) by auto
  show ?case
  proof (cases "reps = []")
    case True
    with Cons.prems(3) show ?thesis
      by (simp add: crc_report_open [OF assms new] split: prod.split)
  next
    case False
    have "feed tick reps (rm\<lparr>crc := open_round tick (es @ [rep]) T\<rparr>) =
        round_outcome tick ((es @ [rep]) @ reps) (rm\<lparr>crc := T\<rparr>)"
      using False Cons.prems by (intro Cons.IH) simp_all
    with False Cons.prems(3) show ?thesis
      by (simp add: crc_report_open [OF assms new] split: prod.split) (cases reps; simp)
  qed
qed simp

text \<open>C14: the CRC comparator is exact: when every seat of a match of any size reports once for a
  tick, in any order, while fewer than 64 other ticks are open, the round counts as verified if and
  only if all reported CRCs are equal (logging every fourth), and otherwise exactly one mismatch is
  logged, with every seat's value; the round leaves nothing behind in the table.\<close>

theorem crc_round_is_exact:
  assumes "distinct (map fst reps)" and "length reps = length (members rm)" and "reps \<noteq> []"
    and "tick \<notin> fst ` set (crc rm)" and "length (crc rm) < 64"
  shows "feed tick reps rm =
    (if \<exists>v. snd ` set reps = {v}
     then (rm\<lparr>crc_ok := crc_ok rm + 1\<rparr>,
       if (crc_ok rm + 1) mod 4 = 0 then [LogCrcOk tick (crc_ok rm + 1)] else [])
     else (rm, [LogCrcMismatch tick (sort_key fst reps)]))"
  using feed_open [OF assms(4,5,3), of "[]" rm] assms(1,2)
  by (simp add: open_round_def round_outcome_def)

theorem crc_round_is_exact_witness:
  "feed 16 [(1, 5), (0, 5)] (no_Room\<lparr>members := [7, 9]\<rparr>) = (no_Room\<lparr>members := [7, 9], crc_ok := 1\<rparr>, []) \<and>
   feed 16 [(1, 5), (0, 6)] (no_Room\<lparr>members := [7, 9]\<rparr>) =
     (no_Room\<lparr>members := [7, 9]\<rparr>, [LogCrcMismatch 16 [(0, 6), (1, 5)]])"
  using crc_round_is_exact [of "[(1, 5), (0, 5)]" "no_Room\<lparr>members := [7, 9]\<rparr>" 16]
    crc_round_is_exact [of "[(1, 5), (0, 6)]" "no_Room\<lparr>members := [7, 9]\<rparr>" 16]
  by (simp add: no_Room_def doubleton_eq_iff)

text \<open>The comparator's table is bounded whatever is reported, also for seats and ticks that do
  not exist: a table of at most 64 distinct ticks stays one.\<close>

theorem crc_table_bounded:
  assumes "length (crc rm) \<le> 64" and "distinct (map fst (crc rm))"
  shows "length (crc (fst (crc_report seat tick v rm))) \<le> 64 \<and>
    distinct (map fst (crc (fst (crc_report seat tick v rm))))"
proof -
  have upd: "length (AList.update tick e T) \<le> Suc (length T)" for e and T :: "(nat \<times> (nat \<times> nat) list) list"
    by (induction T) auto
  have del: "length (AList.delete k T) < length T" if "k \<in> fst ` set T" for k and T :: "(nat \<times> (nat \<times> nat) list) list"
    using that by (auto simp: AList_delete_filter intro!: length_filter_less)
  define T where "T = AList.update tick (AList.update seat v
    (case map_of (crc rm) tick of None \<Rightarrow> [] | Some e \<Rightarrow> e)) (crc rm)"
  define T' where "T' = (if 64 < length T then AList.delete (Min (set (map fst T))) T else T)"
  have T: "length T \<le> 65" "distinct (map fst T)"
    using upd order_trans [OF upd] assms by (simp_all add: T_def AList.distinct_update)
  have "Min (set (map fst T)) \<in> fst ` set T" if "64 < length T"
    using that Min_in [of "set (map fst T)"] by fastforce
  then have T': "length T' \<le> 64" "distinct (map fst T')"
    using T del [of "Min (set (map fst T))" T] by (auto simp: T'_def AList.distinct_delete)
  have "length (AList.delete tick T') \<le> 64"
    using T'(1) by (simp add: AList_delete_filter le_trans [OF length_filter_le])
  moreover have "crc (fst (crc_report seat tick v rm)) = T' \<or>
      crc (fst (crc_report seat tick v rm)) = AList.delete tick T'"
    unfolding crc_report_def Let_def T_def [symmetric] T'_def [symmetric] by simp
  ultimately show ?thesis
    using T' AList.distinct_delete by auto
qed

theorem crc_table_bounded_witness:
  "length (crc (fst (crc_report 1 32 7 (no_Room\<lparr>crc := [(16, [(0, 5)])]\<rparr>)))) \<le> 64"
  using crc_table_bounded [of "no_Room\<lparr>crc := [(16, [(0, 5)])]\<rparr>" 1 32 7] by simp

end
