(* ===== verification/Relay_Loop.thy ===== *)
theory Relay_Loop
  imports Matchmaking_Correct
begin

text \<open>
  The event loop of \<open>Server\<close>: \<open>accept\<close>, \<open>service\<close> with the frame reassembly, \<open>sweep\<close>,
  \<open>log_stats\<close> and one pass of \<open>run\<close>, as a step relation with its reachable states.
\<close>

subsection \<open>Reading from a client\<close>

text \<open>One answer of \<open>sock.recv(4096)\<close>; no bytes at all means the peer closed.\<close>

datatype recv_answer = Received bytes | RecvWouldBlock | RecvFailed

text \<open>
  The \<open>while True\<close> loop of \<open>service\<close>. Every round that goes on takes at least one byte off
  the buffer, so its length is enough as a budget.
\<close>

definition handle_guarded :: "cid \<Rightarrow> byte \<Rightarrow> bytes \<Rightarrow> bool srv" where
  "handle_guarded c ftype payload =
     catch (bind (handle c ftype payload) (\<lambda>_. return True))
       (\<lambda>e. case e of
          ProtocolError pe \<Rightarrow> bind (drop_client c (ProtocolViolation pe)) (\<lambda>_. return False)
        | _ \<Rightarrow> raise e)"

primrec rx_loop :: "nat \<Rightarrow> cid \<Rightarrow> unit srv" where
  "rx_loop 0 c = raise Stuck"
| "rx_loop (Suc n) c = reading (\<lambda>s.
     case next_frame (rx (client_in s c)) of
       Incomplete \<Rightarrow> return ()
     | BadLength l \<Rightarrow> drop_client c (BadFrameLength l)
     | Frame ftype payload rest \<Rightarrow> block [
         upd_client c (\<lambda>x. x\<lparr>rx := rest\<rparr>),
         bind (handle_guarded c ftype payload) (\<lambda>go_on.
           reading (\<lambda>s. only_if (go_on \<and> \<not> dead (client_in s c)) (rx_loop n c)))])"

definition service :: "cid \<Rightarrow> recv_answer \<Rightarrow> unit srv" where
  "service c answer =
     (case answer of
        RecvWouldBlock \<Rightarrow> return ()
      | RecvFailed \<Rightarrow> drop_client c RecvError
      | Received data \<Rightarrow>
          if data = [] then drop_client c Closed
          else block [
            upd_client c (\<lambda>x. x\<lparr>rx := rx x @ data\<rparr>),
            reading (\<lambda>s. rx_loop (Suc (length (rx (client_in s c)))) c)])"

subsection \<open>Connections\<close>

definition count_rejection :: "Server \<Rightarrow> Server" where
  "count_rejection s = s\<lparr>stats := (stats s)
     \<lparr>connection_limit_rejections := connection_limit_rejections (stats s) + 1\<rparr>\<rparr>"

definition from_host :: "Server \<Rightarrow> nat \<Rightarrow> nat" where
  "from_host s host = length (filter (\<lambda>c. fst (sock_addr (client_in s c)) = host) (clients s))"

text \<open>A new \<open>Client\<close>, in the set and registered with the selector for reading.\<close>

definition connected :: "addr \<Rightarrow> rat \<Rightarrow> Server \<Rightarrow> Server" where
  "connected a now s = s\<lparr>obj_client := (obj_client s)(next_client s := new_Client a now),
     clients := clients s @ [next_client s], next_client := next_client s + 1,
     sel_write := (sel_write s)(next_client s := False)\<rparr>"

text \<open>\<open>accept\<close>, once \<open>srv.accept()\<close> has returned a socket from address \<open>a\<close>.\<close>

definition accept :: "addr \<Rightarrow> rat \<Rightarrow> unit srv" where
  "accept a now = reading (\<lambda>s.
     if MAX_CLIENTS \<le> length (clients s) then block [
       modify count_rejection,
       log_line (\<lambda>s. LogReject a (length (clients s)))]
     else if MAX_CONNECTIONS_PER_IP \<le> from_host s (fst a) then block [
       modify count_rejection,
       log_line (\<lambda>_. LogRejectIP a (from_host s (fst a)))]
     else block [
       modify (connected a now),
       log_line (\<lambda>_. LogConnect a)])"

definition count_hello_timeout :: "Server \<Rightarrow> Server" where
  "count_hello_timeout s = s\<lparr>stats := (stats s)\<lparr>hello_timeouts := hello_timeouts (stats s) + 1\<rparr>\<rparr>"

text \<open>\<open>enum\<close> is the order in which \<open>list(self.clients)\<close> enumerates the set.\<close>

definition sweep :: "(cid list \<Rightarrow> cid list) \<Rightarrow> rat \<Rightarrow> unit srv" where
  "sweep enum now = reading (\<lambda>s. for_each (enum (clients s)) (\<lambda>c. reading (\<lambda>s.
     only_if (name (client_in s c) = None \<and> HELLO_TIMEOUT < now - connected_at (client_in s c)) (block [
       modify count_hello_timeout,
       drop_client c NoHello]))))"

text \<open>\<open>log_stats\<close>; \<open>failures\<close> is the publisher's count of failed posts (0 without a publisher).\<close>

definition log_stats :: "nat \<Rightarrow> unit srv" where
  "log_stats failures = reading (\<lambda>s.
     let counts = (stats s, failures) in
     if counts = last_stats s then return ()
     else block [
       modify (\<lambda>s. s\<lparr>last_stats := counts\<rparr>),
       log_line (\<lambda>s. LogStats (length (clients s))
         (length (filter (\<lambda>c. name (client_in s c) = None) (clients s))))])"

subsection \<open>One pass of the loop\<close>

text \<open>
  What \<open>select\<close> and the calls on the ready sockets report: a connection (or \<open>None\<close> where
  \<open>srv.accept()\<close> itself raises), or a client that is ready to write, to read, or both.
\<close>

datatype event =
    Connecting "addr option" rat
  | Ready cid bool "recv_answer option"

definition serve_client :: "cid \<Rightarrow> bool \<Rightarrow> recv_answer option \<Rightarrow> unit srv" where
  "serve_client c writable readable =
     catch (block [
         reading (\<lambda>s. only_if (writable \<and> \<not> dead (client_in s c)) (flush c)),
         reading (\<lambda>s. case readable of
             None \<Rightarrow> return ()
           | Some answer \<Rightarrow> only_if (\<not> dead (client_in s c)) (service c answer))])
       (\<lambda>e. block [
         log_line (\<lambda>s. LogUnexpected (repr_Client (client_in s c)) e),
         drop_client c InternalError])"

definition serve :: "event \<Rightarrow> unit srv" where
  "serve ev =
     (case ev of
        Connecting None _ \<Rightarrow> raise (Py OSError)
      | Connecting (Some a) t \<Rightarrow> accept a t
      | Ready c w r \<Rightarrow> serve_client c w r)"

text \<open>The locals \<open>last_sweep\<close> and \<open>last_stats\<close> of \<open>run\<close> are passed and returned.\<close>

record timers =
  last_sweep :: rat
  last_stats_at :: rat

definition STATS_INTERVAL :: rat where "STATS_INTERVAL = 60"

definition run_pass ::
  "(cid list \<Rightarrow> cid list) \<Rightarrow> timers \<Rightarrow> event list \<Rightarrow> rat \<Rightarrow> nat \<Rightarrow> timers srv" where
  "run_pass enum tm evs now failures =
     bind (block [
       for_each evs serve,
       only_if (1 \<le> now - last_sweep tm) (sweep enum now),
       only_if (STATS_INTERVAL \<le> now - last_stats_at tm) (log_stats failures)])
     (\<lambda>_. return \<lparr>last_sweep = (if 1 \<le> now - last_sweep tm then now else last_sweep tm),
       last_stats_at = (if STATS_INTERVAL \<le> now - last_stats_at tm then now else last_stats_at tm)\<rparr>)"

text \<open>
  The states of the server between two passes, for a given configuration. The environment
  is arbitrary: the scripts of the sockets and of the random generator, the events of each
  pass, the clock, the enumeration of the client set.
\<close>

inductive reachable :: "int \<Rightarrow> int \<Rightarrow> bool \<Rightarrow> Server \<Rightarrow> bool" for d ago lob where
  boot: "reachable d ago lob (new_Server d ago lob answers rnd)"
| pass: "reachable d ago lob s \<Longrightarrow> (\<And>cs. set (enum cs) = set cs) \<Longrightarrow>
    run_pass enum tm evs now failures s = (Inr tm', s') \<Longrightarrow> reachable d ago lob s'"

end
