(* ===== verification/Relay_Loop_Correct.thy ===== *)
theory Relay_Loop_Correct
  imports Relay_Loop
begin

text \<open>
  The invariant of the event loop and its preservation by \<open>service\<close>, \<open>accept\<close>, \<open>sweep\<close>
  and a whole pass of \<open>run\<close>: between two passes the server state is well-formed, the
  connection limits hold, and no complete or malformed frame waits in a receive buffer.
\<close>

subsection \<open>The loop invariant\<close>

definition limits_ok :: "Server \<Rightarrow> bool" where
  "limits_ok s \<longleftrightarrow> length (clients s) \<le> MAX_CLIENTS \<and>
     (\<forall>host. from_host s host \<le> MAX_CONNECTIONS_PER_IP)"

definition buffers_ok :: "cid set \<Rightarrow> Server \<Rightarrow> bool" where
  "buffers_ok W s \<longleftrightarrow> (\<forall>c \<in> set (clients s) - W. next_frame (rx (client_in s c)) = Incomplete)"

text \<open>\<open>W\<close> is the client whose receive buffer is being worked on, if any.\<close>

definition loop_inv :: "cid set \<Rightarrow> Server \<Rightarrow> bool" where
  "loop_inv W s \<longleftrightarrow> quiet s \<and> limits_ok s \<and> buffers_ok W s"

abbreviation same_config :: "Server \<Rightarrow> Server \<Rightarrow> bool" where
  "same_config s s' \<equiv> delay s' = delay s \<and> auto_go s' = auto_go s \<and>
     lobby_enabled s' = lobby_enabled s"

abbreviation keeps_loop :: "Server \<Rightarrow> 'a \<Rightarrow> Server \<Rightarrow> bool" where
  "keeps_loop s \<equiv> \<lambda>_ s'. loop_inv {} s' \<and> same_config s s'"

text \<open>What may leave \<open>service\<close>: the exception of a configured delay that is no byte.\<close>

definition loop_error :: "cid \<Rightarrow> Server \<Rightarrow> exn \<Rightarrow> Server \<Rightarrow> bool" where
  "loop_error c s e s' \<longleftrightarrow> e = Py ValueError \<and> \<not> (0 \<le> delay s \<and> delay s < 256) \<and>
     loop_inv {c} s' \<and> same_config s s'"

lemma loop_inv_quiet: "loop_inv W s \<Longrightarrow> quiet s"
  by (simp add: loop_inv_def)

lemma loop_inv_mono: "loop_inv W s \<Longrightarrow> W \<subseteq> W' \<Longrightarrow> loop_inv W' s"
  by (auto simp: loop_inv_def buffers_ok_def)

lemma from_host_kept:
  assumes "conns_kept s s'"
  shows "from_host s' h \<le> from_host s h"
proof -
  obtain P where "clients s' = filter P (clients s)"
    using assms by (auto simp: conns_kept_def sublist_of_def)
  moreover have "sock_addr (client_in s' c) = sock_addr (client_in s c)" for c
    using assms by (simp add: conns_kept_def)
  moreover have "length (filter A (filter P xs)) \<le> length (filter A xs)" for A and xs :: "cid list"
    by (induction xs) auto
  ultimately show ?thesis
    by (simp add: from_host_def del: filter_filter)
qed

lemma loop_inv_kept:
  assumes "loop_inv W s" and "quiet s'" and "conns_kept s s'"
  shows "loop_inv W s'"
proof -
  have "set (clients s') \<subseteq> set (clients s)" "length (clients s') \<le> length (clients s)"
    "rx (client_in s' c) = rx (client_in s c)" for c
    using assms(3) by (auto simp: conns_kept_def dest: sublist_of_subset sublist_of_length)
  then show ?thesis
    using assms(1,2) order_trans [OF from_host_kept [OF assms(3)]]
    by (auto simp: loop_inv_def limits_ok_def buffers_ok_def subset_iff)
qed

lemma loop_inv_same_config: "conns_kept s s' \<Longrightarrow> same_config s s'"
  by (simp add: conns_kept_def)

lemma loop_inv_evolves:
  "loop_inv W s \<Longrightarrow> quiet s' \<Longrightarrow> evolves s s' \<Longrightarrow> loop_inv W s' \<and> same_config s s'"
  using loop_inv_kept loop_inv_same_config conns_kept_evolves by blast

lemma loop_inv_dead:
  assumes "loop_inv {c} s" and "dead (client_in s c)"
  shows "loop_inv {} s"
  using assms srv_inv_clients(2) [OF loop_inv_quiet [OF assms(1)], of c]
  by (auto simp: loop_inv_def buffers_ok_def)

lemma loop_inv_log [simp]:
  "loop_inv W (s\<lparr>log_lines := l\<rparr>) = loop_inv W s" "loop_inv W (s\<lparr>stats := st\<rparr>) = loop_inv W s"
  "loop_inv W (s\<lparr>last_stats := ls\<rparr>) = loop_inv W s"
  by (simp_all add: loop_inv_def limits_ok_def from_host_def buffers_ok_def)

lemma loop_inv_set_rx:
  assumes "loop_inv {c} s" shows "loop_inv {c} (set_client c (\<lambda>x. x\<lparr>rx := f x\<rparr>) s)"
proof -
  let ?t = "set_client c (\<lambda>x. x\<lparr>rx := f x\<rparr>) s"
  have "clients_ok ?t = clients_ok s" "rooms_ok {} {} ?t = rooms_ok {} {} s"
    "names_ok ?t = names_ok s" "fresh_ok ?t = fresh_ok s"
    by (rule ok_congs; simp)+
  moreover have same: "tx (client_in ?t d) = tx (client_in s d)"
    "sock_addr (client_in ?t d) = sock_addr (client_in s d)" for d
    by simp_all
  then have "events_ok {} ?t = events_ok {} s" "limits_ok ?t = limits_ok s"
    by (simp_all add: events_ok_def limits_ok_def from_host_def del: client_in_set_client)
  ultimately show ?thesis
    using assms by (auto simp: loop_inv_def srv_inv_def buffers_ok_def)
qed

lemma loop_inv_done:
  "loop_inv {c} s \<Longrightarrow> next_frame (rx (client_in s c)) = Incomplete \<Longrightarrow> loop_inv {} s"
  by (auto simp: loop_inv_def buffers_ok_def)

lemma drop_loop_ok:
  assumes "loop_inv {c} s"
  shows "wp (drop_client c why) (keeps_loop s) E s"
proof (rule wp_mono [OF drop_client_ok])
  show "srv_inv {} {} {c} s"
    by (rule srv_inv_mono [OF loop_inv_quiet [OF assms]]) auto
  fix x :: unit and s'
  assume "quiet s' \<and> evolves s s' \<and> dead (client_in s' c)"
  then show "loop_inv {} s' \<and> same_config s s'"
    using loop_inv_dead loop_inv_kept [OF assms] conns_kept_evolves
      loop_inv_same_config by blast
qed simp

subsection \<open>Reading and handling frames\<close>

lemma srv_inv_live_next: "quiet s \<Longrightarrow> \<not> dead (client_in s c) \<Longrightarrow> c < next_client s"
  by (auto simp: srv_inv_def fresh_ok_def not_less [symmetric])

lemma next_frame_payload: "next_frame a = Frame t p r \<Longrightarrow> length p \<le> 254"
  by (simp add: next_frame_Frame)

lemma handle_guarded_ok:
  assumes "loop_inv {c} s" and "c < next_client s" and "length payload \<le> 254"
  shows "wp (handle_guarded c ftype payload)
    (\<lambda>go_on s'. same_config s s' \<and> rx (client_in s' c) = rx (client_in s c) \<and>
      (if go_on then loop_inv {c} s' else loop_inv {} s')) (loop_error c s) s"
proof -
  let ?Q = "\<lambda>go_on s'. same_config s s' \<and> rx (client_in s' c) = rx (client_in s c) \<and>
      (if go_on then loop_inv {c} s' else loop_inv {} s')"
  have kick: "wp (bind (drop_client c why) (\<lambda>_. return False)) ?Q (loop_error c s) t"
    if t: "quiet t" "conns_kept s t" for t why
    unfolding wp_bind wp_return
  proof (rule wp_mono [OF drop_client_ok])
    show "srv_inv {} {} {c} t"
      by (rule srv_inv_mono [OF t(1)]) auto
    fix x :: unit and u
    assume u: "quiet u \<and> evolves t u \<and> dead (client_in u c)"
    then have "conns_kept s u"
      using t(2) conns_kept_trans by blast
    with u show "same_config s u \<and> rx (client_in u c) = rx (client_in s c) \<and>
        (if False then loop_inv {c} u else loop_inv {} u)"
      using loop_inv_dead loop_inv_kept [OF assms(1)] by (auto simp: conns_kept_def)
  qed simp
  show ?thesis
    unfolding handle_guarded_def wp_catch wp_bind wp_return
  proof (rule wp_mono [OF handle_ok [OF loop_inv_quiet [OF assms(1)] assms(2,3)]])
    fix x :: unit and t
    assume "quiet t \<and> conns_kept s t"
    then show "?Q True t"
      using loop_inv_kept [OF assms(1)] by (simp add: conns_kept_def)
  next
    fix e t
    assume e: "handler_error s e t"
    then have t: "quiet t" "conns_kept s t"
      by (simp_all add: handler_error_def)
    from e consider pe where "e = ProtocolError pe"
      | "e = Py ValueError" "\<not> (0 \<le> delay s \<and> delay s < 256)"
      unfolding handler_error_def by blast
    then show "wp (case e of ProtocolError pe \<Rightarrow>
          bind (drop_client c (ProtocolViolation pe)) (\<lambda>_. return False) | _ \<Rightarrow> raise e)
        ?Q (loop_error c s) t"
    proof cases
      case 1
      with kick [OF t] show ?thesis by simp
    next
      case 2
      with t loop_inv_kept [OF assms(1)] loop_inv_same_config show ?thesis
        by (auto simp: wp_raise loop_error_def)
    qed
  qed
qed

text \<open>Enough budget: every frame shortens the buffer, so \<open>rx_loop\<close> never ends \<open>Stuck\<close>.\<close>

lemma rx_loop_ok:
  assumes "loop_inv {c} s" and "\<not> dead (client_in s c)" and "length (rx (client_in s c)) < n"
  shows "wp (rx_loop n c) (keeps_loop s) (loop_error c s) s"
  using assms
proof (induction n arbitrary: s)
  case (Suc n)
  let ?a = "rx (client_in s c)"
  show ?case
  proof (cases "next_frame ?a")
    case Incomplete
    with loop_inv_done [OF Suc.prems(1)] show ?thesis
      by (simp add: wp_simps)
  next
    case (BadLength l)
    with drop_loop_ok [OF Suc.prems(1)] show ?thesis
      by (simp add: wp_simps)
  next
    case (Frame t p r)
    let ?t = "set_client c (\<lambda>x. x\<lparr>rx := r\<rparr>) s"
    have t: "loop_inv {c} ?t" "same_config s ?t"
      using loop_inv_set_rx [OF Suc.prems(1)] by simp_all
    have next': "c < next_client ?t"
      using srv_inv_live_next [OF loop_inv_quiet [OF Suc.prems(1)] Suc.prems(2)] by simp
    have "wp (reading (\<lambda>s. only_if (go_on \<and> \<not> dead (client_in s c)) (rx_loop n c)))
        (keeps_loop s) (loop_error c s) u"
      if u: "same_config ?t u" "rx (client_in u c) = rx (client_in ?t c)"
        "if go_on then loop_inv {c} u else loop_inv {} u" for go_on u
    proof (cases "go_on \<and> \<not> dead (client_in u c)")
      case True
      have "length (rx (client_in u c)) < n"
        using u(2) srv_scan.scan_shrinks [OF Frame] Suc.prems(3) by simp
      with True u have "wp (rx_loop n c) (keeps_loop u) (loop_error c u) u"
        by (intro Suc.IH) auto
      then have "wp (rx_loop n c) (keeps_loop s) (loop_error c s) u"
        by (rule wp_mono) (use u(1) in \<open>auto simp: loop_error_def\<close>)
      with True show ?thesis by (simp add: wp_simps)
    next
      case False
      then have "loop_inv {} u"
        using u(3) loop_inv_dead by (auto split: if_splits)
      with False u(1) show ?thesis by (auto simp: wp_simps)
    qed
    moreover have "loop_error c ?t = loop_error c s"
      by (simp add: loop_error_def fun_eq_iff)
    ultimately have "wp (bind (handle_guarded c t p) (\<lambda>go_on.
        reading (\<lambda>s. only_if (go_on \<and> \<not> dead (client_in s c)) (rx_loop n c))))
        (keeps_loop s) (loop_error c s) ?t"
      unfolding wp_bind
      by (intro wp_mono [OF handle_guarded_ok [OF t(1) next' next_frame_payload [OF Frame]]]) auto
    with Frame show ?thesis
      by (simp add: wp_reading wp_block_Cons wp_block_Nil wp_modify)
  qed
qed simp

text \<open>
  What the loop does, seen as a whole: it handles the frames that the buffer holds, in order,
  stopping when the client is gone, and then drops a client whose next length byte is bad.
\<close>

primrec consume :: "cid \<Rightarrow> (byte \<times> bytes) list \<Rightarrow> scan_end \<Rightarrow> unit srv" where
  "consume c [] end_of_scan =
     (case end_of_scan of NeedMore _ \<Rightarrow> return () | Malformed l \<Rightarrow> drop_client c (BadFrameLength l))"
| "consume c (f # fs) end_of_scan = block [
     upd_client c (\<lambda>x. x\<lparr>rx := drop (length (snd f) + 2) (rx x)\<rparr>),
     bind (handle_guarded c (fst f) (snd f)) (\<lambda>go_on.
       reading (\<lambda>s. only_if (go_on \<and> \<not> dead (client_in s c)) (consume c fs end_of_scan)))]"

lemma rx_loop_consume:
  assumes "loop_inv {c} s" and "\<not> dead (client_in s c)" and "length (rx (client_in s c)) < n"
  shows "rx_loop n c s = (case scan_all next_frame (rx (client_in s c)) of (fs, e) \<Rightarrow> consume c fs e s)"
  using assms
proof (induction n arbitrary: s)
  case (Suc n)
  let ?a = "rx (client_in s c)"
  show ?case
  proof (cases "next_frame ?a")
    case (Frame t p r)
    let ?t = "set_client c (\<lambda>x. x\<lparr>rx := r\<rparr>) s"
    have a: "?a = of_nat (Suc (length p)) # t # p @ r"
      using Frame by (simp add: next_frame_Frame)
    then have t_eq: "set_client c (\<lambda>x. x\<lparr>rx := drop (length p + 2) (rx x)\<rparr>) s = ?t"
      by (simp add: set_client_def)
    have t: "loop_inv {c} ?t"
      by (rule loop_inv_set_rx [OF Suc.prems(1)])
    have next': "c < next_client ?t"
      using srv_inv_live_next [OF loop_inv_quiet [OF Suc.prems(1)] Suc.prems(2)] by simp
    obtain fs e where fs: "scan_all next_frame r = (fs, e)"
      by fastforce
    have rest: "only_if (go_on \<and> \<not> dead (client_in u c)) (rx_loop n c) u =
        only_if (go_on \<and> \<not> dead (client_in u c)) (consume c fs e) u"
      if "rx (client_in u c) = r" "if go_on then loop_inv {c} u else loop_inv {} u" for go_on u
    proof (cases "go_on \<and> \<not> dead (client_in u c)")
      case True
      then have "rx_loop n c u = (case scan_all next_frame (rx (client_in u c)) of (fs, e) \<Rightarrow> consume c fs e u)"
        using that srv_scan.scan_shrinks [OF Frame] Suc.prems(3) by (intro Suc.IH) auto
      with True that(1) fs show ?thesis by (simp add: only_if_def)
    qed (auto simp: only_if_def)
    have "bind (handle_guarded c t p) (\<lambda>go_on. reading (\<lambda>s. only_if (go_on \<and> \<not> dead (client_in s c)) (rx_loop n c))) ?t =
        bind (handle_guarded c t p) (\<lambda>go_on. reading (\<lambda>s. only_if (go_on \<and> \<not> dead (client_in s c)) (consume c fs e))) ?t"
      using handle_guarded_ok [OF t next' next_frame_payload [OF Frame], of t] rest
      by (auto simp: bind_def reading_def wp_def split: prod.split sum.split)
    then show ?thesis
      using Frame fs t_eq srv_scan.scan_all_unfold [of ?a]
      by (simp add: reading_def block.simps bind_def modify_def)
  qed (subst srv_scan.scan_all_unfold; simp add: reading_def)+
qed simp

lemma service_ok:
  assumes "loop_inv {} s" and "\<not> dead (client_in s c)"
  shows "wp (service c answer) (keeps_loop s) (loop_error c s) s"
proof -
  have c: "loop_inv {c} s"
    by (rule loop_inv_mono [OF assms(1)]) auto
  let ?t = "\<lambda>d. set_client c (\<lambda>x. x\<lparr>rx := rx x @ d\<rparr>) s"
  have "wp (rx_loop (Suc (length (rx (client_in (?t d) c)))) c) (keeps_loop s) (loop_error c s) (?t d)" for d
  proof -
    have "wp (rx_loop (Suc (length (rx (client_in (?t d) c)))) c)
        (keeps_loop (?t d)) (loop_error c (?t d)) (?t d)"
      using assms(2) loop_inv_set_rx [OF c] by (intro rx_loop_ok) auto
    then show ?thesis
      by (rule wp_mono) (auto simp: loop_error_def)
  qed
  then show ?thesis
    using assms drop_loop_ok [OF c]
    by (auto simp: service_def wp_reading wp_return wp_block_Cons wp_block_Nil wp_modify
        simp del: rx_loop.simps split: recv_answer.split)
qed

lemma serve_client_ok:
  assumes "loop_inv {} s"
  shows "wp (serve_client c w r) (keeps_loop s) no_exn s"
proof -
  let ?h = "\<lambda>e. block [log_line (\<lambda>s. LogUnexpected (repr_Client (client_in s c)) e),
         drop_client c InternalError]"
  have recover: "wp (?h e) (keeps_loop s) no_exn t" if "loop_error c s e t" for e t
  proof -
    have t: "loop_inv {c} (t\<lparr>log_lines := l\<rparr>)" "same_config s t" for l
      using that by (simp_all add: loop_error_def)
    have "wp (drop_client c InternalError) (keeps_loop s) no_exn (t\<lparr>log_lines := l\<rparr>)" for l
      by (rule wp_mono [OF drop_loop_ok [OF t(1)]]) (use t(2) in auto)
    then show ?thesis
      by (simp add: wp_block_Cons wp_block_Nil wp_log_line)
  qed
  have read: "wp (case r of None \<Rightarrow> return ()
        | Some answer \<Rightarrow> only_if (\<not> dead (client_in t c)) (service c answer))
      (keeps_loop s) (loop_error c s) t" if t: "loop_inv {} t" "same_config s t" for t
  proof -
    have "wp (service c answer) (keeps_loop s) (loop_error c s) t"
      if "\<not> dead (client_in t c)" for answer
      by (rule wp_mono [OF service_ok [OF t(1) that]]) (use t(2) in \<open>auto simp: loop_error_def\<close>)
    with t show ?thesis
      by (auto simp: wp_return wp_only_if split: option.split)
  qed
  have out: "wp (flush c) (keeps_loop s) (loop_error c s) s"
    by (rule wp_mono [OF flush_keeps [OF srv_inv_mono [OF loop_inv_quiet [OF assms]]]])
      (use loop_inv_evolves [OF assms] in auto)
  have "wp (only_if (w \<and> \<not> dead (client_in s c)) (flush c)) (keeps_loop s) (loop_error c s) s"
    using out assms by (simp add: wp_only_if)
  then have "wp (only_if (w \<and> \<not> dead (client_in s c)) (flush c))
      (\<lambda>_ t. wp (case r of None \<Rightarrow> return ()
        | Some answer \<Rightarrow> only_if (\<not> dead (client_in t c)) (service c answer))
        (keeps_loop s) (\<lambda>e u. wp (?h e) (keeps_loop s) no_exn u) t)
      (\<lambda>e u. wp (?h e) (keeps_loop s) no_exn u) s"
    by (rule wp_mono) (auto intro!: recover wp_mono [OF read])
  then show ?thesis
    by (simp add: serve_client_def wp_catch wp_block_Cons wp_block_Nil wp_reading
        cong: option.case_cong)
qed

subsection \<open>Connections and timers\<close>

lemma connected_fields [simp]:
  "clients (connected a now s) = clients s @ [next_client s]"
  "client_in (connected a now s) c = (if c = next_client s then new_Client a now else client_in s c)"
  "obj_room (connected a now s) = obj_room s" "by_name (connected a now s) = by_name s"
  "sel_write (connected a now s) = (sel_write s)(next_client s := False)"
  "next_room (connected a now s) = next_room s"
  "next_client (connected a now s) = Suc (next_client s)"
  "delay (connected a now s) = delay s" "auto_go (connected a now s) = auto_go s"
  "lobby_enabled (connected a now s) = lobby_enabled s"
  by (simp_all add: connected_def)

lemma new_Client_fields [simp]:
  "rx (new_Client a now) = []" "tx (new_Client a now) = []" "name (new_Client a now) = None"
  "room (new_Client a now) = None" "dead (new_Client a now) = False"
  "sock_addr (new_Client a now) = a" "connected_at (new_Client a now) = now"
  by (simp_all add: new_Client_def)

text \<open>
  A client that is not created yet is registered nowhere: it is no member of a room, has no
  name, and its socket is not registered for writing.
\<close>

lemma fresh_client:
  assumes "quiet s" and "next_client s \<le> c"
  shows "c \<notin> set (clients s)" and "name (client_in s c) = None" and "room (client_in s c) = None"
    and "(n, c) \<notin> set (by_name s)"
proof -
  have d: "dead (client_in s c)" "name (client_in s c) = None"
    using assms by (auto simp: srv_inv_def fresh_ok_def)
  then show "c \<notin> set (clients s)" "name (client_in s c) = None"
    using srv_inv_clients(2) [OF assms(1)] by auto
  show "room (client_in s c) = None" "(n, c) \<notin> set (by_name s)"
    using d(2) srv_inv_names(2,5) [OF assms(1)] by fastforce+
qed

lemma quiet_connected:
  assumes "quiet s"
  shows "quiet (connected a now s)"
proof -
  note new = fresh_client [OF assms order_refl]
  have same: "room (client_in (connected a now s) c) = room (client_in s c)"
    "name (client_in (connected a now s) c) = name (client_in s c)" for c
    using new by simp_all
  then have "rooms_ok {} {} (connected a now s) = rooms_ok {} {} s"
    by (intro rooms_ok_cong) simp_all
  moreover have "names_ok (connected a now s)"
  proof -
    have "c \<in> set (clients s)" if "c \<in> set (clients s @ [next_client s])"
      "name (client_in s c) = Some n" for c n
      using that new(2) by auto
    moreover have "names_ok s"
      using assms by (simp add: srv_inv_def)
    ultimately show ?thesis
      unfolding names_ok_def same connected_fields(1,4) by blast
  qed
  moreover have "clients_ok (connected a now s)" "events_ok {} (connected a now s)"
    "fresh_ok (connected a now s)"
    using assms new by (auto simp: srv_inv_def clients_ok_def events_ok_def fresh_ok_def)
  ultimately show ?thesis
    using assms by (simp add: srv_inv_def)
qed

lemma accept_ok:
  assumes "loop_inv {} s"
  shows "wp (accept a now) (keeps_loop s) no_exn s"
proof -
  have q: "quiet s" by (rule loop_inv_quiet [OF assms])
  have "from_host (connected a now s) h = from_host s h + (if fst a = h then 1 else 0)" for h
  proof -
    have "filter (\<lambda>c. fst (sock_addr (client_in (connected a now s) c)) = h) (clients s) =
        filter (\<lambda>c. fst (sock_addr (client_in s c)) = h) (clients s)"
      by (rule filter_cong) (use fresh_client(1) [OF q order_refl] in auto)
    then show ?thesis
      by (simp add: from_host_def del: connected_fields(2)) simp
  qed
  then have "limits_ok (connected a now s)" if "length (clients s) < MAX_CLIENTS"
    "from_host s (fst a) < MAX_CONNECTIONS_PER_IP"
    using assms that by (auto simp: loop_inv_def limits_ok_def)
  moreover have "buffers_ok {} (connected a now s)"
    using assms fresh_client(1) [OF q order_refl]
    by (auto simp: loop_inv_def buffers_ok_def next_frame_def)
  ultimately have "loop_inv {} (connected a now s)" if "length (clients s) < MAX_CLIENTS"
    "from_host s (fst a) < MAX_CONNECTIONS_PER_IP"
    using quiet_connected [OF q] that by (simp add: loop_inv_def)
  with assms show ?thesis
    by (simp add: accept_def wp_reading wp_block_Cons wp_block_Nil wp_modify wp_log_line
      count_rejection_def)
qed

text \<open>
  \<open>sweep\<close> drops every client that has not said HELLO in time, whatever the order in which
  the set is enumerated.
\<close>

definition in_time :: "rat \<Rightarrow> Server \<Rightarrow> cid \<Rightarrow> bool" where
  "in_time now s c \<longleftrightarrow> dead (client_in s c) \<or> name (client_in s c) \<noteq> None \<or>
     now - connected_at (client_in s c) \<le> HELLO_TIMEOUT"

lemma in_time_evolves: "in_time now s c \<Longrightarrow> evolves s s' \<Longrightarrow> in_time now s' c"
  using evolves_client_evolves [of s s' c] by (auto simp: in_time_def client_evolves_def)

lemma sweep_ok:
  assumes "loop_inv {} s" and "set (enum (clients s)) = set (clients s)"
  shows "wp (sweep enum now) (\<lambda>_ s'. (loop_inv {} s' \<and> evolves s s') \<and>
    (\<forall>c \<in> set (clients s). in_time now s' c)) no_exn s"
proof -
  have "wp (reading (\<lambda>s. only_if (name (client_in s c) = None \<and>
          HELLO_TIMEOUT < now - connected_at (client_in s c))
        (block [modify count_hello_timeout, drop_client c NoHello])))
      (\<lambda>_ s'. (loop_inv {} s' \<and> evolves s s') \<and> evolves t s' \<and> in_time now s' c) no_exn t"
    if t: "loop_inv {} t" "evolves s t" for c t
  proof -
    have "wp (drop_client c NoHello)
        (\<lambda>_ s'. (loop_inv {} s' \<and> evolves s s') \<and> evolves t s' \<and> in_time now s' c) no_exn
        (count_hello_timeout t)"
    proof (rule wp_mono [OF drop_client_ok])
      show "srv_inv {} {} {c} (count_hello_timeout t)"
        using srv_inv_mono [OF loop_inv_quiet [OF t(1)]] by (simp add: count_hello_timeout_def)
      fix x :: unit and u
      assume u: "quiet u \<and> evolves (count_hello_timeout t) u \<and> dead (client_in u c)"
      then have "evolves t u"
        unfolding count_hello_timeout_def by (blast intro: evolves_trans evolves_other_fields)
      with u t loop_inv_evolves [OF t(1), of u] evolves_trans [OF t(2)]
      show "(loop_inv {} u \<and> evolves s u) \<and> evolves t u \<and> in_time now u c"
        by (simp add: in_time_def)
    qed simp
    with t show ?thesis
      by (auto simp: wp_simps in_time_def)
  qed
  then have "wp (for_each (enum (clients s)) (\<lambda>c. reading (\<lambda>s. only_if (name (client_in s c) = None \<and>
          HELLO_TIMEOUT < now - connected_at (client_in s c))
        (block [modify count_hello_timeout, drop_client c NoHello]))))
      (\<lambda>_ s'. (loop_inv {} s' \<and> evolves s s') \<and> (\<forall>c \<in> set (enum (clients s)). in_time now s' c)) no_exn s"
    by (intro wp_for_each_all [where R = evolves]) (use assms(1) in_time_evolves in auto)
  then show ?thesis
    by (simp add: sweep_def wp_reading assms(2))
qed

lemma log_stats_ok: "loop_inv {} s \<Longrightarrow> wp (log_stats k) (keeps_loop s) no_exn s"
  by (auto simp: log_stats_def wp_reading wp_return wp_block_Cons wp_block_Nil wp_modify
    wp_log_line Let_def)

subsection \<open>A pass of the loop\<close>

text \<open>
  The only exception that leaves a pass is that of \<open>srv.accept()\<close>, which no \<open>try\<close> of
  \<open>run\<close> covers.
\<close>

definition accept_failed :: "event list \<Rightarrow> Server \<Rightarrow> exn \<Rightarrow> Server \<Rightarrow> bool" where
  "accept_failed evs s e s' \<longleftrightarrow> e = Py OSError \<and> (\<exists>t. Connecting None t \<in> set evs) \<and>
     loop_inv {} s' \<and> same_config s s'"

lemma serve_ok:
  assumes "loop_inv {} s" and "ev \<in> set evs"
  shows "wp (serve ev) (keeps_loop s) (accept_failed evs s) s"
proof (cases ev)
  case (Connecting a t)
  show ?thesis
  proof (cases a)
    case None
    with Connecting assms show ?thesis
      by (auto simp: serve_def wp_raise accept_failed_def)
  next
    case (Some b)
    with Connecting show ?thesis
      by (auto simp: serve_def intro: wp_mono [OF accept_ok [OF assms(1)]])
  qed
next
  case (Ready c w r)
  then show ?thesis
    by (auto simp: serve_def intro: wp_mono [OF serve_client_ok [OF assms(1)]])
qed

lemma run_pass_ok:
  assumes "loop_inv {} s" and "\<And>cs. set (enum cs) = set cs"
  shows "wp (run_pass enum tm evs now failures) (keeps_loop s) (accept_failed evs s) s"
proof -
  let ?J = "\<lambda>t. loop_inv {} t \<and> same_config s t"
  have "wp (for_each evs serve) (\<lambda>_. ?J) (accept_failed evs s) t" if "?J t" for t
    using that
  proof (rule wp_for_each [where J = ?J])
    fix ev t
    assume "ev \<in> set evs" and t: "?J t"
    then have "wp (serve ev) (keeps_loop t) (accept_failed evs t) t"
      by (intro serve_ok) auto
    then show "wp (serve ev) (\<lambda>_. ?J) (accept_failed evs s) t"
      by (rule wp_mono) (use t in \<open>auto simp: accept_failed_def\<close>)
  qed
  moreover have "wp (sweep enum now) (\<lambda>_. ?J) (accept_failed evs s) t" if t: "?J t" for t
  proof (rule wp_mono [OF sweep_ok [where enum = enum]])
    show "loop_inv {} t" "set (enum (clients t)) = set (clients t)"
      using t assms(2) by blast+
    fix x :: unit and u
    assume "(loop_inv {} u \<and> evolves t u) \<and> (\<forall>c \<in> set (clients t). in_time now u c)"
    then show "?J u"
      using t loop_inv_same_config [OF conns_kept_evolves, of t u] by simp
  qed simp
  moreover have "wp (log_stats failures) (\<lambda>_. ?J) (accept_failed evs s) t" if t: "?J t" for t
    by (rule wp_mono [OF log_stats_ok]) (use t in simp_all)
  ultimately have "wp (block [for_each evs serve,
      only_if (1 \<le> now - last_sweep tm) (sweep enum now),
      only_if (STATS_INTERVAL \<le> now - last_stats_at tm) (log_stats failures)])
      (\<lambda>_. ?J) (accept_failed evs s) s"
    using assms(1) by (intro wp_block_keeps) (auto intro!: wp_only_if_keeps)
  then show ?thesis
    by (simp add: run_pass_def wp_bind wp_return)
qed

subsection \<open>Reachable states\<close>

inductive_cases run_pass_stepE: "reachable d ago lob s"

lemma loop_inv_new_Server: "loop_inv {} (new_Server d ago lob answers rnd)"
  by (simp add: loop_inv_def limits_ok_def buffers_ok_def inv_defs new_Server_def
    from_host_def no_Client_def no_Room_def MAX_SEATS_def)

text \<open>A reachable state that did not leave through an exception of a pass.\<close>

lemma reachable_loop_inv:
  "reachable d ago lob s \<Longrightarrow>
   loop_inv {} s \<and> delay s = d \<and> auto_go s = ago \<and> lobby_enabled s = lob"
proof (induction rule: reachable.induct)
  case (boot answers rnd)
  show ?case
    using loop_inv_new_Server by (simp add: new_Server_def)
next
  case (pass s enum tm evs now failures tm' s')
  have "wp (run_pass enum tm evs now failures) (keeps_loop s) (accept_failed evs s) s"
    by (rule run_pass_ok) (use pass in auto)
  with pass show ?case by (simp add: wp_def)
qed

lemma reachable_quiet: "reachable d ago lob s \<Longrightarrow> quiet s"
  using reachable_loop_inv loop_inv_quiet by blast

end
