(* ===== verification/Execution.thy ===== *)
theory Execution
  imports Departure Crc_Comparator Relay_Loop_Correct
begin

text \<open>
  Running the model on concrete inputs. \<open>run_simps\<close> executes a program that is applied to a
  state, \<open>run_congs\<close> keep the simplifier out of programs that are not running yet, and
  \<open>server_defs\<close> and \<open>value_defs\<close> unfold the operations and data. The examples fix the
  concrete frames and states the theorems are applied at.
\<close>

subsection \<open>Executing programs\<close>

lemma run_simps:
  "return x s = (Inr x, s)" "raise e s = (Inl e, s)"
  "bind m k s = (case m s of (Inl e, s') \<Rightarrow> (Inl e, s') | (Inr x, s') \<Rightarrow> k x s')"
  "reading h s = h s s" "modify g0 s = (Inr (), g0 s)"
  "attempt err r s = (case r of Inl e \<Rightarrow> (Inl (err e), s) | Inr x \<Rightarrow> (Inr x, s))"
  "only_if b p s = (if b then p s else (Inr (), s))"
  "catch m h2 s = (case m s of (Inl e, s') \<Rightarrow> h2 e s' | (Inr x, s') \<Rightarrow> (Inr x, s'))"
  "block [] s = (Inr (), s)"
  "block (p # ps) s = (case p s of (Inl e, s') \<Rightarrow> (Inl e, s') | (Inr x, s') \<Rightarrow> block ps s')"
  "for_each [] f s = (Inr (), s)"
  "for_each (y # ys) f s = (case f y s of (Inl e, s') \<Rightarrow> (Inl e, s') | (Inr x, s') \<Rightarrow> for_each ys f s')"
  "for_live stuck xs g s = for_live_from (length (xs s)) stuck 0 xs g s"
  "for_live_from 0 stuck i xs g s = (if i < length (xs s) then (Inl stuck, s) else (Inr (), s))"
  "for_live_from (Suc n) stuck i xs g s = (if i < length (xs s) then
      (case g i (xs s ! i) s of (Inl e, s') \<Rightarrow> (Inl e, s') | (Inr x, s') \<Rightarrow> for_live_from n stuck (Suc i) xs g s')
     else (Inr (), s))"
  for p :: "('s, 'e, unit) prog" and f :: "'b \<Rightarrow> ('s, 'e, unit) prog"
  by (auto simp: return_def raise_def bind_def reading_def modify_def attempt_def only_if_def catch_def
    block.simps for_each.simps for_live_from.simps for_live_def split: sum.splits prod.splits)

lemma run_congs:
  "s = s' \<Longrightarrow> bind m k s = bind m k s'"
  "s = s' \<Longrightarrow> reading h0 s = reading h0 s'"
  "s = s' \<Longrightarrow> modify h s = modify h s'"
  "s = s' \<Longrightarrow> block ps s = block ps s'"
  "s = s' \<Longrightarrow> catch m h2 s = catch m h2 s'"
  "s = s' \<Longrightarrow> for_live st xs g s = for_live st xs g s'"
  "s = s' \<Longrightarrow> b = b' \<Longrightarrow> only_if b p s = only_if b' p s'"
  "s = s' \<Longrightarrow> n = n' \<Longrightarrow> i = i' \<Longrightarrow> for_live_from n st i xs g s = for_live_from n' st i' xs g s'"
  "s = s' \<Longrightarrow> ys = ys' \<Longrightarrow> for_each ys q s = for_each ys' q s'"
  by simp_all

lemmas server_defs = serve_def serve_client_def accept_def service_def handle_guarded_def handle_def
  on_hello_def on_list_def on_join_def on_go_def relay_def enter_room_def open_room_def evict_holder_def
  drop_old_alias_def log_line_def lobby_update_def send_def send_with_def flush_with_def update_events_def drop_client_def
  drop_body_def forget_client_def leave_room_with_def tell_room_with_def end_match_with_def
  dissolve_with_def room_broadcast_def room_broadcast_with_def start_room_def announce_start_def randrange_def
  log_crc_def connected_def set_name_def set_client_def set_room_def

lemmas value_defs = T_defs RELAY_TYPES_def NAME_CHARS_def PROTO_VER_def MAX_SEATS_def ROSTER_SLOTS_def MAX_TX_BACKLOG_def
  MAX_CLIENTS_def MAX_CONNECTIONS_PER_IP_def HELLO_TIMEOUT_def frame_def pad_name_def wire_name_def valid_name_def
  next_frame_def py_bytes_def encode_ascii_def decode_ascii_replace_def rstrip_def ljust_def
  new_Client_def new_Room_def new_Server_def no_Client_def no_Room_def repr_Client_def room_repr_def
  seat_in_def pad_opt_def roster_def status_byte_def listed_for_def from_host_def count_backlog_drop_def joinable_def
  peer_left_frame_def Let_def

subsection \<open>Concrete frames and clients\<close>

definition name_of :: "nat \<Rightarrow> pystr" where "name_of k = [65 + k, 65 + k]"

definition hello_frame :: "pystr \<Rightarrow> bytes" where
  "hello_frame n = of_nat (length n + 2) # T_HELLO # PROTO_VER # map of_nat n"

definition join_frame :: "pystr \<Rightarrow> bytes" where
  "join_frame n = of_nat (length n + 1) # T_JOIN # map of_nat n"

lemmas exec_simps = run_simps server_defs value_defs name_of_def hello_frame_def join_frame_def

text \<open>
  A run from boot: three consoles connect and say HELLO as AA, BB and CC (\<open>lobby_state\<close>),
  BB and CC join AA (\<open>forming_state\<close>), and AA says GO (\<open>match_state\<close>). No socket takes any
  byte yet, so everything sent is still queued.
\<close>

definition boot_timers :: timers where
  "boot_timers = \<lparr>last_sweep = 0, last_stats_at = 0\<rparr>"

definition boot_state :: Server where
  "boot_state = new_Server 3 0 False (\<lambda>_. []) []"

definition lobby_events :: "event list" where
  "lobby_events =
     [Connecting (Some (1, 1)) 0, Connecting (Some (1, 2)) 0, Connecting (Some (2, 1)) 0,
      Ready 0 False (Some (Received (hello_frame (name_of 0)))),
      Ready 1 False (Some (Received (hello_frame (name_of 1)))),
      Ready 2 False (Some (Received (hello_frame (name_of 2))))]"

definition join_events :: "event list" where
  "join_events =
     [Ready 1 False (Some (Received (join_frame (name_of 0)))),
      Ready 2 False (Some (Received (join_frame (name_of 0))))]"

definition pass_of :: "event list \<Rightarrow> (exn + timers) \<times> Server" where
  "pass_of evs = run_pass id boot_timers evs 0 0 boot_state"

definition lobby_state :: Server where
  "lobby_state = snd (pass_of lobby_events)"

definition forming_state :: Server where
  "forming_state = snd (pass_of (lobby_events @ join_events))"

definition match_state :: Server where
  "match_state = snd (pass_of (lobby_events @ join_events @ [Ready 0 False (Some (Received [1, T_GO]))]))"

text \<open>What the three states have in common, and what tells them apart.\<close>

definition three_consoles :: "rid option \<Rightarrow> cid list \<Rightarrow> bool \<Rightarrow> Server \<Rightarrow> bool" where
  "three_consoles r ms st s \<longleftrightarrow>
     clients s = [0, 1, 2] \<and> by_name s = [(name_of 0, 0), (name_of 1, 1), (name_of 2, 2)] \<and>
     members (room_in s 0) = ms \<and> started (room_in s 0) = st \<and> seed (room_in s 0) < 0x10000 \<and>
     crc (room_in s 0) = [] \<and>
     delay s = 3 \<and> auto_go s = 0 \<and> next_client s = 3 \<and>
     (\<forall>c \<in> {0, 1, 2}. name (client_in s c) = Some (name_of c) \<and> room (client_in s c) = r \<and>
        \<not> dead (client_in s c) \<and> length (tx (client_in s c)) \<le> 300 \<and> net s c = [] \<and>
        rx (client_in s c) = [] \<and> connected_at (client_in s c) = 0)"

lemmas demo_simps = three_consoles_def pass_of_def lobby_events_def join_events_def boot_timers_def
  boot_state_def run_pass_def STATS_INTERVAL_def exec_simps

lemma lobby_run:
  "\<exists>s. pass_of lobby_events = (Inr boot_timers, s) \<and> three_consoles None [] False s"
  by (simp add: demo_simps cong: run_congs)

lemma forming_run:
  "\<exists>s. pass_of (lobby_events @ join_events) = (Inr boot_timers, s) \<and>
     three_consoles (Some 0) [0, 1, 2] False s"
  by (simp add: demo_simps cong: run_congs)

lemma match_run:
  "\<exists>s. pass_of (lobby_events @ join_events @ [Ready 0 False (Some (Received [1, T_GO]))]) =
     (Inr boot_timers, s) \<and> three_consoles (Some 0) [0, 1, 2] True s"
  by (simp add: demo_simps cong: run_congs)

lemma pass_of_reachable: "pass_of evs = (Inr tm, s) \<Longrightarrow> reachable 3 0 False s"
  unfolding pass_of_def boot_state_def
  by (rule reachable.pass [OF reachable.boot]) simp_all

lemma demo_reachable:
  "reachable 3 0 False lobby_state" "reachable 3 0 False forming_state" "reachable 3 0 False match_state"
  using lobby_run forming_run match_run pass_of_reachable
  by (auto simp: lobby_state_def forming_state_def match_state_def)

lemma demo_states:
  "three_consoles None [] False lobby_state"
  "three_consoles (Some 0) [0, 1, 2] False forming_state"
  "three_consoles (Some 0) [0, 1, 2] True match_state"
  using lobby_run forming_run match_run
  by (auto simp: lobby_state_def forming_state_def match_state_def)

end
