(* ===== verification/Server_Properties.thy ===== *)
theory Server_Properties
  imports Execution
begin

text \<open>
  The properties of the relay server, over its reachable states, each with a witness on the
  concrete run of \<open>Execution\<close>.
\<close>

subsection \<open>Well-formedness and limits\<close>

text \<open>C1: in every state the event loop can reach, the rooms, the clients and the name table
  agree: a client points to a room exactly when it is in the room's member list, a room in use
  has two to four distinct members, names are unique, valid and lead to their client, every
  identified connected client is listed, and a socket waits for EVENT_WRITE exactly while output
  is pending.\<close>

theorem reachable_well_formed:
  assumes "reachable d ago lob s"
  shows "(\<forall>c r. room (client_in s c) = Some r \<longleftrightarrow> c \<in> set (members (room_in s r))) \<and>
    (\<forall>r. distinct (members (room_in s r)) \<and> length (members (room_in s r)) \<in> {0, 2, 3, 4}) \<and>
    distinct (map fst (by_name s)) \<and>
    (\<forall>n c. (n, c) \<in> set (by_name s) \<longrightarrow> name (client_in s c) = Some n \<and> valid_name n) \<and>
    (\<forall>c \<in> set (clients s). \<forall>n. name (client_in s c) = Some n \<longrightarrow> (n, c) \<in> set (by_name s)) \<and>
    (\<forall>c \<in> set (clients s). sel_write s c \<longleftrightarrow> tx (client_in s c) \<noteq> [])"
proof -
  have q: "quiet s"
    using assms by (rule reachable_quiet)
  note rooms = srv_inv_room_iff [OF q] srv_inv_members [OF q]
  have "length (members (room_in s r)) \<in> {0, 2, 3, 4}" for r
    using rooms(3,4) [of r] by (auto simp: le_Suc_eq numeral_eq_Suc)
  moreover have "\<forall>c \<in> set (clients s). sel_write s c \<longleftrightarrow> tx (client_in s c) \<noteq> []"
    using q by (simp add: srv_inv_def events_ok_def)
  ultimately show ?thesis
    using rooms(1,2) srv_inv_names [OF q] by blast
qed

theorem reachable_well_formed_witness:
  "reachable 3 0 False match_state \<and> members (room_in match_state 0) = [0, 1, 2] \<and>
   room (client_in match_state 2) = Some 0"
  using reachable_well_formed [OF demo_reachable(3)] demo_states(3)
  by (simp add: three_consoles_def demo_reachable)

text \<open>C2: in every reachable state at most 64 clients are connected, at most 8 from one host; a
  transmit backlog is at most 64 KiB, and a receive buffer holds at most 200 bytes, the start of
  one unfinished frame.\<close>

theorem reachable_bounds:
  assumes "reachable d ago lob s"
  shows "length (clients s) \<le> 64 \<and> (\<forall>host. from_host s host \<le> 8) \<and>
    (\<forall>c. length (tx (client_in s c)) \<le> 65536) \<and>
    (\<forall>c \<in> set (clients s). length (rx (client_in s c)) \<le> 200 \<and>
       next_frame (rx (client_in s c)) = Incomplete)"
  using reachable_loop_inv [OF assms] next_frame_rest_short
  by (auto simp: loop_inv_def limits_ok_def buffers_ok_def srv_inv_def events_ok_def
    MAX_CLIENTS_def MAX_CONNECTIONS_PER_IP_def MAX_TX_BACKLOG_def)

theorem reachable_bounds_witness:
  "clients lobby_state = [0, 1, 2] \<and> length (clients lobby_state) \<le> 64 \<and> from_host lobby_state 1 \<le> 8"
  using reachable_bounds [OF demo_reachable(1)] demo_states(1) by (simp add: three_consoles_def)

subsection \<open>Errors\<close>

text \<open>C5: a handler raises nothing but ProtocolError, which \<open>service\<close> turns into a drop, unless
  the configured input delay is no byte, when a match start raises ValueError.\<close>

theorem handle_raises_only_protocol_errors:
  assumes "reachable d ago lob s" and "c \<in> set (clients s)" and "length payload \<le> 254"
    and "handle c ftype payload s = (Inl e, s')"
  shows "(\<exists>pe. e = ProtocolError pe) \<or> e = Py ValueError \<and> \<not> (0 \<le> d \<and> d < 256)"
proof -
  have "quiet s" "delay s = d"
    using reachable_quiet reachable_loop_inv assms(1) by blast+
  moreover from this have "c < next_client s"
    using assms(2) srv_inv_clients(2) srv_inv_live_next by blast
  ultimately show ?thesis
    using handle_ok [of s c payload ftype] assms(3,4) by (simp add: wp_def handler_error_def)
qed

theorem handle_raises_only_protocol_errors_witness:
  "handle 1 0x55 [] lobby_state = (Inl (ProtocolError (UnknownType 0x55)), lobby_state) \<and>
   ((\<exists>pe. ProtocolError (UnknownType 0x55) = ProtocolError pe) \<or>
     ProtocolError (UnknownType 0x55) = Py ValueError \<and> \<not> (0 \<le> (3::int) \<and> (3::int) < 256))"
proof -
  have run: "handle 1 0x55 [] lobby_state = (Inl (ProtocolError (UnknownType 0x55)), lobby_state)"
    by (simp add: handle_def value_defs raise_def)
  moreover have "1 \<in> set (clients lobby_state)"
    using demo_states(1) by (simp add: three_consoles_def)
  ultimately show ?thesis
    using handle_raises_only_protocol_errors [OF demo_reachable(1) _ _ run] by simp
qed



subsection \<open>Disconnecting\<close>

text \<open>C7: \<open>drop\<close> of a connected client always returns, however many further clients it takes
  down on the way (a failing send drops its client in turn): afterwards the client is dead, not
  connected, has no entry in the name table, sits in no room, and the state is well-formed.\<close>

theorem drop_returns:
  assumes "reachable d ago lob s" and "c \<in> set (clients s)"
  shows "\<exists>s'. drop_client c why s = (Inr (), s') \<and> quiet s' \<and> dead (client_in s' c) \<and>
    c \<notin> set (clients s') \<and> c \<notin> snd ` set (by_name s') \<and>
    (\<forall>r. c \<notin> set (members (room_in s' r))) \<and> set (clients s') \<subseteq> set (clients s)"
proof -
  have q: "quiet s"
    using assms(1) by (rule reachable_quiet)
  have "srv_inv {} {} {c} s"
    by (rule srv_inv_mono [OF q]) auto
  from wp_no_exn_run [OF drop_client_gone [OF this, of why]] obtain s'
    where s': "drop_client c why s = (Inr (), s')" "quiet s'" "evolves s s'" "gone s c s'"
    by auto
  have "\<not> dead (client_in s c)"
    using assms(2) srv_inv_clients(2) [OF q] by blast
  with s'(4) have "dead (client_in s' c)" "room (client_in s' c) = None" "c \<notin> snd ` set (by_name s')"
    by (simp_all add: gone_def)
  with s' show ?thesis
    using srv_inv_clients(2) [OF s'(2)] srv_inv_room_iff [OF s'(2)] evolves_clients_subset
    by (metis empty_iff option.distinct(1))
qed

theorem drop_returns_witness:
  "1 \<in> set (clients match_state) \<and> (\<exists>s'. drop_client 1 Bye match_state = (Inr (), s') \<and>
     dead (client_in s' 1) \<and> (\<forall>r. 1 \<notin> set (members (room_in s' r))))"
  using drop_returns [OF demo_reachable(3), of 1 Bye] demo_states(3)
  by (auto simp: three_consoles_def)

text \<open>C8: output is committed whole: a send to a connected client appends the whole message to the
  client's stream (what the kernel has taken, followed by what is queued), in order, or the client
  is disconnected; nothing that was committed before is changed for anybody.\<close>

theorem send_commits_whole_message:
  assumes "reachable d ago lob s" and "c \<in> set (clients s)"
  shows "\<exists>s'. send c data s = (Inr (), s') \<and>
    (out_stream s' c = out_stream s c @ data \<or> c \<notin> set (clients s')) \<and>
    (\<forall>m. prefix (out_stream s m) (out_stream s' m))"
proof -
  have q: "quiet s"
    using assms(1) by (rule reachable_quiet)
  from wp_no_exn_run [OF send_keeps [OF q, of c data]] obtain s'
    where s': "send c data s = (Inr (), s')" "quiet s'" "evolves s s'"
    by auto
  have "out_stream s' c = out_stream s c @ data \<or> c \<notin> set (clients s')"
  proof (cases "accepts s c data")
    case True
    with s'(1) show ?thesis by (auto simp: send_accepts out_stream_delivered)
  next
    case False
    have "dead (client_in s' c)"
      using send_fails [OF q _ False] assms(2) srv_inv_clients(2) [OF q] s'(1) by (auto simp: wp_def)
    with s'(2) show ?thesis
      using srv_inv_clients(2) by blast
  qed
  with s' evolves_out_stream show ?thesis by blast
qed

text \<open>In the example states every socket is idle, so any short message is accepted.\<close>

lemma demo_accepts:
  assumes "three_consoles r ms st s" and "c \<in> {0, 1, 2}" and "length x \<le> 1000"
  shows "accepts s c x"
proof -
  have "\<not> dead (client_in s c)" "length (tx (client_in s c)) \<le> 300" "net s c = []"
    using assms(1,2) unfolding three_consoles_def by blast+
  with assms(3) show ?thesis
    by (simp add: accepts_idle MAX_TX_BACKLOG_def)
qed

theorem send_commits_whole_message_witness:
  "1 \<in> set (clients match_state) \<and> (\<exists>s'. send 1 [1, 2, 3] match_state = (Inr (), s') \<and>
     (out_stream s' 1 = out_stream match_state 1 @ [1, 2, 3] \<or> 1 \<notin> set (clients s')))"
  using send_commits_whole_message [OF demo_reachable(3), of 1 "[1, 2, 3]"] demo_states(3)
  by (auto simp: three_consoles_def)

subsection \<open>A match\<close>

text \<open>C9: the relay: in a started match, a relayed message of one member reaches every other
  member, unchanged, in one frame behind everything sent to it before, and nobody else; nobody is
  disconnected and no room changes its members.\<close>

theorem relay_reaches_every_other_member:
  assumes "reachable d ago lob s" and "room (client_in s c) = Some r" and "started (room_in s r)"
    and "ftype \<in> RELAY_TYPES" and "length payload \<le> 254"
    and "\<forall>m \<in> set (members (room_in s r)) - {c}.
      accepts s m (of_nat (Suc (length payload)) # ftype # payload)"
  shows "\<exists>s'. handle c ftype payload s = (Inr (), s') \<and> clients s' = clients s \<and>
    (\<forall>q. members (room_in s' q) = members (room_in s q)) \<and>
    (\<forall>m. out_stream s' m = out_stream s m @
      (if m \<in> set (members (room_in s r)) \<and> m \<noteq> c
       then of_nat (Suc (length payload)) # ftype # payload else []))"
proof -
  let ?d = "of_nat (Suc (length payload)) # ftype # payload"
  let ?t = "compared c r ftype payload s"
  let ?u = "deliver_from 0 (\<lambda>_ m. if m = c then None else Some ?d) (members (room_in s r)) ?t"
  have q: "quiet s"
    using assms(1) by (rule reachable_quiet)
  have dist: "distinct (members (room_in s r))"
    by (rule srv_inv_members [OF q])
  have "same_rest ?t ?u"
    by (rule same_rest_deliver) (simp add: same_rest_def)
  then have "clients ?u = clients s" "\<forall>q. members (room_in ?u q) = members (room_in s q)"
    by (simp_all add: same_rest_def)
  moreover have "out_stream ?u m = out_stream s m @
      (if m \<in> set (members (room_in s r)) \<and> m \<noteq> c then ?d else [])" for m
    using dist py_index_mem [where xs = "members (room_in s r)" and x = m and a = "[]" and b = "if m = c then [] else ?d"]
    by (simp add: out_stream_deliver if_distrib cong: if_cong option.case_cong del: of_nat_Suc)
  ultimately show ?thesis
    using relay_delivers [OF q assms(2,3,5,6)] assms(4) by (auto simp: handle_def simp del: of_nat_Suc)
qed

theorem relay_reaches_every_other_member_witness:
  "\<exists>s'. handle 0 T_INPUT [7, 8] match_state = (Inr (), s') \<and>
     out_stream s' 2 = out_stream match_state 2 @ [3, T_INPUT, 7, 8] \<and>
     out_stream s' 0 = out_stream match_state 0"
  using relay_reaches_every_other_member [OF demo_reachable(3), of 0 0 T_INPUT "[7, 8]"] demo_states(3)
    demo_accepts [OF demo_states(3)]
  by (auto simp: three_consoles_def RELAY_TYPES_def)

text \<open>C10: the start: when the host of a waiting room of two or more says GO (the delay fits a byte,
  every member can be sent one more frame), the room is marked started with a nonzero 16-bit seed
  and an empty CRC table, and the member on seat \<open>i\<close> receives one START frame with its own seat,
  the number of seats, the common seed, the delay and the roster.\<close>

theorem go_starts_the_match:
  assumes "reachable d ago lob s" and "0 \<le> d" and "d < 256"
    and "room (client_in s c) = Some r" and "\<not> started (room_in s r)"
    and "members (room_in s r) ! 0 = c"
    and "\<And>m x. m \<in> set (members (room_in s r)) \<Longrightarrow> length x = 39 \<Longrightarrow> accepts s m x"
  shows "\<exists>s'. on_go c s = (Inr (), s') \<and> members (room_in s' r) = members (room_in s r) \<and>
    started (room_in s' r) \<and> 0 < seed (room_in s' r) \<and> seed (room_in s' r) < 0x10000 \<and>
    crc (room_in s' r) = [] \<and>
    (\<forall>i < length (members (room_in s r)).
      out_stream s' (members (room_in s r) ! i) =
        out_stream s (members (room_in s r) ! i) @ start_message s' r i)"
proof -
  have q: "quiet s" and d: "delay s = d"
    using reachable_quiet reachable_loop_inv assms(1) by blast+
  have size: "length (members (room_in s r)) \<in> {2, 3, 4}"
    by (rule room_size [OF q assms(4)])
  then obtain others where ms: "members (room_in s r) = c # others"
    using assms(6) by (cases "members (room_in s r)") auto
  have "on_go c s = start_room r s"
    using assms(4,5) size
    by (auto simp: on_go_def reading_def seat_in_def MAX_SEATS_def ms)
  with wp_no_exn_run [OF start_room_delivers [OF q _ _ assms(7)]] d assms(2,3) show ?thesis
    by auto
qed

theorem go_starts_the_match_witness:
  "\<exists>s'. on_go 0 forming_state = (Inr (), s') \<and> started (room_in s' 0) \<and>
     out_stream s' 2 = out_stream forming_state 2 @ start_message s' 0 2"
proof -
  have d: "room (client_in forming_state 0) = Some 0" "\<not> started (room_in forming_state 0)"
    "members (room_in forming_state 0) = [0, 1, 2]"
    using demo_states(2) by (simp_all add: three_consoles_def)
  have "\<exists>s'. on_go 0 forming_state = (Inr (), s') \<and>
    members (room_in s' 0) = members (room_in forming_state 0) \<and>
    started (room_in s' 0) \<and> 0 < seed (room_in s' 0) \<and> seed (room_in s' 0) < 0x10000 \<and>
    crc (room_in s' 0) = [] \<and>
    (\<forall>i < length (members (room_in forming_state 0)).
      out_stream s' (members (room_in forming_state 0) ! i) =
        out_stream forming_state (members (room_in forming_state 0) ! i) @ start_message s' 0 i)"
    by (rule go_starts_the_match [OF demo_reachable(2)])
      (use d demo_accepts [OF demo_states(2)] in auto)
  then obtain s' where "on_go 0 forming_state = (Inr (), s')" "started (room_in s' 0)"
    "\<forall>i < 3. out_stream s' ([0, 1, 2] ! i) = out_stream forming_state ([0, 1, 2] ! i) @ start_message s' 0 i"
    by (auto simp: d(3))
  moreover from this(3) have "out_stream s' ([0, 1, 2] ! 2) =
      out_stream forming_state ([0, 1, 2] ! 2) @ start_message s' 0 2"
    by (rule allE [where x = 2]) simp
  ultimately show ?thesis
    by simp
qed

text \<open>Only the host starts a match: GO of a client that has no room, sits in a started room, or
  is not on seat 0 changes nothing.\<close>

theorem go_ignored:
  assumes "reachable d ago lob s"
    and "\<forall>r. room (client_in s c) = Some r \<longrightarrow> started (room_in s r) \<or> members (room_in s r) ! 0 \<noteq> c"
  shows "on_go c s = (Inr (), s)"
proof (cases "room (client_in s c)")
  case None
  then show ?thesis by (simp add: on_go_def run_simps)
next
  case (Some r)
  have q: "quiet s"
    using assms(1) by (rule reachable_quiet)
  obtain i where i: "py_index (members (room_in s r)) c = Some i"
    using srv_inv_room_iff [OF q] Some py_index_None by fastforce
  then have "started (room_in s r) \<or> i \<noteq> 0"
    using assms(2) Some py_index_Some [OF i] by auto
  with Some i show ?thesis
    by (auto simp: on_go_def run_simps seat_in_def)
qed

theorem go_ignored_witness: "on_go 1 forming_state = (Inr (), forming_state)"
  by (rule go_ignored [OF demo_reachable(2)])
    (use demo_states(2) in \<open>simp add: three_consoles_def\<close>)

text \<open>C11: a player leaving a running match, in whatever way, ends it for everybody: the room has no
  members any more, every survivor stays connected, is back in the lobby, and is told by one
  PEER_LEFT frame who left from which seat.\<close>

theorem leaving_ends_the_match:
  assumes "reachable d ago lob s" and "c \<in> set (clients s)" and "room (client_in s c) = Some r"
    and "started (room_in s r)" and "py_index (members (room_in s r)) c = Some seat"
    and "name (client_in s c) = Some n"
    and "\<forall>m \<in> set (members (room_in s r)) - {c}.
      accepts s m (10 # T_PEER_LEFT # of_nat seat # map of_nat n @ replicate (8 - length n) 0)"
  shows "\<exists>s'. drop_client c why s = (Inr (), s') \<and> members (room_in s' r) = [] \<and>
    clients s' = removeAll c (clients s) \<and>
    (\<forall>m \<in> set (members (room_in s r)) - {c}. room (client_in s' m) = None \<and>
       out_stream s' m = out_stream s m @
         (10 # T_PEER_LEFT # of_nat seat # map of_nat n @ replicate (8 - length n) 0))"
proof -
  have q: "quiet s"
    using assms(1) by (rule reachable_quiet)
  have "\<not> dead (client_in s c)"
    using assms(2) srv_inv_clients(2) [OF q] by blast
  from wp_no_exn_run [OF drop_ends_match [OF q this assms(3-7), of why]] srv_inv_members(1) [OF q, of r]
  show ?thesis
    by (fastforce simp: disbanded_def)
qed

theorem leaving_ends_the_match_witness:
  "\<exists>s'. drop_client 1 RecvError match_state = (Inr (), s') \<and> members (room_in s' 0) = [] \<and>
     room (client_in s' 2) = None \<and>
     out_stream s' 2 = out_stream match_state 2 @ [10, T_PEER_LEFT, 1, 66, 66, 0, 0, 0, 0, 0, 0]"
proof -
  note d = demo_states(3) [unfolded three_consoles_def]
  have *: "replicate 6 (0::byte) = [0, 0, 0, 0, 0, 0]"
    by (simp add: numeral_eq_Suc)
  have "\<exists>s'. drop_client 1 RecvError match_state = (Inr (), s') \<and> members (room_in s' 0) = [] \<and>
      clients s' = removeAll 1 (clients match_state) \<and>
      (\<forall>m \<in> set (members (room_in match_state 0)) - {1}. room (client_in s' m) = None \<and>
       out_stream s' m = out_stream match_state m @ (10 # T_PEER_LEFT # of_nat 1 # map of_nat (name_of 1) @
         replicate (8 - length (name_of 1)) 0))"
    by (rule leaving_ends_the_match [OF demo_reachable(3)])
      (use d demo_accepts [OF demo_states(3)] in \<open>auto simp: name_of_def\<close>)
  then show ?thesis
    using d by (auto simp: name_of_def *)
qed

text \<open>C18: a forming room is dissolved when its host leaves, or when a guest leaving would keep one
  member: everybody left is back in the lobby and is told so by one ROOM frame with count 0.\<close>

theorem leaving_dissolves_a_forming_room:
  assumes "reachable d ago lob s" and "c \<in> set (clients s)" and "room (client_in s c) = Some r"
    and "\<not> started (room_in s r)"
    and "members (room_in s r) ! 0 = c \<or> length (members (room_in s r)) = 2"
    and "\<forall>m \<in> set (members (room_in s r)) - {c}. accepts s m (34 # T_ROOM # 0 # replicate 32 0)"
  shows "\<exists>s'. drop_client c why s = (Inr (), s') \<and> members (room_in s' r) = [] \<and>
    clients s' = removeAll c (clients s) \<and>
    (\<forall>m \<in> set (members (room_in s r)) - {c}. room (client_in s' m) = None \<and>
       out_stream s' m = out_stream s m @ (34 # T_ROOM # 0 # replicate 32 0))"
proof -
  have q: "quiet s"
    using assms(1) by (rule reachable_quiet)
  have c: "\<not> dead (client_in s c)" "c \<in> set (members (room_in s r))"
    using assms(2,3) srv_inv_clients(2) [OF q] srv_inv_room_iff [OF q] by blast+
  then obtain seat where seat: "py_index (members (room_in s r)) c = Some seat"
    using py_index_None by fastforce
  have "seat = 0 \<or> length (members (room_in s r)) = 2"
    using assms(5) seat c(2) py_index_nth [OF srv_inv_members(1) [OF q], of 0 r]
    by (cases "members (room_in s r)") auto
  from wp_no_exn_run [OF drop_dissolves_room [OF q c(1) assms(3,4) seat this assms(6), of why]]
    srv_inv_members(1) [OF q, of r]
  show ?thesis
    by (fastforce simp: disbanded_def)
qed

theorem leaving_dissolves_a_forming_room_witness:
  "\<exists>s'. drop_client 0 Closed forming_state = (Inr (), s') \<and> members (room_in s' 0) = [] \<and>
     room (client_in s' 1) = None"
proof -
  note d = demo_states(2) [unfolded three_consoles_def]
  have "\<exists>s'. drop_client 0 Closed forming_state = (Inr (), s') \<and> members (room_in s' 0) = [] \<and>
      clients s' = removeAll 0 (clients forming_state) \<and>
      (\<forall>m \<in> set (members (room_in forming_state 0)) - {0}. room (client_in s' m) = None \<and>
       out_stream s' m = out_stream forming_state m @ (34 # T_ROOM # 0 # replicate 32 0))"
    by (rule leaving_dissolves_a_forming_room [OF demo_reachable(2)])
      (use d demo_accepts [OF demo_states(2)] in auto)
  then show ?thesis
    using d by auto
qed

text \<open>C19: a guest leaving a forming room of three or more reseats it: the others keep their order,
  close ranks, and each receives one ROOM frame with the new count and roster.\<close>

theorem leaving_reseats_a_forming_room:
  assumes "reachable d ago lob s" and "c \<in> set (clients s)" and "room (client_in s c) = Some r"
    and "\<not> started (room_in s r)" and "members (room_in s r) ! 0 \<noteq> c"
    and "2 < length (members (room_in s r))"
    and "\<And>m x. m \<in> set (members (room_in s r)) - {c} \<Longrightarrow> length x = 35 \<Longrightarrow> accepts s m x"
  shows "\<exists>s'. drop_client c why s = (Inr (), s') \<and>
    members (room_in s' r) = remove1 c (members (room_in s r)) \<and> clients s' = removeAll c (clients s) \<and>
    (\<forall>m \<in> set (members (room_in s r)) - {c}. out_stream s' m = out_stream s m @ room_message s' r)"
proof -
  have q: "quiet s"
    using assms(1) by (rule reachable_quiet)
  have c: "\<not> dead (client_in s c)" "c \<in> set (members (room_in s r))"
    using assms(2,3) srv_inv_clients(2) [OF q] srv_inv_room_iff [OF q] by blast+
  then obtain seat where seat: "py_index (members (room_in s r)) c = Some seat"
    using py_index_None by fastforce
  then have "seat \<noteq> 0"
    using assms(5) py_index_Some [OF seat] by (cases seat) auto
  from wp_no_exn_run [OF drop_reseats_room [OF q c(1) assms(3,4) seat this assms(6,7), of why]]
  show ?thesis
    by fastforce
qed

theorem leaving_reseats_a_forming_room_witness:
  "\<exists>s'. drop_client 1 Bye forming_state = (Inr (), s') \<and> members (room_in s' 0) = [0, 2] \<and>
     out_stream s' 2 = out_stream forming_state 2 @ room_message s' 0"
proof -
  note d = demo_states(2) [unfolded three_consoles_def]
  have "\<exists>s'. drop_client 1 Bye forming_state = (Inr (), s') \<and>
    members (room_in s' 0) = remove1 1 (members (room_in forming_state 0)) \<and>
    clients s' = removeAll 1 (clients forming_state) \<and>
    (\<forall>m \<in> set (members (room_in forming_state 0)) - {1}.
      out_stream s' m = out_stream forming_state m @ room_message s' 0)"
    by (rule leaving_reseats_a_forming_room [OF demo_reachable(2)])
      (use d demo_accepts [OF demo_states(2)] in auto)
  then show ?thesis
    using d by auto
qed

subsection \<open>Joining\<close>

text \<open>C15: JOIN of an identified client without a room, for a target that is not itself, sits in no
  room or in a forming one with a free seat: the client takes the next seat of the target's room
  (a new one, with the target as host, where it had none), and everybody in it receives one ROOM
  frame with the new roster.\<close>

theorem join_takes_the_next_seat:
  assumes "reachable d 0 lob s" and "name (client_in s c) \<noteq> None" and "room (client_in s c) = None"
    and "map_of (by_name s) (wire_name payload) = Some t" and "joinable s c t"
    and "before = (case room (client_in s t) of None \<Rightarrow> [t] | Some q \<Rightarrow> members (room_in s q))"
    and "\<And>m x. m \<in> set before \<union> {c} \<Longrightarrow> length x = 35 \<Longrightarrow> accepts s m x"
  shows "\<exists>s' r. on_join c payload s = (Inr (), s') \<and> members (room_in s' r) = before @ [c] \<and>
    room (client_in s' c) = Some r \<and> room (client_in s' t) = Some r \<and> \<not> started (room_in s' r) \<and>
    (\<forall>m. out_stream s' m = out_stream s m @ (if m \<in> set before \<union> {c} then room_message s' r else []))"
proof -
  have q: "quiet s" and ago: "auto_go s = 0"
    using reachable_quiet reachable_loop_inv assms(1) by blast+
  have step: "on_join c payload s = bind (open_room t) (\<lambda>r. enter_room c r) s"
    using assms(2-5) by (auto simp: on_join_def reading_def)
  show ?thesis
  proof (cases "room (client_in s t)")
    case (Some r)
    then have r: "members (room_in s r) \<noteq> []" "srv_inv {} {r} {} s" "before = members (room_in s r)"
      using srv_inv_room_iff [OF q] srv_inv_mono [OF q] assms(6) by fastforce+
    have "t \<noteq> c" "\<not> started (room_in s r)" "length (members (room_in s r)) < 4"
      using assms(5) Some by (auto simp: joinable_def MAX_SEATS_def)
    moreover from this obtain s' where "enter_room c r s = (Inr (), s')"
      "members (room_in s' r) = members (room_in s r) @ [c]" "room (client_in s' c) = Some r"
      "\<forall>m. m \<noteq> c \<longrightarrow> room (client_in s' m) = room (client_in s m)"
      "started (room_in s' r) = started (room_in s r)"
      "\<forall>m. out_stream s' m = out_stream s m @
        (if m \<in> set (members (room_in s r)) \<union> {c} then room_message s' r else [])"
      using wp_no_exn_run [OF enter_room_delivers [OF r(2) assms(3,2) r(1) _ ago assms(7) [unfolded r(3)]]]
      by auto
    ultimately show ?thesis
      using Some step r(3) by (auto simp: open_room_def run_simps intro!: exI [of _ s'] exI [of _ r])
  next
    case None
    let ?v = "opened t s" and ?r = "next_room s"
    have t: "t \<noteq> c" "name (client_in s t) \<noteq> None" "before = [t]"
      using assms(5,6) None by (auto simp: joinable_def)
    have same: "accepts ?v m x = accepts s m x" "out_stream ?v m = out_stream s m"
      "auto_go ?v = auto_go s" for m x
      by (simp_all add: opened_def accepts_def out_stream_def)
    have inv: "srv_inv {} {?r} {} ?v"
      by (rule srv_inv_opened [OF q None t(2)])
    have c: "room (client_in ?v c) = None" "name (client_in ?v c) \<noteq> None"
      using t assms(2,3) by simp_all
    have "wp (enter_room c ?r) (\<lambda>_ s'. members (room_in s' ?r) = members (room_in ?v ?r) @ [c] \<and>
        room (client_in s' c) = Some ?r \<and> (\<forall>m. m \<noteq> c \<longrightarrow> room (client_in s' m) = room (client_in ?v m)) \<and>
        started (room_in s' ?r) = started (room_in ?v ?r) \<and>
        (\<forall>m. out_stream s' m = out_stream ?v m @
          (if m \<in> set (members (room_in ?v ?r)) \<union> {c} then room_message s' ?r else []))) no_exn ?v"
      by (rule enter_room_delivers [OF inv c]) (use ago assms(7) t(3) same in auto)
    from wp_no_exn_run [OF this] obtain s' where s': "enter_room c ?r ?v = (Inr (), s')"
      "members (room_in s' ?r) = [t, c]" "room (client_in s' c) = Some ?r"
      "room (client_in s' t) = Some ?r" "\<not> started (room_in s' ?r)"
      "\<forall>m. out_stream s' m = out_stream s m @ (if m \<in> set [t] \<union> {c} then room_message s' ?r else [])"
      using t(1) same(2) by auto
    then have "on_join c payload s = (Inr (), s')"
      using None by (simp add: step open_room_def run_simps opened_def)
    with s' t(3) show ?thesis
      by (auto intro!: exI [of _ s'] exI [of _ ?r])
  qed
qed

theorem join_takes_the_next_seat_witness:
  "\<exists>s' r. on_join 2 (map of_nat (name_of 0)) lobby_state = (Inr (), s') \<and> members (room_in s' r) = [0, 2] \<and>
     out_stream s' 0 = out_stream lobby_state 0 @ room_message s' r"
proof -
  note d = demo_states(1) [unfolded three_consoles_def]
  have w: "wire_name (map of_nat (name_of 0)) = name_of 0"
    by (simp add: value_defs name_of_def)
  have "\<exists>s' r. on_join 2 (map of_nat (name_of 0)) lobby_state = (Inr (), s') \<and>
    members (room_in s' r) = [0] @ [2] \<and> room (client_in s' 2) = Some r \<and> room (client_in s' 0) = Some r \<and>
    \<not> started (room_in s' r) \<and> (\<forall>m. out_stream s' m = out_stream lobby_state m @
      (if m \<in> set [0] \<union> {2} then room_message s' r else []))"
    by (rule join_takes_the_next_seat [OF demo_reachable(1)])
      (use d w demo_accepts [OF demo_states(1)] in \<open>auto simp: joinable_def\<close>)
  then show ?thesis by force
qed



text \<open>C20: the lobby status byte is right: its low bits are the number of members of the listed
  client's room (1 without a room), and its top bit is set exactly when a JOIN of that client would
  be refused.\<close>

theorem status_byte_tells_joinable:
  assumes "reachable d ago lob s" and "t \<in> set (clients s)" and "name (client_in s t) \<noteq> None"
    and "t \<noteq> c"
  shows "status_byte s t mod 128 =
      (case room (client_in s t) of None \<Rightarrow> 1 | Some r \<Rightarrow> int (length (members (room_in s r)))) \<and>
    (status_byte s t < 128 \<longleftrightarrow> joinable s c t)"
proof
  have q: "quiet s"
    using assms(1) by (rule reachable_quiet)
  show "status_byte s t < 128 \<longleftrightarrow> joinable s c t"
    by (rule status_joinable [OF q assms(3,4)])
  show "status_byte s t mod 128 =
      (case room (client_in s t) of None \<Rightarrow> 1 | Some r \<Rightarrow> int (length (members (room_in s r))))"
  proof (cases "room (client_in s t)")
    case (Some r)
    then show ?thesis
      using room_size [OF q Some] by (auto simp: status_byte_room [OF q Some])
  qed (simp add: status_byte_def)
qed

theorem status_byte_tells_joinable_witness:
  "status_byte match_state 1 = 131 \<and> \<not> joinable match_state 0 1 \<and>
   (status_byte match_state 1 < 128 \<longleftrightarrow> joinable match_state 0 1)"
proof -
  note d = demo_states(3) [unfolded three_consoles_def]
  have "status_byte match_state 1 = 131" "\<not> joinable match_state 0 1"
    using d by (simp_all add: status_byte_def joinable_def)
  then show ?thesis
    using status_byte_tells_joinable [OF demo_reachable(3), of 1 0] d by simp
qed

subsection \<open>Identification\<close>



subsection \<open>The event loop\<close>

text \<open>C12: one readable event handles exactly the frames that the client's buffer and the new bytes
  hold together, in order, each once; it stops when the client is gone, and a bad length byte drops
  the client only after the frames in front of it.\<close>

theorem service_handles_exactly_the_frames:
  assumes "reachable d ago lob s" and "c \<in> set (clients s)" and "data \<noteq> []"
  shows "service c (Received data) s =
    (case scan_all next_frame (rx (client_in s c) @ data) of (fs, e) \<Rightarrow>
      consume c fs e (set_client c (\<lambda>x. x\<lparr>rx := rx x @ data\<rparr>) s))"
proof -
  have inv: "loop_inv {} s"
    using assms(1) reachable_loop_inv by blast
  have live: "\<not> dead (client_in s c)"
    using assms(2) srv_inv_clients(2) [OF loop_inv_quiet [OF inv]] by blast
  let ?t = "set_client c (\<lambda>x. x\<lparr>rx := rx x @ data\<rparr>) s"
  have "loop_inv {c} ?t"
    by (rule loop_inv_set_rx) (rule loop_inv_mono [OF inv], simp)
  then have "rx_loop (Suc (length (rx (client_in ?t c)))) c ?t =
      (case scan_all next_frame (rx (client_in ?t c)) of (fs, e) \<Rightarrow> consume c fs e ?t)"
    by (rule rx_loop_consume) (simp_all add: live)
  moreover have "(case x of (Inl e, u) \<Rightarrow> (Inl e, u) | (Inr y, u) \<Rightarrow> (Inr (), u)) = x" for x :: "(exn + unit) \<times> Server"
    by (auto split: prod.split sum.split)
  ultimately show ?thesis
    using assms(3) by (simp add: service_def block.simps bind_def modify_def reading_def return_def del: rx_loop.simps)
qed

theorem service_handles_exactly_the_frames_witness:
  "service 1 (Received [1, T_PING, 1]) match_state =
     consume 1 [(T_PING, [])] (NeedMore [1]) (set_client 1 (\<lambda>x. x\<lparr>rx := rx x @ [1, T_PING, 1]\<rparr>) match_state)"
proof -
  have c: "1 \<in> set (clients match_state)" "rx (client_in match_state 1) = []"
    using demo_states(3) by (simp_all add: three_consoles_def)
  have "scan_all next_frame [1, T_PING, 1] = ([(T_PING, [])], NeedMore [1])"
    by (simp add: scan_all_def next_frame_def Let_def)
  with service_handles_exactly_the_frames [OF demo_reachable(3) c(1), of "[1, T_PING, 1]"] c(2)
  show ?thesis by simp
qed



text \<open>C21: \<open>accept\<close> refuses a connection exactly when 64 clients are connected or 8 from the same
  host: a refusal changes no client, room or name (it is counted), an accepted client starts
  unidentified, with empty buffers and no room.\<close>

theorem accept_enforces_the_limits:
  assumes "reachable d ago lob s"
  shows "\<exists>s'. accept a now s = (Inr (), s') \<and> obj_room s' = obj_room s \<and> by_name s' = by_name s \<and>
    (if length (clients s) < 64 \<and> from_host s (fst a) < 8
     then clients s' = clients s @ [next_client s] \<and> client_in s' (next_client s) = new_Client a now \<and>
       stats s' = stats s
     else clients s' = clients s \<and> obj_client s' = obj_client s \<and>
       connection_limit_rejections (stats s') = connection_limit_rejections (stats s) + 1)"
  by (auto simp: accept_def run_simps log_line_def count_rejection_def connected_def
    MAX_CLIENTS_def MAX_CONNECTIONS_PER_IP_def)

theorem accept_enforces_the_limits_witness:
  "\<exists>s'. accept (5, 5) 7 lobby_state = (Inr (), s') \<and> clients s' = [0, 1, 2, 3] \<and>
     client_in s' 3 = new_Client (5, 5) 7"
proof -
  have "from_host lobby_state 5 \<le> 3"
    using demo_states(1) by (simp add: from_host_def three_consoles_def)
  then show ?thesis
    using accept_enforces_the_limits [OF demo_reachable(1), of "(5, 5)" 7] demo_states(1)
    by (auto simp: three_consoles_def)
qed

subsection \<open>Where the code does not do what it means to do\<close>

text \<open>C0: a HELLO that takes over a name can leave a dead client in the name table: evicting the
  old holder tells the room, that send can drop the very client that says HELLO, and \<open>on_hello\<close> goes
  on and registers it. The state is reachable: the entry AA then leads to the dead client 1, in
  lobby lists and for JOIN.\<close>

definition ghost_events :: "event list" where
  "ghost_events =
     [Connecting (Some (1, 1)) 0, Connecting (Some (1, 2)) 0,
      Ready 0 False (Some (Received (hello_frame (name_of 0)))),
      Ready 1 False (Some (Received (hello_frame (name_of 1)))),
      Ready 1 False (Some (Received (join_frame (name_of 0)))),
      Ready 1 False (Some (Received (hello_frame (name_of 0))))]"

definition failing_socket :: "cid \<Rightarrow> send_answer list" where
  "failing_socket c = (if c = 1 then [Wrote 500, Wrote 500, SendError] else [])"

theorem hello_can_register_a_dead_client:
  "\<exists>s. reachable 3 0 False s \<and> map_of (by_name s) (name_of 0) = Some 1 \<and> dead (client_in s 1) \<and>
     clients s = []"
proof -
  have "\<exists>s. run_pass id boot_timers ghost_events 0 0 (new_Server 3 0 False failing_socket []) = (Inr boot_timers, s) \<and>
      map_of (by_name s) (name_of 0) = Some 1 \<and> dead (client_in s 1) \<and> clients s = []"
    by (simp add: demo_simps ghost_events_def failing_socket_def cong: run_congs)
  then obtain s where s: "run_pass id boot_timers ghost_events 0 0 (new_Server 3 0 False failing_socket []) =
      (Inr boot_timers, s)" "map_of (by_name s) (name_of 0) = Some 1" "dead (client_in s 1)" "clients s = []"
    by blast
  have "reachable 3 0 False s"
    by (rule reachable.pass [OF reachable.boot _ s(1)]) simp
  with s show ?thesis by blast
qed

text \<open>C0: a roster can go stale: \<open>room_broadcast\<close> builds its payload once, and when one of its sends
  fails, the drop broadcasts the new roster from inside the loop, after which the loop goes on
  with the old one. In the reachable state below the room has three members, but the last ROOM
  message of member 3 still says four.\<close>

definition stale_events :: "event list" where
  "stale_events =
     map (\<lambda>k. Connecting (Some (k, 1)) 0) [1, 2, 3, 4] @
     map (\<lambda>k. Ready k False (Some (Received (hello_frame (name_of k))))) [0, 1, 2, 3] @
     map (\<lambda>k. Ready k False (Some (Received (join_frame (name_of 0))))) [1, 2, 3]"

definition late_failing_socket :: "cid \<Rightarrow> send_answer list" where
  "late_failing_socket c = (if c = 1 then [Wrote 500, Wrote 500, Wrote 500, SendError] else [])"

theorem broadcast_can_end_with_a_stale_roster:
  "\<exists>s. reachable 3 0 False s \<and> members (room_in s 0) = [0, 2, 3] \<and>
     room_message s 0 ! 2 = 3 \<and> out_stream s 3 ! (length (out_stream s 3) - 33) = 4"
proof -
  have "\<exists>s. run_pass id boot_timers stale_events 0 0 (new_Server 3 0 False late_failing_socket []) = (Inr boot_timers, s) \<and>
      members (room_in s 0) = [0, 2, 3] \<and> room_message s 0 ! 2 = 3 \<and>
      out_stream s 3 ! (length (out_stream s 3) - 33) = 4"
    by (simp add: demo_simps stale_events_def late_failing_socket_def room_message_def out_stream_def
      nth_append cong: run_congs)
  then obtain s where s: "run_pass id boot_timers stale_events 0 0 (new_Server 3 0 False late_failing_socket []) =
      (Inr boot_timers, s)" "members (room_in s 0) = [0, 2, 3]" "room_message s 0 ! 2 = 3"
      "out_stream s 3 ! (length (out_stream s 3) - 33) = 4"
    by blast
  have "reachable 3 0 False s"
    by (rule reachable.pass [OF reachable.boot _ s(1)]) simp
  with s show ?thesis by blast
qed

text \<open>The input delay given on the command line is not checked: with a delay of 300 the GO of
  the host raises ValueError after the room is marked started, the event loop logs an unexpected
  error and disconnects the host, which ends the match for its guests.\<close>

theorem oversized_delay_disconnects_the_host:
  "\<exists>s. reachable 300 0 False s \<and> clients s = [1, 2] \<and>
     LogUnexpected (ByName (name_of 0)) (Py ValueError) \<in> set (log_lines s) \<and>
     LogMatchEnded 0 (ByName (name_of 0)) 0 \<in> set (log_lines s)"
proof -
  have "\<exists>s. run_pass id boot_timers (lobby_events @ join_events @ [Ready 0 False (Some (Received [1, T_GO]))]) 0 0
        (new_Server 300 0 False (\<lambda>_. []) []) = (Inr boot_timers, s) \<and> clients s = [1, 2] \<and>
      LogUnexpected (ByName (name_of 0)) (Py ValueError) \<in> set (log_lines s) \<and>
      LogMatchEnded 0 (ByName (name_of 0)) 0 \<in> set (log_lines s)"
    by (simp add: demo_simps cong: run_congs)
  then obtain s where s: "run_pass id boot_timers (lobby_events @ join_events @ [Ready 0 False (Some (Received [1, T_GO]))])
        0 0 (new_Server 300 0 False (\<lambda>_. []) []) = (Inr boot_timers, s)" "clients s = [1, 2]"
      "LogUnexpected (ByName (name_of 0)) (Py ValueError) \<in> set (log_lines s)"
      "LogMatchEnded 0 (ByName (name_of 0)) 0 \<in> set (log_lines s)"
    by blast
  have "reachable 300 0 False s"
    by (rule reachable.pass [OF reachable.boot _ s(1)]) simp
  with s show ?thesis by blast
qed

end
