(* ===== verification/Kept_Predicates.thy ===== *)
theory Kept_Predicates
  imports Relay_Loop_Correct
begin

text \<open>
  Predicates on the server state that hold wherever a method may be left, by its end or by an
  exception. The locale \<open>kept\<close> says what has to be checked for such a predicate, the operations
  that change names, rooms or the publisher's calls; that all other operations up to a whole pass
  of the loop keep it is proved once here.
\<close>

subsection \<open>Programs that keep a predicate\<close>

definition keeps :: "('s \<Rightarrow> bool) \<Rightarrow> ('s, 'e, 'a) prog \<Rightarrow> bool" where
  "keeps J m \<longleftrightarrow> (\<forall>s. J s \<longrightarrow> J (snd (m s)))"

named_theorems keeps_intros \<open>programs that keep a predicate\<close>

lemma keeps_return [keeps_intros]: "keeps J (return x)"
  by (simp add: keeps_def return_def)

lemma keeps_raise [keeps_intros]: "keeps J (raise e)"
  by (simp add: keeps_def raise_def)

lemma keeps_bind [keeps_intros]: "keeps J m \<Longrightarrow> (\<And>x. keeps J (k x)) \<Longrightarrow> keeps J (bind m k)"
  by (fastforce simp: keeps_def bind_def split: prod.split sum.split)

lemma keeps_reading [keeps_intros]: "(\<And>s. keeps J (f s)) \<Longrightarrow> keeps J (reading f)"
  by (simp add: keeps_def reading_def)

lemma keeps_attempt [keeps_intros]: "keeps J (attempt err r)"
  by (simp add: attempt_def keeps_return keeps_raise split: sum.split)

lemma keeps_block_Nil [keeps_intros]: "keeps J (block [])"
  by (simp add: block.simps keeps_return)

lemma keeps_block_Cons [keeps_intros]: "keeps J m \<Longrightarrow> keeps J (block ms) \<Longrightarrow> keeps J (block (m # ms))"
  by (simp add: block.simps keeps_bind)

lemma keeps_only_if [keeps_intros]: "keeps J m \<Longrightarrow> keeps J (only_if b m)"
  by (simp add: only_if_def keeps_return)

lemma keeps_if [keeps_intros]: "keeps J m \<Longrightarrow> keeps J n \<Longrightarrow> keeps J (if b then m else n)"
  by simp

lemma keeps_Let [keeps_intros]: "keeps J (f x) \<Longrightarrow> keeps J (let y = x in f y)"
  by simp

lemma keeps_case_option [keeps_intros]:
  "keeps J m \<Longrightarrow> (\<And>x. keeps J (f x)) \<Longrightarrow> keeps J (case v of None \<Rightarrow> m | Some x \<Rightarrow> f x)"
  by (cases v) simp_all

lemma keeps_case_list [keeps_intros]:
  "keeps J m \<Longrightarrow> (\<And>x xs. keeps J (f x xs)) \<Longrightarrow> keeps J (case v of [] \<Rightarrow> m | x # xs \<Rightarrow> f x xs)"
  by (cases v) simp_all

lemma keeps_case_prod [keeps_intros]: "(\<And>x y. keeps J (f x y)) \<Longrightarrow> keeps J (case p of (x, y) \<Rightarrow> f x y)"
  by (cases p) simp

lemma keeps_catch [keeps_intros]: "keeps J m \<Longrightarrow> (\<And>e. keeps J (h e)) \<Longrightarrow> keeps J (catch m h)"
  by (fastforce simp: keeps_def catch_def split: prod.split sum.split)

lemma keeps_for_each [keeps_intros]: "(\<And>x. keeps J (f x)) \<Longrightarrow> keeps J (for_each xs f)"
  by (induction xs) (auto simp: for_each.simps intro!: keeps_return keeps_bind)

lemma keeps_for_live [keeps_intros]:
  assumes "\<And>i x. keeps J (f i x)" shows "keeps J (for_live stuck xs f)"
proof -
  have "keeps J (for_live_from n stuck i xs f)" for n i
    using assms by (induction n arbitrary: i) (auto simp: for_live_from.simps intro!: keeps_intros)
  then show ?thesis
    unfolding for_live_def by (intro keeps_reading)
qed

lemma keeps_modify: "(\<And>s. J s \<Longrightarrow> J (f s)) \<Longrightarrow> keeps J (modify f)"
  by (simp add: keeps_def modify_def)

lemma keeps_case_scan:
  "keeps J m \<Longrightarrow> (\<And>l. keeps J (f l)) \<Longrightarrow> (\<And>t p r. keeps J (g t p r)) \<Longrightarrow>
   keeps J (case v of Incomplete \<Rightarrow> m | BadLength l \<Rightarrow> f l | Frame t p r \<Rightarrow> g t p r)"
  by (cases v) simp_all

lemma keeps_wp: "keeps J m \<longleftrightarrow> (\<forall>s. J s \<longrightarrow> wp m (\<lambda>_. J) (\<lambda>_. J) s)"
proof -
  have "wp m (\<lambda>_. J) (\<lambda>_. J) s = J (snd (m s))" for s
    by (simp add: wp_def split: prod.split sum.split)
  then show ?thesis
    by (simp add: keeps_def)
qed

subsection \<open>What a predicate has to survive\<close>

text \<open>Steps that touch neither names, rooms nor the calls of the publisher.\<close>

definition untouched :: "Server \<Rightarrow> Server \<Rightarrow> bool" where
  "untouched s s' \<longleftrightarrow> by_name s' = by_name s \<and> lobby_calls s' = lobby_calls s \<and> lobby_enabled s' = lobby_enabled s \<and>
     obj_room s' = obj_room s \<and> next_room s' = next_room s \<and> next_client s' = next_client s \<and>
     (\<forall>c. name (client_in s' c) = name (client_in s c) \<and> room (client_in s' c) = room (client_in s c) \<and>
       dead (client_in s' c) = dead (client_in s c))"

locale kept =
  fixes J :: "Server \<Rightarrow> bool"
  assumes untouched_kept: "J s \<Longrightarrow> untouched s s' \<Longrightarrow> J s'"
    and connected_kept: "J s \<Longrightarrow> J (connected a now s)"
    and update_kept: "keeps J lobby_update"
    and drop_kept: "(\<And>c d. keeps J (put c d)) \<Longrightarrow> keeps J (drop_body put c why)"
    and naming_kept: "valid_name n \<Longrightarrow> keeps J (block ms) \<Longrightarrow>
      keeps J (block (drop_old_alias c n # modify (set_name c n) # log_line l # lobby_update # ms))"
    and join_kept: "(\<And>c d. keeps J (send c d)) \<Longrightarrow> keeps J (on_list c) \<Longrightarrow> keeps J (on_join c payload)"
    and go_kept: "(\<And>c d. keeps J (send c d)) \<Longrightarrow> keeps J (on_go c)"
    and crc_kept: "keeps J (log_crc c payload)"
begin

lemma keeps_untouched [keeps_intros]: "(\<And>s. untouched s (f s)) \<Longrightarrow> keeps J (modify f)"
  by (rule keeps_modify) (rule untouched_kept)

lemmas laws [keeps_intros] = update_kept crc_kept

lemma keeps_log_line [keeps_intros]: "keeps J (log_line l)"
  unfolding log_line_def by (intro keeps_intros) (simp add: untouched_def)

lemma keeps_update_events [keeps_intros]: "keeps J (update_events c)"
  unfolding update_events_def by (intro keeps_intros) (simp add: untouched_def)

lemma keeps_flush_with [keeps_intros]:
  "(\<And>c why. keeps J (disconnect c why)) \<Longrightarrow> keeps J (flush_with disconnect c)"
  unfolding flush_with_def by (intro keeps_intros) (simp_all add: untouched_def)

lemma keeps_send_with [keeps_intros]:
  "(\<And>c why. keeps J (disconnect c why)) \<Longrightarrow> keeps J (send_with disconnect c data)"
  unfolding send_with_def by (intro keeps_intros) (simp_all add: count_backlog_drop_def untouched_def)

lemma keeps_drop_upto: "keeps J (drop_upto n c why)"
  by (induction n arbitrary: c why) (auto intro!: keeps_intros drop_kept)

lemma keeps_drop_client [keeps_intros]: "keeps J (drop_client c why)"
  unfolding drop_client_def by (intro keeps_intros keeps_drop_upto)

lemma keeps_send [keeps_intros]: "keeps J (send c data)"
  unfolding send_def by (intro keeps_intros)

lemma keeps_flush [keeps_intros]: "keeps J (flush c)"
  unfolding flush_def by (intro keeps_intros)

lemma keeps_on_list [keeps_intros]: "keeps J (on_list c)"
  unfolding on_list_def by (intro keeps_intros)

lemma keeps_on_hello [keeps_intros]: "keeps J (on_hello c payload)"
proof -
  have "keeps J (block [evict_holder c n, drop_old_alias c n, modify (set_name c n),
      log_line (\<lambda>s. LogHello (repr_Client (client_in s c))), lobby_update, on_list c])" if "valid_name n" for n
    unfolding evict_holder_def by (intro keeps_intros naming_kept that)
  then show ?thesis
    by (simp add: on_hello_def Let_def keeps_raise)
qed

lemma keeps_relay [keeps_intros]: "keeps J (relay c ftype payload)"
  unfolding relay_def by (intro keeps_intros)

lemma keeps_handle [keeps_intros]: "keeps J (handle c ftype payload)"
  unfolding handle_def by (intro keeps_intros join_kept go_kept)

lemma keeps_service [keeps_intros]: "keeps J (service c answer)"
proof -
  have guarded: "keeps J (handle_guarded c ftype payload)" for ftype payload
    unfolding handle_guarded_def by (intro keeps_intros) (auto split: exn.split intro: keeps_intros)
  have "keeps J (rx_loop n c)" for n
  proof (induction n)
    case (Suc n)
    show ?case
      unfolding rx_loop.simps by (intro keeps_intros keeps_case_scan guarded Suc) (simp add: untouched_def)
  qed (simp add: keeps_raise)
  then show ?thesis
    by (cases answer) (auto simp: service_def untouched_def simp del: rx_loop.simps intro!: keeps_intros)
qed

lemma keeps_serve [keeps_intros]: "keeps J (serve ev)"
proof (cases ev)
  case (Connecting a t)
  then show ?thesis
    by (cases a)
      (auto simp: serve_def accept_def count_rejection_def untouched_def
        intro!: keeps_intros keeps_modify [of J "connected x y" for x y] connected_kept)
next
  case (Ready c w r)
  then show ?thesis
    by (cases r) (auto simp: serve_def serve_client_def intro!: keeps_intros)
qed

lemma keeps_run_pass: "keeps J (run_pass enum tm evs now failures)"
  unfolding run_pass_def sweep_def log_stats_def
  by (intro keeps_intros) (simp_all add: count_hello_timeout_def untouched_def)

end

end
