(* ===== verification/Lobby_Feed.thy ===== *)
theory Lobby_Feed
  imports Kept_Predicates
begin

text \<open>
  What the server tells the publisher: after every change of the table of names the publisher is
  called with its new size, and calls are only ever added. The invariant holds wherever an exception
  may leave a method, so it is an instance of \<open>kept\<close>.
\<close>

subsection \<open>The publisher is told\<close>

text \<open>
  \<open>told_since en base\<close>: the calls extend \<open>base\<close>, and with a publisher (\<open>en\<close>) the last of them
  (0 before the first) is the number of registered names.
\<close>

definition told_since :: "bool \<Rightarrow> nat list \<Rightarrow> Server \<Rightarrow> bool" where
  "told_since en base s \<longleftrightarrow> lobby_enabled s = en \<and> (\<exists>ks. lobby_calls s = base @ ks) \<and>
     (en \<longrightarrow> last (0 # lobby_calls s) = length (by_name s))"

lemma keeps_told_modify [keeps_intros]:
  "(\<And>s. lobby_calls (f s) = lobby_calls s \<and> lobby_enabled (f s) = lobby_enabled s \<and> by_name (f s) = by_name s) \<Longrightarrow>
   keeps (told_since en base) (modify f)"
  by (rule keeps_modify) (simp add: told_since_def)

text \<open>A change of the table followed at once by \<open>lobby_update\<close>.\<close>

lemma lobby_update_run:
  "lobby_update s = (Inr (), if lobby_enabled s then s\<lparr>lobby_calls := lobby_calls s @ [length (by_name s)]\<rparr> else s)"
  by (simp add: lobby_update_def reading_def only_if_def modify_def return_def)

lemma lobby_update_tells:
  "lobby_enabled s = en \<Longrightarrow> \<exists>ks. lobby_calls s = base @ ks \<Longrightarrow> told_since en base (snd (lobby_update s))"
  by (auto simp: lobby_update_run told_since_def)

lemma told_since_extends: "told_since en base s \<Longrightarrow> \<exists>ks. lobby_calls s = base @ ks" "told_since en base s \<Longrightarrow> lobby_enabled s = en"
  by (simp_all add: told_since_def)

lemma keeps_lobby_update [keeps_intros]: "keeps (told_since en base) lobby_update"
  unfolding keeps_def by (intro allI impI lobby_update_tells) (rule told_since_extends; assumption)+

lemma keeps_told_log [keeps_intros]: "keeps (told_since en base) (log_line l)"
  unfolding log_line_def by (intro keeps_intros) simp

lemma keeps_forget_client [keeps_intros]: "keeps (told_since en base) (forget_client c why)"
proof -
  have "told_since en base (snd (block [modify (\<lambda>s. s\<lparr>by_name := foldr AList.delete stale (by_name s)\<rparr>),
      only_if (stale \<noteq> []) lobby_update] s))" if "told_since en base s" for stale s
  proof (cases "stale = []")
    case False
    then have "snd (block [modify (\<lambda>s. s\<lparr>by_name := foldr AList.delete stale (by_name s)\<rparr>),
        only_if (stale \<noteq> []) lobby_update] s) = snd (lobby_update (s\<lparr>by_name := foldr AList.delete stale (by_name s)\<rparr>))"
      by (simp add: block.simps bind_def modify_def only_if_def return_def lobby_update_run)
    then show ?thesis
      using lobby_update_tells told_since_extends [OF that] by simp
  qed (use that in \<open>simp add: block.simps bind_def modify_def only_if_def return_def\<close>)
  then have "keeps (told_since en base) (reading (\<lambda>s. let stale = [n. (n, d) \<leftarrow> by_name s, d = c] in block [
       modify (\<lambda>s. s\<lparr>by_name := foldr AList.delete stale (by_name s)\<rparr>), only_if (stale \<noteq> []) lobby_update]))"
    unfolding keeps_def reading_def Let_def by blast
  then show ?thesis
    unfolding forget_client_def by (intro keeps_block_Cons keeps_block_Nil keeps_told_log keeps_told_modify) simp_all
qed

lemma keeps_told_broadcast:
  "(\<And>c d. keeps (told_since en base) (put c d)) \<Longrightarrow> keeps (told_since en base) (room_broadcast_with put r)"
  unfolding room_broadcast_with_def by (intro keeps_intros)

lemma keeps_told_dissolve:
  "(\<And>c d. keeps (told_since en base) (put c d)) \<Longrightarrow> keeps (told_since en base) (dissolve_with put r notify)"
  unfolding dissolve_with_def by (intro keeps_intros) simp_all

lemma keeps_told_drop:
  "(\<And>c d. keeps (told_since en base) (put c d)) \<Longrightarrow> keeps (told_since en base) (drop_body put c why)"
  unfolding drop_body_def leave_room_with_def tell_room_with_def end_match_with_def
  by (intro keeps_intros keeps_told_dissolve keeps_told_broadcast) simp_all

lemma keeps_told_start:
  "(\<And>c d. keeps (told_since en base) (send c d)) \<Longrightarrow> keeps (told_since en base) (start_room r)"
  unfolding start_room_def announce_start_def randrange_def by (intro keeps_intros) simp_all

text \<open>\<open>on_hello\<close> changes the table in two places and then calls \<open>lobby_update\<close>.\<close>

lemma keeps_told_naming:
  "keeps (told_since en base) (block (drop_old_alias c n # modify (set_name c n) # log_line l # lobby_update # ms))"
  if "keeps (told_since en base) (block ms)"
proof -
  have ok: "wp (block ms) (\<lambda>_. told_since en base) (\<lambda>_. told_since en base) s" if "told_since en base s" for s
    using that \<open>keeps (told_since en base) (block ms)\<close> by (simp add: keeps_wp)
  show ?thesis
    unfolding keeps_wp drop_old_alias_def
    by (auto simp: wp_simps set_name_def split: option.split intro!: ok) (auto simp: told_since_def)
qed

lemma keeps_told_join:
  "(\<And>c d. keeps (told_since en base) (send c d)) \<Longrightarrow> keeps (told_since en base) (on_list c) \<Longrightarrow>
   keeps (told_since en base) (on_join c payload)"
  unfolding on_join_def open_room_def enter_room_def room_broadcast_def
  by (intro keeps_intros keeps_told_broadcast keeps_told_start) simp_all

lemma keeps_told_go:
  "(\<And>c d. keeps (told_since en base) (send c d)) \<Longrightarrow> keeps (told_since en base) (on_go c)"
  unfolding on_go_def by (intro keeps_intros keeps_told_start)

lemma keeps_told_crc: "keeps (told_since en base) (log_crc c payload)"
  unfolding log_crc_def by (intro keeps_intros) simp_all

interpretation told: kept "told_since en base" for en base
proof (rule kept.intro)
  show "told_since en base s \<Longrightarrow> untouched s s' \<Longrightarrow> told_since en base s'" for s s'
    by (simp add: told_since_def untouched_def)
  show "told_since en base s \<Longrightarrow> told_since en base (connected a now s)" for s a now
    by (simp add: told_since_def connected_def)
qed (rule keeps_lobby_update keeps_told_drop keeps_told_naming keeps_told_join keeps_told_go
  keeps_told_crc; assumption)+

subsection \<open>The calls over the passes of the loop\<close>

lemma reachable_told: "reachable d ago en s \<Longrightarrow> told_since en [] s"
proof (induction rule: reachable.induct)
  case (pass s enum tm evs now failures tm' s')
  then show ?case
    using told.keeps_run_pass [of en "[]" enum tm evs now failures] by (auto simp: keeps_def)
qed (simp add: told_since_def new_Server_def)

text \<open>A pass of the loop only adds calls.\<close>

lemma pass_adds_calls:
  assumes "told_since en base s" and "run_pass enum tm evs now failures s = (r, s')"
  shows "\<exists>ks. lobby_calls s' = lobby_calls s @ ks"
proof -
  have "told_since en (lobby_calls s) s"
    using assms(1) by (simp add: told_since_def)
  with assms(2) told.keeps_run_pass [of en "lobby_calls s" enum tm evs now failures] show ?thesis
    unfolding keeps_def by (metis snd_conv told_since_extends(1))
qed

end
