(* ===== verification/Lobby_Publisher.thy ===== *)
theory Lobby_Publisher
  imports Relay_Prelude
begin

text \<open>
  \<open>LobbyPublisher\<close>: one worker thread posts the newest player count to the lobby service. The
  object's attributes and the program points of the worker (\<open>_run\<close>) and of \<open>shutdown\<close> form the
  state; every block under the condition variable, every wait and every \<open>_post\<close> is one step, in
  any interleaving and with any passing of time. The HTTP request is the environment: it succeeds,
  raises OSError, or raises something else.
\<close>

subsection \<open>State\<close>

record Payload =
  game :: string
  appkey :: int
  server :: string
  region :: string
  serverurl :: string
  status :: string
  maxplayers :: nat
  curplayers :: nat
  platform :: string
  client_url :: string

datatype post_outcome = PostOk | PostOSError | PostOtherError

text \<open>
  Where the worker stands: in the inner \<open>while\<close> with the keepalive deadline, inside \<open>_post\<close>, in
  the debounce wait until a time, returned, or dead by an exception that \<open>_post\<close> does not catch.
\<close>

datatype worker_at = Waiting rat | Posting Payload | Debouncing rat | Returned | Died

text \<open>Where \<open>shutdown\<close> stands: not called, before \<open>_stop_evt.set()\<close>, in \<open>join\<close> until a time, in its
  own \<open>_post\<close>, done.\<close>

datatype closer_at = NotCalled | Stopping Payload | Joining Payload rat | LastPost Payload rat | Closed

record Publisher =
  base_url :: string
  payload :: Payload
  failures :: nat
  dirty :: bool
  stopping :: bool
  stop_evt :: bool
  worker :: worker_at
  closer :: closer_at
  clock :: rat
  posts :: "(rat \<times> Payload) list"  \<comment> \<open>the worker's requests: start time and body\<close>
  farewell :: "(rat \<times> Payload) option"  \<comment> \<open>the request of \<open>shutdown\<close>\<close>

definition KEEPALIVE_SECS :: rat where "KEEPALIVE_SECS = 300"

definition new_Publisher ::
  "string \<Rightarrow> string \<Rightarrow> string \<Rightarrow> int \<Rightarrow> string \<Rightarrow> string \<Rightarrow> string \<Rightarrow> rat \<Rightarrow> Publisher" where
  "new_Publisher base surl curl key reg gname sname t =
     \<lparr>base_url = rstrip {CHR ''/''} base,
      payload = \<lparr>game = gname, appkey = key, server = sname, region = reg, serverurl = surl,
        status = ''online'', maxplayers = 4, curplayers = 0, platform = ''intv'', client_url = curl\<rparr>,
      failures = 0, dirty = False, stopping = False, stop_evt = False,
      worker = Waiting (t + KEEPALIVE_SECS), closer = NotCalled, clock = t, posts = [], farewell = None\<rparr>"

subsection \<open>Operations\<close>

definition update :: "nat \<Rightarrow> Publisher \<Rightarrow> Publisher" where
  "update k p =
     (if stopping p then p
      else p\<lparr>payload := (payload p)\<lparr>curplayers := k\<rparr>, dirty := True\<rparr>)"

text \<open>The end of the block under the condition variable, once \<open>dirty\<close> or \<open>stopping\<close> holds.\<close>

definition worker_take :: "Publisher \<Rightarrow> Publisher" where
  "worker_take p =
     (let p = p\<lparr>dirty := False\<rparr>
      in if stopping p then p\<lparr>worker := Returned\<rparr>
         else p\<lparr>worker := Posting (payload p), posts := posts p @ [(clock p, payload p)]\<rparr>)"

text \<open>\<open>_post\<close>: what is left of it once the request has ended; \<open>None\<close> where an exception leaves it.\<close>

definition post_ended :: "post_outcome \<Rightarrow> Publisher \<Rightarrow> Publisher option" where
  "post_ended r p =
     (case r of PostOk \<Rightarrow> Some p
      | PostOSError \<Rightarrow> Some (p\<lparr>failures := failures p + 1\<rparr>)
      | PostOtherError \<Rightarrow> None)"

definition worker_posted :: "post_outcome \<Rightarrow> Publisher \<Rightarrow> Publisher" where
  "worker_posted r p =
     (case post_ended r p of None \<Rightarrow> p\<lparr>worker := Died\<rparr>
      | Some p \<Rightarrow> p\<lparr>worker := Debouncing (clock p + 1)\<rparr>)"

definition worker_again :: "Publisher \<Rightarrow> Publisher" where
  "worker_again p = p\<lparr>worker := Waiting (clock p + KEEPALIVE_SECS)\<rparr>"

definition keepalive :: "Publisher \<Rightarrow> Publisher" where
  "keepalive p = p\<lparr>dirty := True\<rparr>"

definition begin_shutdown :: "Publisher \<Rightarrow> Publisher" where
  "begin_shutdown p =
     (let p = p\<lparr>stopping := True, payload := (payload p)\<lparr>status := ''offline''\<rparr>\<rparr>
      in p\<lparr>closer := Stopping (payload p)\<rparr>)"

definition set_stop_evt :: "Payload \<Rightarrow> Publisher \<Rightarrow> Publisher" where
  "set_stop_evt snap p = p\<lparr>stop_evt := True, closer := Joining snap (clock p + 12)\<rparr>"

definition last_post :: "Payload \<Rightarrow> rat \<Rightarrow> Publisher \<Rightarrow> Publisher" where
  "last_post snap deadline p = p\<lparr>closer := LastPost snap deadline, farewell := Some (clock p, snap)\<rparr>"

definition last_posted :: "post_outcome \<Rightarrow> Publisher \<Rightarrow> Publisher" where
  "last_posted r p = (case post_ended r p of None \<Rightarrow> p | Some p \<Rightarrow> p)\<lparr>closer := Closed\<rparr>"

definition worker_ended :: "Publisher \<Rightarrow> bool" where
  "worker_ended p \<longleftrightarrow> worker p = Returned \<or> worker p = Died"

subsection \<open>Interleavings\<close>

inductive publisher_step :: "Publisher \<Rightarrow> Publisher \<Rightarrow> bool" where
  time_passes: "0 \<le> d \<Longrightarrow> publisher_step p (p\<lparr>clock := clock p + d\<rparr>)"
| call_update: "publisher_step p (update k p)"
| wait_times_out: "worker p = Waiting t \<Longrightarrow> \<not> dirty p \<Longrightarrow> \<not> stopping p \<Longrightarrow> t \<le> clock p \<Longrightarrow>
    publisher_step p (keepalive p)"
| wait_ends: "worker p = Waiting t \<Longrightarrow> dirty p \<or> stopping p \<Longrightarrow> publisher_step p (worker_take p)"
| post_ends: "worker p = Posting snap \<Longrightarrow> publisher_step p (worker_posted r p)"
| debounce_ends: "worker p = Debouncing t \<Longrightarrow> t \<le> clock p \<or> stop_evt p \<Longrightarrow>
    publisher_step p (worker_again p)"
| call_shutdown: "closer p = NotCalled \<Longrightarrow> publisher_step p (begin_shutdown p)"
| stop_evt_set: "closer p = Stopping snap \<Longrightarrow> publisher_step p (set_stop_evt snap p)"
| join_ends: "closer p = Joining snap t \<Longrightarrow> worker_ended p \<or> t \<le> clock p \<Longrightarrow>
    publisher_step p (last_post snap t p)"
| last_post_ends: "closer p = LastPost snap t \<Longrightarrow> publisher_step p (last_posted r p)"

inductive_cases publisher_stepE: "publisher_step p q"

inductive published :: "Publisher \<Rightarrow> Publisher \<Rightarrow> bool" for p0 where
  start: "published p0 p0"
| step: "published p0 p \<Longrightarrow> publisher_step p q \<Longrightarrow> published p0 q"

lemmas publisher_defs = update_def worker_take_def post_ended_def worker_posted_def worker_again_def
  keepalive_def begin_shutdown_def set_stop_evt_def last_post_def last_posted_def worker_ended_def Let_def

subsection \<open>Invariants\<close>

text \<open>The stop flags follow \<open>shutdown\<close>, and the payload says so.\<close>

definition flags_ok :: "Publisher \<Rightarrow> bool" where
  "flags_ok p \<longleftrightarrow> (stopping p \<longleftrightarrow> closer p \<noteq> NotCalled) \<and> (stop_evt p \<longrightarrow> stopping p) \<and>
     status (payload p) = (if stopping p then ''offline'' else ''online'') \<and>
     (\<forall>snap t. closer p = Stopping snap \<or> closer p = Joining snap t \<or> closer p = LastPost snap t \<longrightarrow>
        snap = payload p) \<and>
     (\<forall>t snap. farewell p = Some (t, snap) \<longrightarrow> snap = payload p \<and> stopping p)"

text \<open>Nothing is lost: what is not marked dirty has been posted.\<close>

definition fresh_ok :: "Payload \<Rightarrow> Publisher \<Rightarrow> bool" where
  "fresh_ok pl0 p \<longleftrightarrow> (\<not> dirty p \<and> \<not> stopping p \<longrightarrow>
     (if posts p = [] then payload p = pl0 else snd (last (posts p)) = payload p))"

text \<open>Requests start at least a second apart.\<close>

definition spaced_ok :: "Publisher \<Rightarrow> bool" where
  "spaced_ok p \<longleftrightarrow>
     sorted_wrt (\<lambda>a b. fst a + 1 \<le> fst b) (posts p) \<and>
     (\<forall>x \<in> set (posts p). fst x \<le> clock p \<and> status (snd x) = ''online'' \<and>
       (case worker p of
          Waiting _ \<Rightarrow> fst x + 1 \<le> clock p \<or> stopping p
        | Debouncing t \<Rightarrow> fst x + 1 \<le> t
        | _ \<Rightarrow> True))"

definition publisher_inv :: "Payload \<Rightarrow> Publisher \<Rightarrow> bool" where
  "publisher_inv pl0 p \<longleftrightarrow> flags_ok p \<and> fresh_ok pl0 p \<and> spaced_ok p"

lemma flags_ok_step: "publisher_step p q \<Longrightarrow> flags_ok p \<Longrightarrow> flags_ok q"
  by (induction rule: publisher_step.induct)
    (simp_all add: flags_ok_def publisher_defs split: post_outcome.split, blast+)

lemma fresh_ok_step: "publisher_step p q \<Longrightarrow> fresh_ok pl0 p \<Longrightarrow> fresh_ok pl0 q"
  by (induction rule: publisher_step.induct)
    (simp_all add: fresh_ok_def publisher_defs split: post_outcome.split)

lemma spaced_ok_step:
  "publisher_step p q \<Longrightarrow> spaced_ok p \<Longrightarrow> (stop_evt p \<Longrightarrow> stopping p) \<Longrightarrow>
   (\<not> stopping p \<Longrightarrow> status (payload p) = ''online'') \<Longrightarrow> spaced_ok q"
proof (induction rule: publisher_step.induct)
  case (wait_ends p t)
  then show ?case
    by (auto simp: spaced_ok_def publisher_defs sorted_wrt_append)
next
  case (debounce_ends p t)
  then have "fst x + 1 \<le> clock p \<or> stopping p" if "x \<in> set (posts p)" for x
    using that by (force simp: spaced_ok_def)
  with debounce_ends show ?case
    by (auto simp: spaced_ok_def publisher_defs)
next
  case (time_passes d p)
  then show ?case
    by (cases "worker p") (auto simp: spaced_ok_def intro: add_increasing2)
next
  case (post_ends p snap r)
  then show ?case
    by (cases r) (auto simp: spaced_ok_def publisher_defs)
next
  case (last_post_ends p snap t r)
  then show ?case
    by (cases r; cases "worker p") (simp_all add: spaced_ok_def publisher_defs)
qed (auto simp: spaced_ok_def publisher_defs split: worker_at.splits)

lemma flags_facts:
  "flags_ok p \<Longrightarrow> stop_evt p \<Longrightarrow> stopping p"
  "flags_ok p \<Longrightarrow> \<not> stopping p \<Longrightarrow> status (payload p) = ''online''"
  unfolding flags_ok_def by (elim conjE; simp)+

lemma publisher_inv_step: "publisher_step p q \<Longrightarrow> publisher_inv pl0 p \<Longrightarrow> publisher_inv pl0 q"
  unfolding publisher_inv_def
  using flags_ok_step fresh_ok_step spaced_ok_step flags_facts by blast

lemma publisher_inv_new: "publisher_inv (payload (new_Publisher b su c k r g sn t)) (new_Publisher b su c k r g sn t)"
  by (simp add: publisher_inv_def flags_ok_def fresh_ok_def spaced_ok_def new_Publisher_def)

lemma published_inv:
  "published (new_Publisher b su c k r g sn t) p \<Longrightarrow>
   publisher_inv (payload (new_Publisher b su c k r g sn t)) p"
  by (induction rule: published.induct) (auto intro: publisher_inv_new publisher_inv_step)

lemma published_trans: "published p q \<Longrightarrow> published p0 p \<Longrightarrow> published p0 q"
  by (induction rule: published.induct) (auto intro: published.step)

text \<open>Once \<open>shutdown\<close> has begun, and once the worker has died, some things never change again.\<close>

lemma stopping_step:
  "publisher_step p q \<Longrightarrow> stopping p \<Longrightarrow> closer p \<noteq> NotCalled \<Longrightarrow>
   stopping q \<and> closer q \<noteq> NotCalled \<and> posts q = posts p \<and> payload q = payload p"
  by (induction rule: publisher_step.induct) (simp_all add: publisher_defs split: post_outcome.split)

lemma stopping_published:
  "published p q \<Longrightarrow> stopping p \<Longrightarrow> closer p \<noteq> NotCalled \<Longrightarrow>
   stopping q \<and> closer q \<noteq> NotCalled \<and> posts q = posts p \<and> payload q = payload p"
  by (induction rule: published.induct) (auto dest: stopping_step)

lemma died_step: "publisher_step p q \<Longrightarrow> worker p = Died \<Longrightarrow> worker q = Died \<and> posts q = posts p"
  by (induction rule: publisher_step.induct) (simp_all add: publisher_defs split: post_outcome.split)

lemma died_published: "published p q \<Longrightarrow> worker p = Died \<Longrightarrow> worker q = Died \<and> posts q = posts p"
  by (induction rule: published.induct) (auto dest: died_step)

text \<open>A concrete run: an update, its request, the debounce.\<close>

definition demo_publisher :: Publisher where
  "demo_publisher = new_Publisher ''http://l/'' ''TCP://h:9111/'' ''TNFS://c'' 19 ''us'' ''PGA Golf'' ''Golf'' 0"

definition demo_posted :: "post_outcome \<Rightarrow> Publisher" where
  "demo_posted r = worker_posted r (worker_take (update 2 demo_publisher))"

lemmas demo_publisher_simps = demo_posted_def publisher_defs demo_publisher_def new_Publisher_def KEEPALIVE_SECS_def

lemma demo_posted_published: "published demo_publisher (demo_posted r)"
proof -
  let ?a = "update 2 demo_publisher"
  have a: "published demo_publisher ?a"
    by (rule published.step [OF published.start publisher_step.call_update])
  have "publisher_step ?a (worker_take ?a)"
    by (rule publisher_step.wait_ends [where t = 300]) (simp_all add: demo_publisher_simps)
  then have b: "published demo_publisher (worker_take ?a)"
    by (rule published.step [OF a])
  have "publisher_step (worker_take ?a) (demo_posted r)"
    unfolding demo_posted_def
    by (rule publisher_step.post_ends [where snap = "payload ?a"]) (simp add: demo_publisher_simps)
  then show ?thesis
    by (rule published.step [OF b])
qed

text \<open>Later: the debounce is over, a second update has been requested, \<open>shutdown\<close> begins.\<close>

definition demo_later :: Publisher where
  "demo_later =
     (let p = demo_posted PostOk; p = p\<lparr>clock := clock p + 5\<rparr>
      in worker_take (update 3 (worker_again p)))"

lemma demo_later_published: "published demo_publisher demo_later"
proof -
  let ?p = "(demo_posted PostOk)\<lparr>clock := clock (demo_posted PostOk) + 5\<rparr>"
  have a: "published demo_publisher ?p"
    by (rule published.step [OF demo_posted_published publisher_step.time_passes]) simp
  have "publisher_step ?p (worker_again ?p)"
    by (rule publisher_step.debounce_ends [where t = 1]) (simp_all add: demo_publisher_simps)
  from published.step [OF published.step [OF a this] publisher_step.call_update]
  have b: "published demo_publisher (update 3 (worker_again ?p))" .
  have "publisher_step (update 3 (worker_again ?p)) (worker_take (update 3 (worker_again ?p)))"
    by (rule publisher_step.wait_ends [where t = 305]) (simp_all add: demo_publisher_simps)
  from published.step [OF b this] show ?thesis
    by (simp add: demo_later_def Let_def)
qed

lemma demo_shutdown_published: "published demo_publisher (begin_shutdown demo_later)"
  by (rule published.step [OF demo_later_published publisher_step.call_shutdown])
    (simp add: demo_later_def demo_publisher_simps)

subsection \<open>What the publisher promises\<close>

text \<open>C23: no update is lost: in every interleaving, whenever the publisher has nothing left to do (not
  dirty, not shutting down), the last request it made carried exactly the current payload, with
  the newest player count; and before any request nothing has changed.\<close>

theorem publisher_loses_no_update:
  assumes "published (new_Publisher b su c k r g sn t) p" and "\<not> dirty p" and "\<not> stopping p"
  shows "if posts p = [] then payload p = payload (new_Publisher b su c k r g sn t)
    else snd (last (posts p)) = payload p"
  using published_inv [OF assms(1)] assms(2,3) by (simp add: publisher_inv_def fresh_ok_def)

theorem publisher_loses_no_update_witness:
  "posts (demo_posted PostOk) \<noteq> [] \<and> curplayers (payload (demo_posted PostOk)) = 2 \<and>
   snd (last (posts (demo_posted PostOk))) = payload (demo_posted PostOk)"
  using publisher_loses_no_update [OF demo_posted_published [unfolded demo_publisher_def], of PostOk]
  by (simp add: demo_publisher_simps)

text \<open>C24: requests are debounced: whatever updates arrive, two requests of the worker start at least a
  second apart, and all of them say ''online''.\<close>

theorem publisher_requests_are_spaced:
  assumes "published (new_Publisher b su c k r g sn t) p" and "i < j" and "j < length (posts p)"
  shows "fst (posts p ! i) + 1 \<le> fst (posts p ! j) \<and> status (snd (posts p ! i)) = ''online''"
  using published_inv [OF assms(1)] assms(2,3)
  by (auto simp: publisher_inv_def spaced_ok_def sorted_wrt_iff_nth_less)

theorem publisher_requests_are_spaced_witness:
  "length (posts demo_later) = 2 \<and> fst (posts demo_later ! 0) + 1 \<le> fst (posts demo_later ! 1)"
proof -
  have n: "length (posts demo_later) = 2"
    by (simp add: demo_later_def demo_publisher_simps)
  with publisher_requests_are_spaced [OF demo_later_published [unfolded demo_publisher_def], of 0 1]
  show ?thesis by simp
qed



text \<open>An exception that is no OSError (http.client.HTTPException of a garbled reply, for one)
  leaves \<open>_post\<close> and ends the worker thread for good: no update and no keepalive is ever posted
  again, and the failure counter does not show it.\<close>

theorem worker_death_is_permanent:
  assumes "published (new_Publisher b su c k r g sn t) p" and "worker p = Died" and "published p q"
  shows "worker q = Died \<and> posts q = posts p"
  using died_published [OF assms(3,2)] .

theorem worker_death_is_permanent_witness:
  "worker (update 5 (demo_posted PostOtherError)) = Died \<and>
   posts (update 5 (demo_posted PostOtherError)) = posts (demo_posted PostOtherError) \<and>
   failures (demo_posted PostOtherError) = 0"
proof -
  have "worker (demo_posted PostOtherError) = Died" "failures (demo_posted PostOtherError) = 0"
    by (simp_all add: demo_publisher_simps)
  moreover have "published (demo_posted PostOtherError) (update 5 (demo_posted PostOtherError))"
    by (rule published.step [OF published.start publisher_step.call_update])
  ultimately show ?thesis
    using worker_death_is_permanent [OF demo_posted_published [unfolded demo_publisher_def]] by blast
qed

end
