(* ===== verification/Publisher_Live.thy ===== *)
theory Publisher_Live
  imports Lobby_Publisher
begin

text \<open>
  Liveness of \<open>LobbyPublisher\<close>: in every run in which time goes on and the worker thread is not
  starved, an update is posted. A run is an infinite sequence of steps of the whole publisher;
  the rule for one leads-to step is that of weak fairness.
\<close>

subsection \<open>Fair runs\<close>

text \<open>The steps of the worker thread among those of the publisher, and when it has one.\<close>

inductive worker_step :: "Publisher \<Rightarrow> Publisher \<Rightarrow> bool" where
  "worker p = Waiting t \<Longrightarrow> \<not> dirty p \<Longrightarrow> \<not> stopping p \<Longrightarrow> t \<le> clock p \<Longrightarrow> worker_step p (keepalive p)"
| "worker p = Waiting t \<Longrightarrow> dirty p \<or> stopping p \<Longrightarrow> worker_step p (worker_take p)"
| "worker p = Posting snap \<Longrightarrow> worker_step p (worker_posted r p)"
| "worker p = Debouncing t \<Longrightarrow> t \<le> clock p \<or> stop_evt p \<Longrightarrow> worker_step p (worker_again p)"

inductive_cases worker_stepE: "worker_step p q"

definition worker_can :: "Publisher \<Rightarrow> bool" where
  "worker_can p = (case worker p of
     Waiting t \<Rightarrow> dirty p \<or> stopping p \<or> t \<le> clock p
   | Posting _ \<Rightarrow> True
   | Debouncing t \<Rightarrow> t \<le> clock p \<or> stop_evt p
   | _ \<Rightarrow> False)"

lemma worker_step_publisher: "worker_step p q \<Longrightarrow> publisher_step p q"
  by (induction rule: worker_step.induct) (auto intro: publisher_step.intros)

lemma worker_can_iff: "worker_can p \<longleftrightarrow> (\<exists>q. worker_step p q)"
proof
  assume "worker_can p"
  then show "\<exists>q. worker_step p q"
    by (cases "worker p"; cases "dirty p"; cases "stopping p") (auto simp: worker_can_def intro: worker_step.intros)
next
  assume "\<exists>q. worker_step p q"
  then show "worker_can p"
    by (auto simp: worker_can_def elim!: worker_stepE)
qed

definition fair_run :: "(nat \<Rightarrow> Publisher) \<Rightarrow> bool" where
  "fair_run \<sigma> \<longleftrightarrow> (\<forall>i. publisher_step (\<sigma> i) (\<sigma> (Suc i))) \<and>
     (\<forall>i. \<exists>j\<ge>i. worker_step (\<sigma> j) (\<sigma> (Suc j)) \<or> \<not> worker_can (\<sigma> j)) \<and>
     (\<forall>t. \<exists>j. t \<le> clock (\<sigma> j))"

subsection \<open>An update is posted\<close>

definition flags_live :: "Publisher \<Rightarrow> bool" where
  "flags_live p \<longleftrightarrow> (stop_evt p \<longrightarrow> stopping p) \<and> (worker p = Returned \<longrightarrow> stopping p)"

lemma returned_step: "publisher_step p q \<Longrightarrow> worker p = Returned \<longrightarrow> stopping p \<Longrightarrow> worker q = Returned \<longrightarrow> stopping q"
  by (induction rule: publisher_step.induct) (auto simp: publisher_defs split: post_outcome.split)

lemma published_live:
  "published (new_Publisher b su c k r g sn t) p \<Longrightarrow> flags_live p"
proof (induction rule: published.induct)
  case (step p q)
  then have "flags_ok q"
    using published_inv [OF published.step] by (auto simp: publisher_inv_def)
  with step returned_step [of p q] flags_facts(1) [of q] show ?case
    by (simp add: flags_live_def)
qed (simp add: flags_live_def new_Publisher_def)

text \<open>What the update is waiting for, and what ends the wait.\<close>

definition pending :: "nat \<Rightarrow> Publisher \<Rightarrow> bool" where
  "pending n p \<longleftrightarrow> dirty p \<and> n \<le> length (posts p)"

definition settled_by :: "nat \<Rightarrow> Publisher \<Rightarrow> bool" where
  "settled_by n p \<longleftrightarrow> stopping p \<or> worker p = Died \<or>
     (n < length (posts p) \<and> worker p = Posting (payload p) \<and> last (posts p) = (clock p, payload p))"

lemmas settle_defs = pending_def settled_by_def publisher_defs

lemma waiting_step:
  "publisher_step p q \<Longrightarrow> pending n p \<Longrightarrow> worker p = Waiting t \<Longrightarrow>
   pending n q \<and> worker q = Waiting t \<or> settled_by n q"
  by (induction rule: publisher_step.induct) (simp_all add: settle_defs split: post_outcome.split)

lemma waiting_acts: "worker_step p q \<Longrightarrow> pending n p \<Longrightarrow> worker p = Waiting t \<Longrightarrow> settled_by n q"
  by (induction rule: worker_step.induct) (simp_all add: settle_defs)

lemma posting_step:
  "publisher_step p q \<Longrightarrow> pending n p \<Longrightarrow> worker p = Posting snap \<Longrightarrow>
   pending n q \<and> (worker q = Posting snap \<or> (\<exists>t. worker q = Debouncing t)) \<or> settled_by n q"
  by (induction rule: publisher_step.induct) (simp_all add: settle_defs split: post_outcome.split)

lemma posting_acts:
  "worker_step p q \<Longrightarrow> pending n p \<Longrightarrow> worker p = Posting snap \<Longrightarrow>
   pending n q \<and> (\<exists>t. worker q = Debouncing t) \<or> settled_by n q"
  by (induction rule: worker_step.induct) (simp_all add: settle_defs split: post_outcome.split)

lemma debouncing_step:
  "publisher_step p q \<Longrightarrow> pending n p \<Longrightarrow> worker p = Debouncing t \<Longrightarrow>
   pending n q \<and> clock p \<le> clock q \<and> (worker q = Debouncing t \<or> (\<exists>u. worker q = Waiting u))"
  by (induction rule: publisher_step.induct) (simp_all add: settle_defs split: post_outcome.split)

lemma debouncing_acts:
  "worker_step p q \<Longrightarrow> pending n p \<Longrightarrow> worker p = Debouncing t \<Longrightarrow> pending n q \<and> (\<exists>u. worker q = Waiting u)"
  by (induction rule: worker_step.induct) (simp_all add: settle_defs)

text \<open>The three phases: the request under way ends, the debounce ends, the next request starts.\<close>

lemma clock_step: "publisher_step p q \<Longrightarrow> clock p \<le> clock q"
  by (induction rule: publisher_step.induct) (simp_all add: publisher_defs split: post_outcome.split)

lemma fair_runD:
  assumes "fair_run \<sigma>"
  shows "publisher_step (\<sigma> i) (\<sigma> (Suc i))"
    and "\<exists>j\<ge>i. worker_step (\<sigma> j) (\<sigma> (Suc j)) \<or> \<not> worker_can (\<sigma> j)"
    and "\<exists>j. t \<le> clock (\<sigma> j)"
    and "i \<le> j \<Longrightarrow> clock (\<sigma> i) \<le> clock (\<sigma> j)"
  using assms clock_step by (auto simp: fair_run_def intro: lift_Suc_mono_le)

text \<open>Weak fairness: what enables the worker until the worker moves is left by its move.\<close>

lemma leads_to:
  assumes "fair_run \<sigma>"
    and stays: "\<And>p q. publisher_step p q \<Longrightarrow> P p \<Longrightarrow> P q \<or> Q q"
    and acts: "\<And>p q. worker_step p q \<Longrightarrow> P p \<Longrightarrow> Q q"
    and enabled: "\<And>p. P p \<Longrightarrow> worker_can p"
    and "P (\<sigma> i)"
  shows "\<exists>j>i. Q (\<sigma> j)"
proof (rule ccontr)
  assume never: "\<not> (\<exists>j>i. Q (\<sigma> j))"
  have always: "P (\<sigma> j)" if "i \<le> j" for j
    using that
  proof (induction j rule: dec_induct)
    case (step j)
    then show ?case
      using stays [OF fair_runD(1) [OF assms(1)]] never le_imp_less_Suc by blast
  qed (rule assms(5))
  obtain j where "i \<le> j" "worker_step (\<sigma> j) (\<sigma> (Suc j)) \<or> \<not> worker_can (\<sigma> j)"
    using fair_runD(2) [OF assms(1)] by blast
  then show False
    using acts enabled always never le_imp_less_Suc by blast
qed

lemma waiting_settles:
  assumes "fair_run \<sigma>" and "pending n (\<sigma> i)" and "worker (\<sigma> i) = Waiting t"
  shows "\<exists>j>i. settled_by n (\<sigma> j)"
proof (rule leads_to [OF assms(1), where P = "\<lambda>p. pending n p \<and> worker p = Waiting t"])
  fix p q :: Publisher
  show "publisher_step p q \<Longrightarrow> pending n p \<and> worker p = Waiting t \<Longrightarrow> (pending n q \<and> worker q = Waiting t) \<or> settled_by n q"
    using waiting_step by blast
  show "worker_step p q \<Longrightarrow> pending n p \<and> worker p = Waiting t \<Longrightarrow> settled_by n q"
    using waiting_acts by blast
qed (use assms(2,3) in \<open>simp_all add: worker_can_def pending_def\<close>)

lemma posting_ends:
  assumes "fair_run \<sigma>" and "pending n (\<sigma> i)" and "worker (\<sigma> i) = Posting snap"
  shows "\<exists>j>i. pending n (\<sigma> j) \<and> (\<exists>t. worker (\<sigma> j) = Debouncing t) \<or> settled_by n (\<sigma> j)"
proof (rule leads_to [OF assms(1), where P = "\<lambda>p. pending n p \<and> worker p = Posting snap"
      and Q = "\<lambda>p. pending n p \<and> (\<exists>t. worker p = Debouncing t) \<or> settled_by n p"])
  fix p q :: Publisher
  assume P: "pending n p \<and> worker p = Posting snap"
  then show "publisher_step p q \<Longrightarrow> (pending n q \<and> worker q = Posting snap) \<or>
      (pending n q \<and> (\<exists>t. worker q = Debouncing t)) \<or> settled_by n q"
    using posting_step by blast
  show "worker_step p q \<Longrightarrow> (pending n q \<and> (\<exists>t. worker q = Debouncing t)) \<or> settled_by n q"
    using posting_acts P by blast
qed (use assms(2,3) in \<open>simp_all add: worker_can_def\<close>)

text \<open>The same where the worker is enabled once time \<open>t\<close> has come.\<close>

lemma timed_leads_to:
  assumes "fair_run \<sigma>"
    and stays: "\<And>p q. publisher_step p q \<Longrightarrow> P p \<Longrightarrow> P q \<or> Q q"
    and acts: "\<And>p q. worker_step p q \<Longrightarrow> P p \<Longrightarrow> Q q"
    and enabled: "\<And>p. P p \<Longrightarrow> t \<le> clock p \<Longrightarrow> worker_can p"
    and "P (\<sigma> i)"
  shows "\<exists>j>i. Q (\<sigma> j)"
proof (rule ccontr)
  assume never: "\<not> (\<exists>j>i. Q (\<sigma> j))"
  have always: "P (\<sigma> j)" if "i \<le> j" for j
    using that
  proof (induction j rule: dec_induct)
    case (step j)
    then show ?case
      using stays [OF fair_runD(1) [OF assms(1)]] never le_imp_less_Suc by blast
  qed (rule assms(5))
  obtain k where k: "t \<le> clock (\<sigma> k)"
    using fair_runD(3) [OF assms(1)] by blast
  have "\<exists>j>max i k. Q (\<sigma> j)"
  proof (rule leads_to [OF assms(1), where P = "\<lambda>p. P p \<and> t \<le> clock p"])
    show "P (\<sigma> (max i k)) \<and> t \<le> clock (\<sigma> (max i k))"
      using always [of "max i k"] k fair_runD(4) [OF assms(1), of k "max i k"] by force
  next
    fix p q
    show "publisher_step p q \<Longrightarrow> P p \<and> t \<le> clock p \<Longrightarrow> (P q \<and> t \<le> clock q) \<or> Q q"
      using stays clock_step [of p q] by force
  qed (use acts enabled in blast)+
  with never show False by auto
qed

lemma debouncing_ends:
  assumes "fair_run \<sigma>" and "pending n (\<sigma> i)" and "worker (\<sigma> i) = Debouncing t"
  shows "\<exists>j>i. pending n (\<sigma> j) \<and> (\<exists>u. worker (\<sigma> j) = Waiting u)"
proof (rule timed_leads_to [OF assms(1), where P = "\<lambda>p. pending n p \<and> worker p = Debouncing t" and t = t])
  fix p q :: Publisher
  show "publisher_step p q \<Longrightarrow> pending n p \<and> worker p = Debouncing t \<Longrightarrow>
      (pending n q \<and> worker q = Debouncing t) \<or> (pending n q \<and> (\<exists>u. worker q = Waiting u))"
    using debouncing_step by blast
  show "worker_step p q \<Longrightarrow> pending n p \<and> worker p = Debouncing t \<Longrightarrow> pending n q \<and> (\<exists>u. worker q = Waiting u)"
    using debouncing_acts by blast
qed (use assms(2,3) in \<open>simp_all add: worker_can_def\<close>)

lemma waiting_or_debouncing_settles:
  assumes "fair_run \<sigma>" and "pending n (\<sigma> i)" and "worker (\<sigma> i) = Debouncing t"
  shows "\<exists>j>i. settled_by n (\<sigma> j)"
proof -
  obtain j u where "i < j" "pending n (\<sigma> j)" "worker (\<sigma> j) = Waiting u"
    using debouncing_ends [OF assms] by blast
  then show ?thesis
    using waiting_settles [OF assms(1)] by (meson less_trans)
qed

lemma pending_settles:
  assumes "fair_run \<sigma>" and "flags_live (\<sigma> i)" and p: "pending n (\<sigma> i)"
  shows "\<exists>j\<ge>i. settled_by n (\<sigma> j)"
proof (cases "worker (\<sigma> i)")
  case (Waiting u)
  with waiting_settles [OF assms(1) p] show ?thesis
    using less_imp_le by blast
next
  case (Debouncing u)
  with waiting_or_debouncing_settles [OF assms(1) p] show ?thesis
    using less_imp_le by blast
next
  case (Posting snap)
  then obtain j where j: "i < j" "pending n (\<sigma> j) \<and> (\<exists>t. worker (\<sigma> j) = Debouncing t) \<or> settled_by n (\<sigma> j)"
    using posting_ends [OF assms(1) p] by blast
  then show ?thesis
    using waiting_or_debouncing_settles [OF assms(1), of n j] by (meson less_imp_le order_trans)
next
  case Returned
  then show ?thesis
    using assms(2) by (auto simp: settled_by_def flags_live_def)
qed (auto simp: settled_by_def)

subsection \<open>And without an update the keepalive comes\<close>

text \<open>Nothing is to be posted; the keepalive, or an update, or the end of the worker is awaited.\<close>

definition idle :: "nat \<Rightarrow> Publisher \<Rightarrow> bool" where
  "idle n p \<longleftrightarrow> \<not> dirty p \<and> \<not> stopping p \<and> n \<le> length (posts p)"

definition stirred :: "nat \<Rightarrow> Publisher \<Rightarrow> bool" where
  "stirred n p \<longleftrightarrow> pending n p \<or> settled_by n p"

lemmas idle_defs = idle_def stirred_def settle_defs

lemma idle_step:
  "publisher_step p q \<Longrightarrow> idle n p \<Longrightarrow> worker p = Waiting t \<Longrightarrow> idle n q \<and> worker q = Waiting t \<or> stirred n q"
  "publisher_step p q \<Longrightarrow> idle n p \<Longrightarrow> worker p = Debouncing t \<Longrightarrow>
     idle n q \<and> (worker q = Debouncing t \<or> (\<exists>u. worker q = Waiting u)) \<or> stirred n q"
  "publisher_step p q \<Longrightarrow> idle n p \<Longrightarrow> worker p = Posting snap \<Longrightarrow>
     idle n q \<and> (worker q = Posting snap \<or> (\<exists>u. worker q = Debouncing u)) \<or> stirred n q"
  by (induction rule: publisher_step.induct) (simp_all add: idle_defs split: post_outcome.split)

lemma idle_acts:
  "worker_step p q \<Longrightarrow> idle n p \<Longrightarrow> worker p = Waiting t \<Longrightarrow> stirred n q"
  "worker_step p q \<Longrightarrow> idle n p \<Longrightarrow> worker p = Debouncing t \<Longrightarrow> idle n q \<and> (\<exists>u. worker q = Waiting u)"
  "worker_step p q \<Longrightarrow> idle n p \<Longrightarrow> worker p = Posting snap \<Longrightarrow> idle n q \<and> (\<exists>u. worker q = Debouncing u) \<or> stirred n q"
  by (induction rule: worker_step.induct) (simp_all add: idle_defs split: post_outcome.split)

lemma idle_waiting:
  assumes "fair_run \<sigma>" and "idle n (\<sigma> i)" and "worker (\<sigma> i) = Waiting t"
  shows "\<exists>j>i. stirred n (\<sigma> j)"
  by (rule timed_leads_to [OF assms(1), where P = "\<lambda>p. idle n p \<and> worker p = Waiting t" and t = t])
    (blast dest: idle_step(1) idle_acts(1) | simp add: worker_can_def assms(2,3))+

lemma idle_debouncing:
  assumes "fair_run \<sigma>" and "idle n (\<sigma> i)" and "worker (\<sigma> i) = Debouncing t"
  shows "\<exists>j>i. stirred n (\<sigma> j)"
proof -
  have "\<exists>j>i. idle n (\<sigma> j) \<and> (\<exists>u. worker (\<sigma> j) = Waiting u) \<or> stirred n (\<sigma> j)"
    by (rule timed_leads_to [OF assms(1), where P = "\<lambda>p. idle n p \<and> worker p = Debouncing t" and t = t
          and Q = "\<lambda>p. idle n p \<and> (\<exists>u. worker p = Waiting u) \<or> stirred n p"])
      (blast dest: idle_step(2) idle_acts(2) | simp add: worker_can_def assms(2,3))+
  then show ?thesis
    using idle_waiting [OF assms(1)] by (meson less_trans)
qed

lemma idle_posting:
  assumes "fair_run \<sigma>" and "idle n (\<sigma> i)" and "worker (\<sigma> i) = Posting snap"
  shows "\<exists>j>i. stirred n (\<sigma> j)"
proof -
  have "\<exists>j>i. idle n (\<sigma> j) \<and> (\<exists>u. worker (\<sigma> j) = Debouncing u) \<or> stirred n (\<sigma> j)"
    by (rule leads_to [OF assms(1), where P = "\<lambda>p. idle n p \<and> worker p = Posting snap"
          and Q = "\<lambda>p. idle n p \<and> (\<exists>u. worker p = Debouncing u) \<or> stirred n p"])
      (blast dest: idle_step(3) idle_acts(3) | simp add: worker_can_def assms(2,3))+
  then show ?thesis
    using idle_debouncing [OF assms(1)] by (meson less_trans)
qed

lemma always_stirred:
  assumes "fair_run \<sigma>" and "flags_live (\<sigma> i)"
  shows "\<exists>j\<ge>i. stirred (length (posts (\<sigma> i))) (\<sigma> j)"
proof (cases "idle (length (posts (\<sigma> i))) (\<sigma> i)")
  case True
  then have "stopping (\<sigma> i) = False"
    by (simp add: idle_def)
  then have "worker (\<sigma> i) \<noteq> Returned"
    using assms(2) by (auto simp: flags_live_def)
  then consider t where "worker (\<sigma> i) = Waiting t" | t where "worker (\<sigma> i) = Debouncing t"
    | snap where "worker (\<sigma> i) = Posting snap" | "worker (\<sigma> i) = Died"
    by (cases "worker (\<sigma> i)") auto
  then show ?thesis
  proof cases
    case 4
    then show ?thesis by (auto simp: stirred_def settled_by_def)
  qed (use idle_waiting idle_debouncing idle_posting assms(1) True less_imp_le in blast)+
next
  case False
  then show ?thesis by (auto simp: idle_defs)
qed

lemma fair_run_published:
  assumes "fair_run \<sigma>" and "published p0 (\<sigma> i)" and "i \<le> j"
  shows "published p0 (\<sigma> j)"
  using assms(3)
proof (induction j rule: dec_induct)
  case (step j)
  then show ?case
    using published.step fair_runD(1) [OF assms(1)] by blast
qed (rule assms(2))

text \<open>C38: the lobby is kept informed: in every fair run of a publisher, whatever the main thread and
  the requests do in between, every moment is followed by a new request of the worker that carries
  the payload as it is then, be it for an update or for the keepalive, unless the publisher is shut
  down or an exception that is no OSError has killed the worker. In particular an update that is
  pending at that moment is posted.\<close>

theorem update_is_posted:
  assumes "fair_run \<sigma>" and "published (new_Publisher b su c k r g sn t) (\<sigma> i)"
  shows "\<exists>j\<ge>i. stopping (\<sigma> j) \<or> worker (\<sigma> j) = Died \<or>
    length (posts (\<sigma> i)) < length (posts (\<sigma> j)) \<and> worker (\<sigma> j) = Posting (payload (\<sigma> j)) \<and>
    last (posts (\<sigma> j)) = (clock (\<sigma> j), payload (\<sigma> j))"
proof -
  obtain m where m: "i \<le> m" "stirred (length (posts (\<sigma> i))) (\<sigma> m)"
    using always_stirred [OF assms(1) published_live [OF assms(2)]] by blast
  have "flags_live (\<sigma> m)"
    using published_live [OF fair_run_published [OF assms m(1)]] .
  with m have "\<exists>j\<ge>m. settled_by (length (posts (\<sigma> i))) (\<sigma> j)"
    using pending_settles [OF assms(1)] by (auto simp: stirred_def)
  with m(1) show ?thesis
    unfolding settled_by_def by (meson order_trans)
qed

text \<open>A fair run: the worker moves whenever it can, otherwise time passes until it can.\<close>

definition schedule :: "Publisher \<Rightarrow> Publisher" where
  "schedule p = (case worker p of
     Waiting t \<Rightarrow> if dirty p then worker_take p else if t \<le> clock p then keepalive p else p\<lparr>clock := t\<rparr>
   | Debouncing t \<Rightarrow> if t \<le> clock p then worker_again p else p\<lparr>clock := t\<rparr>
   | _ \<Rightarrow> worker_posted PostOk p)"

definition demo_live :: "nat \<Rightarrow> Publisher" where
  "demo_live i = (schedule ^^ i) (update 2 demo_publisher)"

definition at_work :: "Publisher \<Rightarrow> bool" where
  "at_work p \<longleftrightarrow> \<not> stopping p \<and> \<not> stop_evt p \<and> worker p \<noteq> Returned \<and> worker p \<noteq> Died"

lemma schedule_step:
  assumes "at_work p"
  shows "publisher_step p (schedule p)" and "worker_can p \<Longrightarrow> worker_step p (schedule p)" and "at_work (schedule p)"
proof -
  show moves: "worker_step p (schedule p)" if "worker_can p"
    using assms that
    by (cases "worker p") (auto simp: schedule_def worker_can_def at_work_def intro: worker_step.intros)
  show "publisher_step p (schedule p)"
  proof (cases "worker_can p")
    case False
    then obtain t where "schedule p = p\<lparr>clock := clock p + (t - clock p)\<rparr>" "clock p \<le> t"
      using assms by (cases "worker p") (auto simp: schedule_def worker_can_def at_work_def)
    then show ?thesis
      using publisher_step.time_passes [of "t - clock p" p] by simp
  qed (use moves worker_step_publisher in blast)
  show "at_work (schedule p)"
    using assms by (cases "worker p") (auto simp: schedule_def at_work_def publisher_defs)
qed

lemma demo_live_at_work: "at_work (demo_live i)"
proof (induction i)
  case 0
  show ?case
    by (simp add: demo_live_def at_work_def demo_publisher_simps)
next
  case (Suc i)
  then show ?case
    using schedule_step(3) by (simp add: demo_live_def)
qed

text \<open>Six moves are one cycle: the request, its end, the debounce, and the keepalive.\<close>

definition cycle_start :: "Publisher \<Rightarrow> bool" where
  "cycle_start p \<longleftrightarrow> at_work p \<and> dirty p \<and> (\<exists>t. worker p = Waiting t)"

lemma cycle:
  assumes "cycle_start p"
  shows "cycle_start ((schedule ^^ 6) p) \<and> clock ((schedule ^^ 6) p) = clock p + 301"
proof -
  obtain t where p: "worker p = Waiting t" "dirty p" "\<not> stopping p" "\<not> stop_evt p"
    using assms by (auto simp: cycle_start_def at_work_def)
  define p1 where "p1 = p\<lparr>dirty := False, worker := Posting (payload p), posts := posts p @ [(clock p, payload p)]\<rparr>"
  define p2 where "p2 = p1\<lparr>worker := Debouncing (clock p + 1)\<rparr>"
  define p3 where "p3 = p2\<lparr>clock := clock p + 1\<rparr>"
  define p4 where "p4 = p3\<lparr>worker := Waiting (clock p + 301)\<rparr>"
  define p5 where "p5 = p4\<lparr>clock := clock p + 301\<rparr>"
  define p6 where "p6 = p5\<lparr>dirty := True\<rparr>"
  have "schedule p = p1"
    using p by (simp add: schedule_def worker_take_def p1_def)
  moreover have "schedule p1 = p2" "schedule p2 = p3" "schedule p4 = p5" "schedule p5 = p6"
    by (simp_all add: schedule_def publisher_defs p1_def p2_def p3_def p4_def p5_def p6_def)
  moreover have "schedule p3 = p4"
    by (simp add: schedule_def publisher_defs p1_def p2_def p3_def p4_def KEEPALIVE_SECS_def)
  ultimately have "(schedule ^^ 6) p = p6"
    by (simp add: eval_nat_numeral)
  then show ?thesis
    using p by (simp add: p1_def p2_def p3_def p4_def p5_def p6_def cycle_start_def at_work_def)
qed

lemma demo_live_cycles: "cycle_start (demo_live (6 * k)) \<and> of_nat k \<le> clock (demo_live (6 * k))"
proof (induction k)
  case 0
  then show ?case
    by (simp add: demo_live_def cycle_start_def at_work_def demo_publisher_simps)
next
  case (Suc k)
  have "demo_live (6 * Suc k) = (schedule ^^ 6) (demo_live (6 * k))"
    unfolding demo_live_def by (simp add: funpow_add)
  with Suc cycle [of "demo_live (6 * k)"] show ?case
    by simp
qed

lemma demo_live_fair: "fair_run demo_live"
  unfolding fair_run_def
proof (intro conjI allI)
  fix i
  have next_state: "demo_live (Suc i) = schedule (demo_live i)"
    by (simp add: demo_live_def)
  show "publisher_step (demo_live i) (demo_live (Suc i))"
    and "\<exists>j\<ge>i. worker_step (demo_live j) (demo_live (Suc j)) \<or> \<not> worker_can (demo_live j)"
    using schedule_step [OF demo_live_at_work [of i]] next_state by auto
next
  fix t :: rat
  obtain k where "t < of_nat k"
    using reals_Archimedean2 by blast
  with demo_live_cycles [of k] show "\<exists>j. t \<le> clock (demo_live j)"
    by (meson less_imp_le order_trans)
qed

theorem update_is_posted_witness:
  "\<exists>j. posts (demo_live j) \<noteq> [] \<and> curplayers (snd (last (posts (demo_live j)))) = curplayers (payload (demo_live j))"
proof -
  have boot: "published (new_Publisher ''http://l/'' ''TCP://h:9111/'' ''TNFS://c'' 19 ''us'' ''PGA Golf'' ''Golf'' 0) (demo_live 0)"
    using published.step [OF published.start publisher_step.call_update] by (simp add: demo_live_def demo_publisher_def)
  from update_is_posted [OF demo_live_fair boot] obtain j where
    "stopping (demo_live j) \<or> worker (demo_live j) = Died \<or> length (posts (demo_live 0)) < length (posts (demo_live j)) \<and>
       last (posts (demo_live j)) = (clock (demo_live j), payload (demo_live j))"
    by blast
  with demo_live_at_work [of j] show ?thesis
    by (intro exI [of _ j]) (auto simp: at_work_def)
qed

end
