(* ===== verification/Whole_System.thy ===== *)
theory Whole_System
  imports Lobby_Feed Publisher_Live Execution
begin

text \<open>
  \<open>main\<close> with \<open>--lobby-enabled\<close>: the server's loop in the main thread and the publisher with its
  worker thread, together. A pass of the loop calls \<open>update\<close> of the publisher for each of its
  \<open>lobby_calls\<close>, in order; the worker moves and time passes at any moment in between. When the loop
  ends, by an exception or an interrupt, the \<open>finally\<close> block shuts the publisher down. An interrupt is
  taken between two passes, where the loop waits in \<open>select\<close>.
\<close>

subsection \<open>The system\<close>

definition background :: "Publisher \<Rightarrow> Publisher \<Rightarrow> bool" where
  "background p q \<longleftrightarrow> worker_step p q \<or> (\<exists>d\<ge>0. q = p\<lparr>clock := clock p + d\<rparr>)"

primrec hears :: "nat list \<Rightarrow> Publisher \<Rightarrow> Publisher \<Rightarrow> bool" where
  "hears [] p q \<longleftrightarrow> background\<^sup>*\<^sup>* p q"
| "hears (k # ks) p q \<longleftrightarrow> (\<exists>p'. background\<^sup>*\<^sup>* p p' \<and> hears ks (update k p') q)"

inductive system :: "int \<Rightarrow> int \<Rightarrow> Publisher \<Rightarrow> Server \<Rightarrow> Publisher \<Rightarrow> bool" for d ago p0 where
  boot: "system d ago p0 (new_Server d ago True answers rnd) (update 0 p0)"
| pass: "system d ago p0 s p \<Longrightarrow> closer p = NotCalled \<Longrightarrow> (\<And>cs. set (enum cs) = set cs) \<Longrightarrow>
    run_pass enum tm evs now failed s = (Inr tm', s') \<Longrightarrow> lobby_calls s' = lobby_calls s @ ks \<Longrightarrow>
    hears ks p q \<Longrightarrow> system d ago p0 s' q"
| loop_ends: "system d ago p0 s p \<Longrightarrow> closer p = NotCalled \<Longrightarrow> (\<And>cs. set (enum cs) = set cs) \<Longrightarrow>
    run_pass enum tm evs now failed s = (Inl e, s') \<Longrightarrow> lobby_calls s' = lobby_calls s @ ks \<Longrightarrow>
    hears ks p q \<Longrightarrow> system d ago p0 s' (begin_shutdown q)"
| interrupt: "system d ago p0 s p \<Longrightarrow> closer p = NotCalled \<Longrightarrow> system d ago p0 s (begin_shutdown p)"
| elsewhere: "system d ago p0 s p \<Longrightarrow> background p q \<Longrightarrow> system d ago p0 s q"
| shutting_down: "system d ago p0 s p \<Longrightarrow> closer p \<noteq> NotCalled \<Longrightarrow> publisher_step p q \<Longrightarrow> system d ago p0 s q"

text \<open>The publisher as \<open>main\<close> creates it; \<open>region\<close> has its default.\<close>

definition main_publisher :: "string \<Rightarrow> string \<Rightarrow> string \<Rightarrow> int \<Rightarrow> string \<Rightarrow> string \<Rightarrow> rat \<Rightarrow> Publisher" where
  "main_publisher url surl curl key gname sname t = new_Publisher url surl curl key ''us'' gname sname t"

subsection \<open>What the publisher hears\<close>

lemma background_step: "background p q \<Longrightarrow> publisher_step p q"
  by (auto simp: background_def intro: worker_step_publisher publisher_step.time_passes)

lemma worker_step_keeps: "worker_step p q \<Longrightarrow> payload q = payload p \<and> stopping q = stopping p \<and> closer q = closer p"
  by (induction rule: worker_step.induct) (auto simp: publisher_defs split: post_outcome.split)

lemma background_keeps: "background\<^sup>*\<^sup>* p q \<Longrightarrow> payload q = payload p \<and> stopping q = stopping p \<and> closer q = closer p"
  by (induction rule: rtranclp_induct) (auto simp: background_def dest: worker_step_keeps)

lemma background_published: "background\<^sup>*\<^sup>* p q \<Longrightarrow> published p0 p \<Longrightarrow> published p0 q"
  by (induction rule: rtranclp_induct) (auto intro: published.step background_step)

lemma hears_published: "hears ks p q \<Longrightarrow> published p0 p \<Longrightarrow> published p0 q"
proof (induction ks arbitrary: p)
  case (Cons k ks)
  then obtain p' where "background\<^sup>*\<^sup>* p p'" "hears ks (update k p') q"
    by auto
  with Cons show ?case
    using background_published published.step [OF _ publisher_step.call_update] by blast
qed (auto intro: background_published)

lemma hears_newest:
  "hears ks p q \<Longrightarrow> \<not> stopping p \<Longrightarrow> curplayers (payload q) = last (curplayers (payload p) # ks) \<and> \<not> stopping q"
proof (induction ks arbitrary: p)
  case (Cons k ks)
  then obtain p' where p': "background\<^sup>*\<^sup>* p p'" "hears ks (update k p') q"
    by auto
  then have "\<not> stopping (update k p')" "curplayers (payload (update k p')) = k"
    using background_keeps [OF p'(1)] Cons.prems(2) by (simp_all add: update_def)
  then show ?case
    using Cons.IH [OF p'(2)] by simp
qed (auto dest: background_keeps)

text \<open>After the first update there is always something to post or something posted.\<close>

lemma never_silent_step: "publisher_step p q \<Longrightarrow> dirty p \<or> stopping p \<or> posts p \<noteq> [] \<Longrightarrow> dirty q \<or> stopping q \<or> posts q \<noteq> []"
  by (induction rule: publisher_step.induct) (auto simp: publisher_defs split: post_outcome.split)

lemma never_silent: "published p0 p \<Longrightarrow> dirty p0 \<or> stopping p0 \<or> posts p0 \<noteq> [] \<Longrightarrow> dirty p \<or> stopping p \<or> posts p \<noteq> []"
  by (induction rule: published.induct) (auto dest: never_silent_step)

lemma curplayers_stopping: "publisher_step p q \<Longrightarrow> stopping p \<Longrightarrow> closer p \<noteq> NotCalled \<Longrightarrow> payload q = payload p"
  using stopping_step by blast

subsection \<open>The system's invariant\<close>

definition system_inv :: "Publisher \<Rightarrow> Server \<Rightarrow> Publisher \<Rightarrow> bool" where
  "system_inv p0 s p \<longleftrightarrow> told_since True [] s \<and> published p0 p \<and> published (update 0 p0) p \<and>
     curplayers (payload p) = last (0 # lobby_calls s)"

lemma told_pass:
  "told_since en base s \<Longrightarrow> run_pass enum tm evs now failed s = (r, s') \<Longrightarrow> told_since en base s'"
  using told.keeps_run_pass [of en base enum tm evs now failed] unfolding keeps_def by (metis snd_conv)

lemma system_inv_hears:
  assumes "system_inv p0 s p" and "\<not> stopping p" and "told_since True [] s'"
    and "lobby_calls s' = lobby_calls s @ ks" and "hears ks p q"
  shows "system_inv p0 s' q" and "\<not> stopping q"
  using assms hears_newest [OF assms(5,2)] hears_published [OF assms(5)]
  by (auto simp: system_inv_def split: if_splits)

lemma system_inv_quiet:
  assumes "system_inv p0 s p" and "published p q" and "curplayers (payload q) = curplayers (payload p)"
  shows "system_inv p0 s q"
  using assms published_trans by (auto simp: system_inv_def)

lemma system_keeps:
  assumes "system d ago (main_publisher url surl curl key gn sn t) s p"
  shows "system_inv (main_publisher url surl curl key gn sn t) s p \<and> (stopping p \<longleftrightarrow> closer p \<noteq> NotCalled)"
proof -
  let ?p0 = "main_publisher url surl curl key gn sn t"
  have flags: "stopping p \<longleftrightarrow> closer p \<noteq> NotCalled" if "system_inv ?p0 s p" for s p
    using that published_inv by (auto simp: system_inv_def main_publisher_def publisher_inv_def flags_ok_def)
  have shut: "system_inv ?p0 s (begin_shutdown p)" if "system_inv ?p0 s p" "closer p = NotCalled" for s p
    using that by (intro system_inv_quiet [OF that(1)] published.step [OF published.start publisher_step.call_shutdown])
      (simp_all add: begin_shutdown_def)
  from assms have "system_inv ?p0 s p"
  proof (induction rule: system.induct)
    case (boot answers rnd)
    have "published ?p0 (update 0 ?p0)"
      by (rule published.step [OF published.start publisher_step.call_update])
    then show ?case
      by (simp add: system_inv_def told_since_def new_Server_def main_publisher_def new_Publisher_def update_def
          published.start)
  next
    case (pass s p enum tm evs now failed tm' s' ks q)
    then have "\<not> stopping p" "told_since True [] s'"
      using flags [of s p] told_pass [OF _ pass(4)] unfolding system_inv_def by blast+
    from system_inv_hears(1) [OF pass(7) this pass(5,6)] show ?case .
  next
    case (loop_ends s p enum tm evs now failed e s' ks q)
    then have "\<not> stopping p" "told_since True [] s'"
      using flags [of s p] told_pass [OF _ loop_ends(4)] unfolding system_inv_def by blast+
    from system_inv_hears [OF loop_ends(7) this loop_ends(5,6)] show ?case
      using shut flags by blast
  next
    case (interrupt s p)
    then show ?case
      using shut by blast
  next
    case (elsewhere s p q)
    then have "published p q" "payload q = payload p"
      using background_published [of p q p] background_keeps [of p q] published.start by blast+
    with elsewhere show ?case
      using system_inv_quiet by simp
  next
    case (shutting_down s p q)
    then have "published p q" "payload q = payload p"
      using stopping_step [of p q] flags published.step [OF published.start, of p q] by blast+
    with shutting_down show ?case
      using system_inv_quiet by simp
  qed
  with flags show ?thesis by blast
qed

text \<open>C3: the lobby service is told who is there: with \<open>--lobby-enabled\<close>, at any moment between two
  passes of the loop and during the shutdown, the publisher's payload carries the number of
  registered names; when the publisher has nothing left to do, its last request carried that number;
  and the request of the shutdown says offline with it. This holds for every interleaving of the
  loop with the worker thread, and however the loop ends.\<close>

theorem lobby_shows_the_players:
  assumes "system d ago (main_publisher url surl curl key gn sn t) s p"
  shows "curplayers (payload p) = length (by_name s) \<and>
    (\<not> dirty p \<and> \<not> stopping p \<longrightarrow> posts p \<noteq> [] \<and> curplayers (snd (last (posts p))) = length (by_name s)) \<and>
    (\<forall>u snap. farewell p = Some (u, snap) \<longrightarrow> status snap = ''offline'' \<and> curplayers snap = length (by_name s))"
proof -
  let ?p0 = "main_publisher url surl curl key gn sn t"
  have inv: "system_inv ?p0 s p"
    using system_keeps [OF assms] by blast
  then have "published ?p0 p"
    by (simp add: system_inv_def)
  then have pub: "publisher_inv (payload ?p0) p"
    unfolding main_publisher_def by (rule published_inv)
  have count: "curplayers (payload p) = length (by_name s)"
    using inv by (simp add: system_inv_def told_since_def)
  have "dirty (update 0 ?p0)"
    by (simp add: update_def main_publisher_def new_Publisher_def)
  then have "dirty p \<or> stopping p \<or> posts p \<noteq> []"
    using inv never_silent [of "update 0 ?p0" p] by (simp add: system_inv_def)
  moreover have "fresh_ok (payload ?p0) p" "flags_ok p"
    using pub by (simp_all add: publisher_inv_def)
  ultimately show ?thesis
    using count by (auto simp: fresh_ok_def flags_ok_def)
qed

text \<open>One console connects, says HELLO as AA, and the worker posts.\<close>

definition one_player :: "event list" where
  "one_player = [Connecting (Some (1, 1)) 0, Ready 0 False (Some (Received (hello_frame (name_of 0))))]"

lemma one_player_run:
  "\<exists>s. run_pass id boot_timers one_player 0 0 (new_Server 3 0 True (\<lambda>_. []) []) = (Inr boot_timers, s) \<and>
     lobby_calls s = [1] \<and> length (by_name s) = 1"
  by (simp add: one_player_def boot_timers_def run_pass_def STATS_INTERVAL_def exec_simps cong: run_congs)

theorem lobby_shows_the_players_witness:
  "\<exists>(s :: Server) (p :: Publisher). lobby_calls s = [1] \<and> posts p \<noteq> [] \<and> curplayers (snd (last (posts p))) = length (by_name s)"
proof -
  let ?p0 = "main_publisher ''http://l/'' ''TCP://h:9111/'' ''TNFS://c'' 19 ''PGA Golf'' ''Golf'' 0"
  let ?s0 = "new_Server 3 0 True (\<lambda>_. []) []"
  let ?p1 = "update 1 (update 0 ?p0)"
  obtain s where s: "run_pass id boot_timers one_player 0 0 ?s0 = (Inr boot_timers, s)" "lobby_calls s = [1]" "length (by_name s) = 1"
    using one_player_run by blast
  have "closer (update 0 ?p0) = NotCalled" "lobby_calls s = lobby_calls ?s0 @ [1]" "hears [1] (update 0 ?p0) ?p1"
    using s(2) by (auto simp: update_def main_publisher_def new_Publisher_def new_Server_def)
  then have "system 3 0 ?p0 s ?p1"
    using system.pass [OF system.boot _ _ s(1)] by simp
  moreover have "worker_step ?p1 (worker_take ?p1)"
    by (rule worker_step.intros(2) [of _ 300]) (simp_all add: update_def main_publisher_def new_Publisher_def KEEPALIVE_SECS_def)
  moreover define q where "q = worker_take ?p1"
  ultimately have sys: "system 3 0 ?p0 s q"
    using system.elsewhere by (auto simp: background_def)
  have "\<not> dirty q" "\<not> stopping q"
    by (simp_all add: q_def worker_take_def update_def main_publisher_def new_Publisher_def)
  with lobby_shows_the_players [OF sys] s(2) show ?thesis
    by blast
qed

end
