(* ===== verification/Publisher_Test.thy ===== *)
theory Publisher_Test
  imports Lobby_Publisher
begin

text \<open>
  The contract test \<open>tools/test_lobby_pub.py\<close> with SERVER=py: the publisher it creates and the
  assertions on the first request; \<open>Publisher_Json\<close> has the comparison of its text. The mock
  lobby and the waits are in \<open>Publisher_Run\<close>; the test also shortens the keepalive, which no payload depends on.
\<close>

definition APPKEY :: int where "APPKEY = 99"
definition SERVERURL :: string where "SERVERURL = ''TCP://example:9999/''"
definition CLIENT_URL :: string where "CLIENT_URL = ''TNFS://example/game.rom''"
definition GAME :: string where "GAME = ''NASL Soccer''"
definition SERVER_NAME :: string where "SERVER_NAME = ''Soccer Netplay''"

text \<open>\<open>run_python\<close>: the publisher for the mock lobby, with one update.\<close>

definition run_python :: "string \<Rightarrow> rat \<Rightarrow> Publisher" where
  "run_python base t = update 0 (new_Publisher base SERVERURL CLIENT_URL APPKEY ''us'' GAME SERVER_NAME t)"

text \<open>The assertions on the registration \<open>posts[0]\<close>, in order: the first that fails.\<close>

datatype reg_failure = BadStatus | BadAppkey | BadServerurl | BadMaxplayers | BadClients | BadGame

definition check_registration :: "nat \<Rightarrow> Payload \<Rightarrow> reg_failure option" where
  "check_registration seats reg =
     (if status reg \<noteq> ''online'' then Some BadStatus
      else if appkey reg \<noteq> APPKEY then Some BadAppkey
      else if serverurl reg \<noteq> SERVERURL then Some BadServerurl
      else if maxplayers reg \<noteq> seats then Some BadMaxplayers
      else if platform reg \<noteq> ''intv'' \<or> client_url reg \<noteq> CLIENT_URL then Some BadClients
      else if \<not> (2 \<le> length (game reg) \<and> length (game reg) \<le> 16) then Some BadGame
      else None)"

text \<open>How \<open>main\<close> with SERVER=py goes on once a request has arrived: refused, failed, or past the check.\<close>

datatype reg_outcome = Refused | Failed reg_failure | Registered

definition registration :: "nat \<Rightarrow> Payload \<Rightarrow> reg_outcome" where
  "registration seats reg =
     (if seats \<noteq> 2 then Refused
      else case check_registration seats reg of Some f \<Rightarrow> Failed f | None \<Rightarrow> Registered)"

subsection \<open>What never changes in a payload\<close>

definition fixed_part :: "Payload \<Rightarrow> Payload" where
  "fixed_part pl = pl\<lparr>status := '''', curplayers := 0\<rparr>"

definition part_kept :: "Payload \<Rightarrow> Publisher \<Rightarrow> bool" where
  "part_kept pl p \<longleftrightarrow> fixed_part (payload p) = pl \<and> (\<forall>x \<in> set (posts p). fixed_part (snd x) = pl)"

lemma part_kept_step: "publisher_step p q \<Longrightarrow> part_kept pl p \<Longrightarrow> part_kept pl q"
  by (induction rule: publisher_step.induct)
    (auto simp: part_kept_def fixed_part_def publisher_defs split: post_outcome.split)

lemma part_kept_published: "published p0 p \<Longrightarrow> part_kept pl p0 \<Longrightarrow> part_kept pl p"
  by (induction rule: published.induct) (auto intro: part_kept_step)

lemma fixed_part_fields:
  "fixed_part a = fixed_part b \<Longrightarrow> game a = game b \<and> appkey a = appkey b \<and> serverurl a = serverurl b \<and>
     maxplayers a = maxplayers b \<and> platform a = platform b \<and> client_url a = client_url b"
  by (cases a; cases b) (simp add: fixed_part_def)

text \<open>
  The test cannot pass against the repository's own publisher: it refuses every SEATS but 2, and
  with 2 the seat count of the registration, which is 4, fails, whenever the request is made. All
  other assertions hold of every request of the worker.
\<close>

theorem publisher_test_never_passes:
  assumes "published (run_python base t) p" and "i < length (posts p)"
  shows "registration seats (snd (posts p ! i)) \<noteq> Registered \<and>
    check_registration 2 (snd (posts p ! i)) = Some BadMaxplayers \<and>
    check_registration 4 (snd (posts p ! i)) = None"
proof -
  let ?new = "new_Publisher base SERVERURL CLIENT_URL APPKEY ''us'' GAME SERVER_NAME t"
  let ?reg = "snd (posts p ! i)"
  have booted: "published ?new (run_python base t)"
    unfolding run_python_def by (rule published.step [OF published.start publisher_step.call_update])
  have "part_kept (fixed_part (payload ?new)) ?new"
    by (simp add: part_kept_def new_Publisher_def)
  then have "fixed_part ?reg = fixed_part (payload ?new)"
    using part_kept_published [OF published_trans [OF assms(1) booted]] assms(2) by (auto simp: part_kept_def)
  from fixed_part_fields [OF this] have fields: "game ?reg = GAME" "appkey ?reg = APPKEY" "serverurl ?reg = SERVERURL"
      "maxplayers ?reg = 4" "platform ?reg = ''intv''" "client_url ?reg = CLIENT_URL"
    by (simp_all add: new_Publisher_def)
  have "status ?reg = ''online''"
    using published_inv [OF published_trans [OF assms(1) booted]] assms(2)
    by (auto simp: publisher_inv_def spaced_ok_def)
  with fields have "check_registration 2 ?reg = Some BadMaxplayers" "check_registration 4 ?reg = None"
    by (simp_all add: check_registration_def GAME_def)
  then show ?thesis
    by (auto simp: registration_def)
qed

end
