(* ===== verification/Rom_Image.thy ===== *)
theory Rom_Image
  imports Relay_Prelude "HOL-Library.Sublist"
begin

text \<open>
  ROM images and the linear scan of \<open>tools/recon.py\<close>: \<open>words\<close>, the class \<open>Rom\<close> with its decoders
  \<open>jsrs\<close> and \<open>refs\<close>, and what \<open>report\<close> derives from them. Numbers are Python ints; words of an
  image are naturals below 65536 by construction.
\<close>

subsection \<open>Images\<close>

text \<open>\<open>(d[i] << 8) | d[i + 1]\<close> for the byte pairs of a file; an odd last byte is cut off.\<close>

fun words :: "bytes \<Rightarrow> nat list" where
  "words (hi # lo # rest) = (push_bit 8 (unat hi) OR unat lo) # words rest"
| "words _ = []"

lemma length_words: "length (words d) = length d div 2"
  by (induction d rule: words.induct) auto

record Rom =
  base :: int
  w :: "nat list"

definition new_Rom :: "bytes \<Rightarrow> int \<Rightarrow> Rom" where
  "new_Rom data b = \<lparr>base = b, w = words data\<rparr>"

definition rom_end :: "Rom \<Rightarrow> int" where
  "rom_end r = base r + int (length (w r))"

definition has :: "Rom \<Rightarrow> int \<Rightarrow> bool" where
  "has r addr \<longleftrightarrow> base r \<le> addr \<and> addr < rom_end r"

text \<open>\<open>xs[i]\<close> of Python: a negative index counts from the end; \<open>None\<close> is IndexError.\<close>

definition py_item :: "'a list \<Rightarrow> int \<Rightarrow> 'a option" where
  "py_item xs i =
     (if 0 \<le> i \<and> i < int (length xs) then Some (xs ! nat i)
      else if i < 0 \<and> 0 \<le> i + int (length xs) then Some (xs ! nat (i + int (length xs)))
      else None)"

definition rom_at :: "Rom \<Rightarrow> int \<Rightarrow> nat option" where
  "rom_at r addr = py_item (w r) (addr - base r)"

definition ptr :: "Rom \<Rightarrow> int \<Rightarrow> nat option" where
  "ptr r addr = (case (rom_at r addr, rom_at r (addr + 1)) of
     (Some lo, Some hi) \<Rightarrow> Some (lo OR push_bit 8 hi) | _ \<Rightarrow> None)"

lemma rom_at_inside: "has r a \<Longrightarrow> rom_at r a = Some (w r ! nat (a - base r))"
  by (simp add: has_def rom_at_def py_item_def rom_end_def)

subsection \<open>The decoders\<close>

text \<open>\<open>jsrs\<close>: what the three words at index \<open>i\<close> say as a JSR (or J): site, register, target.\<close>

definition jsr_at :: "Rom \<Rightarrow> nat \<Rightarrow> (int \<times> nat \<times> nat) option" where
  "jsr_at r i =
     (if w r ! i \<noteq> 0x0004 then None
      else let w1 = w r ! (i + 1); w2 = w r ! (i + 2)
        in if w1 AND 0xFC00 \<noteq> 0 \<or> w2 AND 0xFC00 \<noteq> 0 then None
           else Some (base r + int i, 4 + (drop_bit 8 w1 AND 3),
             push_bit 10 (drop_bit 2 (w1 AND 0xFF)) OR (w2 AND 0x3FF)))"

definition jsrs :: "Rom \<Rightarrow> (int \<times> nat \<times> nat) list" where
  "jsrs r = List.map_filter (jsr_at r) [0 ..< length (w r) - 2]"

definition OPS :: "nat \<Rightarrow> string option" where
  "OPS = map_of [(1, ''MVO''), (2, ''MVI''), (3, ''ADD''), (4, ''SUB''), (5, ''CMP''), (6, ''AND''), (7, ''XOR'')]"

text \<open>\<open>refs\<close>: site of the operand word, mnemonic, register, operand. The mnemonic is \<open>None\<close> where
  the lookup in \<open>OPS\<close> would raise KeyError.\<close>

definition ref_at :: "Rom \<Rightarrow> nat \<Rightarrow> (int \<times> string option \<times> nat \<times> nat) option" where
  "ref_at r i =
     (let v = w r ! i in
      if \<not> (0x0240 \<le> v \<and> v \<le> 0x03FF) then None
      else let op = OPS (drop_bit 6 v AND 7); mode = drop_bit 3 v AND 7; reg = v AND 7
        in if mode = 0 then Some (base r + int i + 1, op, reg, w r ! (i + 1))
           else if mode = 7 then Some (base r + int i + 1, map_option (\<lambda>m. m @ ''I'') op, reg, w r ! (i + 1))
           else None)"

definition refs :: "Rom \<Rightarrow> (int \<times> string option \<times> nat \<times> nat) list" where
  "refs r = List.map_filter (ref_at r) [0 ..< length (w r) - 1]"

lemma set_map_filter: "set (List.map_filter f xs) = {y. \<exists>x \<in> set xs. f x = Some y}"
  by (induction xs) (auto split: option.splits)

text \<open>The words of a JSR through register \<open>reg\<close>, as the patch map writes them.\<close>

definition jsr_words :: "nat \<Rightarrow> nat \<Rightarrow> nat list" where
  "jsr_words reg tgt =
     [0x0004, push_bit 8 (reg - 4) OR push_bit 2 (drop_bit 10 tgt), tgt AND 0x3FF]"

subsection \<open>What the report derives\<close>

definition RNG_CALLS :: "nat list" where "RNG_CALLS = [0x167D, 0x169E]"
definition TIMER_CALLS :: "nat list" where "TIMER_CALLS = [0x181E, 0x1831, 0x1838, 0x1844]"

definition CELLS :: "nat list" where
  "CELLS = [0x011F, 0x0120, 0x0121, 0x0122, 0x0123, 0x0124, 0x035D, 0x035E, 0x035F]"

definition PASS_FRAMES :: rat where "PASS_FRAMES = 3"
definition FRAME_HZ :: rat where "FRAME_HZ = 5992 / 100"

definition header :: "Rom \<Rightarrow> nat option \<times> nat option \<times> nat option" where
  "header r = (ptr r (base r + 2), ptr r (base r + 4), ptr r (base r + 8))"

definition display_state :: "Rom \<Rightarrow> (int \<times> nat option) list" where
  "display_state r = map (\<lambda>off. (base r + off, rom_at r (base r + off))) [0x0D, 0x0E, 0x0F, 0x10, 0x11, 0x12, 0x13]"

text \<open>The walk over the timer table: pairs of handler address and interval up to a zero address or
  the end of the image; \<open>None\<close> is IndexError.\<close>

function timer_entries :: "Rom \<Rightarrow> int \<Rightarrow> (nat \<times> nat) list option" where
  "timer_entries r a =
     (if \<not> has r (a + 3) then Some []
      else case (ptr r a, ptr r (a + 2)) of
        (Some addr, Some interval) \<Rightarrow>
          if addr = 0 then Some [] else map_option (Cons (addr, interval)) (timer_entries r (a + 4))
      | _ \<Rightarrow> None)"
  by pat_completeness auto

termination
  by (relation "measure (\<lambda>(r, a). nat (rom_end r - a))") (auto simp: has_def)

declare timer_entries.simps [simp del]

definition stopped :: "nat \<Rightarrow> bool" where "stopped interval \<longleftrightarrow> interval AND 0x8000 \<noteq> 0"

definition tick_rate :: "nat \<Rightarrow> rat option" where
  "tick_rate interval = (let iv = interval AND 0x7FFF in
     if iv = 0 then None else Some (FRAME_HZ / PASS_FRAMES / of_nat iv))"

definition tick_period_ms :: "nat \<Rightarrow> rat option" where
  "tick_period_ms interval = (let iv = interval AND 0x7FFF in
     if stopped interval \<or> iv = 0 then None else Some (1000 * of_nat iv / (FRAME_HZ / PASS_FRAMES)))"

text \<open>The calls below the image, by target in the order of their first site.\<close>

definition add_call :: "Rom \<Rightarrow> (int \<times> nat \<times> nat) \<Rightarrow> (nat \<times> int list) list \<Rightarrow> (nat \<times> int list) list" where
  "add_call r j calls =
     (case j of (site, _, tgt) \<Rightarrow>
        if int tgt < base r
        then AList.update tgt ((case map_of calls tgt of None \<Rightarrow> [] | Some ss \<Rightarrow> ss) @ [site]) calls
        else calls)"

definition exec_calls :: "Rom \<Rightarrow> (nat \<times> int list) list" where
  "exec_calls r = fold (add_call r) (jsrs r) []"

definition rng_sites :: "Rom \<Rightarrow> (int \<times> nat) list" where
  "rng_sites r =
     [(s, t). (t, ss) \<leftarrow> sort_key fst (filter (\<lambda>c. fst c \<in> set RNG_CALLS) (exec_calls r)), s \<leftarrow> ss]"

definition timer_sites :: "Rom \<Rightarrow> (int \<times> nat) list" where
  "timer_sites r =
     [(s, t). t \<leftarrow> TIMER_CALLS, s \<leftarrow> (case map_of (exec_calls r) t of None \<Rightarrow> [] | Some ss \<Rightarrow> ss)]"

definition cell_refs :: "Rom \<Rightarrow> (nat \<times> (int \<times> string option \<times> nat) list) list" where
  "cell_refs r = filter (\<lambda>c. snd c \<noteq> [])
     (map (\<lambda>cell. (cell, [(s, op, rg). (s, op, rg, v) \<leftarrow> refs r, v = cell])) CELLS)"

definition stic_writes :: "Rom \<Rightarrow> (int \<times> nat \<times> nat) list" where
  "stic_writes r = [(s, rg, v). (s, op, rg, v) \<leftarrow> refs r, op = Some ''MVO'', v \<le> 0x003F]"

definition gram_writes :: "Rom \<Rightarrow> (int \<times> nat \<times> nat) list" where
  "gram_writes r = [(s, rg, v). (s, op, rg, v) \<leftarrow> refs r, op = Some ''MVO'', 0x3800 \<le> v \<and> v \<le> 0x39FF]"

definition most_called :: "Rom \<Rightarrow> (nat \<times> int list) list" where
  "most_called r = take 8 (sort_key (\<lambda>c. - int (length (snd c))) (exec_calls r))"

subsection \<open>What the scan promises\<close>

lemma jsr_words_fields:
  assumes "k < 4" and "t < 65536"
  shows "push_bit 8 k OR push_bit 2 (drop_bit 10 t) = 256 * k + 4 * (t div 1024)"
    and "256 * k + 4 * (t div 1024) < (1024::nat)"
  using assms or_pair(1) [of "4 * (t div 1024)" 8 k]
  by (simp_all add: push_bit_eq_mult drop_bit_eq_div mult.commute)

lemma jsr_roundtrip_at:
  assumes "4 \<le> reg" and "reg < 8" and "tgt < 65536" and "i + 2 < length (w r)"
    and "take 3 (drop i (w r)) = jsr_words reg tgt"
  shows "(base r + int i, reg, tgt) \<in> set (jsrs r)"
proof -
  define k where "k = reg - 4"
  have k: "k < 4" "4 + k = reg"
    using assms(1,2) by (simp_all add: k_def)
  have "w r ! (i + j) = jsr_words reg tgt ! j" if "j < 3" for j
    using that assms(4,5) by (metis nth_take nth_drop less_imp_le_nat add_lessD1)
  from this [of 0] this [of 1] this [of 2]
  have ws: "w r ! i = 4" "w r ! (i + 1) = 256 * k + 4 * (tgt div 1024)" "w r ! (i + 2) = tgt mod 1024"
    using jsr_words_fields(1) [OF k(1) assms(3)] by (simp_all add: jsr_words_def k_def and_masks)
  have lo: "(256 * k + 4 * (tgt div 1024)) AND 0xFC00 = 0" "(tgt mod 1024) AND 0xFC00 = 0"
    using and_high_nat [of _ 10 63] jsr_words_fields(2) [OF k(1) assms(3)] by simp_all
  have target: "push_bit 10 (tgt div 1024) OR tgt mod 1024 = tgt"
    using or_pair(1) [of "tgt mod 1024" 10 "tgt div 1024"] by simp
  have "jsr_at r i = Some (base r + int i, reg, tgt)"
    using k assms(3) lo target
    by (simp add: jsr_at_def ws [simplified] Let_def and_masks drop_bit_eq_div)
  then show ?thesis
    using assms(4) by (auto simp: jsrs_def set_map_filter)
qed

text \<open>C26: the JSR encoding of the patch map and the decoder of \<open>recon.py\<close> agree: three words that
  encode a call through R4 to R7 of any 16-bit address are decoded to exactly that register and
  address, at the address of the first word.\<close>

theorem jsr_roundtrip:
  assumes "4 \<le> reg" and "reg < 8" and "tgt < 65536" and "i + 2 < length (w r)"
    and "take 3 (drop i (w r)) = jsr_words reg tgt"
  shows "(base r + int i, reg, tgt) \<in> set (jsrs r)"
  using assms by (rule jsr_roundtrip_at)

theorem jsr_roundtrip_witness:
  "(0x5001, 5, 0x167D) \<in> set (jsrs \<lparr>base = 0x5000, w = [0, 0x0004, 0x0114, 0x027D, 0]\<rparr>)"
  using jsr_roundtrip [where reg = 5 and tgt = "0x167D" and i = 1 and
      r = "\<lparr>base = 0x5000, w = [0, 0x0004, 0x0114, 0x027D, 0]\<rparr>"]
  by (simp add: jsr_words_def push_bit_eq_mult drop_bit_eq_div)

text \<open>Every site that \<open>refs\<close> reports is inside the image and is the address of the operand word
  itself, the word a patch would rewrite; the word in front of it is a direct or immediate
  instruction, and its mnemonic is known (the table lookup never fails).\<close>

theorem refs_point_at_operands:
  assumes "(site, op, reg, v) \<in> set (refs r)"
  shows "has r site \<and> rom_at r site = Some v \<and> op \<noteq> None \<and> reg < 8 \<and>
    (\<exists>opcode. rom_at r (site - 1) = Some opcode \<and> 0x0240 \<le> opcode \<and> opcode \<le> 0x03FF)"
proof -
  obtain i where "i < length (w r) - 1" and ref: "ref_at r i = Some (site, op, reg, v)"
    using assms by (auto simp: refs_def set_map_filter)
  then have i: "i + 1 < length (w r)"
    by simp
  have s: "site = base r + int i + 1" "v = w r ! (i + 1)" "reg = w r ! i AND 7"
    "0x0240 \<le> w r ! i" "w r ! i \<le> 0x03FF"
    "op = OPS (drop_bit 6 (w r ! i) AND 7) \<or> op = map_option (\<lambda>m. m @ ''I'') (OPS (drop_bit 6 (w r ! i) AND 7))"
    using ref by (auto simp: ref_at_def Let_def split: if_splits)
  have seven: "x AND 7 = x mod 8" for x :: nat
    using and_mask_nat [of x 3] by simp
  have "drop_bit 6 (w r ! i) AND 7 \<in> {1, 2, 3, 4, 5, 6, 7}"
  proof -
    have "9 \<le> w r ! i div 64" "w r ! i div 64 \<le> 15"
      using s(4,5) by simp_all
    then have "w r ! i div 64 \<in> {9, 10, 11, 12, 13, 14, 15}"
      by auto
    then show ?thesis
      by (auto simp: seven drop_bit_eq_div)
  qed
  then have "op \<noteq> None"
    using s(6) by (auto simp: OPS_def)
  moreover have "reg < 8"
    by (simp add: s(3) seven)
  moreover have "rom_at r site = Some v" "rom_at r (site - 1) = Some (w r ! i)" "has r site"
    using i by (simp_all add: s rom_at_def py_item_def has_def rom_end_def nat_add_distrib)
  ultimately show ?thesis
    using s(4,5) by auto
qed

theorem refs_point_at_operands_witness:
  "(0x5002, Some ''MVII'', 4, 0x011F) \<in> set (refs \<lparr>base = 0x5000, w = [0, 0x02BC, 0x011F]\<rparr>) \<and>
   rom_at \<lparr>base = 0x5000, w = [0, 0x02BC, 0x011F]\<rparr> 0x5002 = Some 0x011F"
proof -
  have m: "(0x5002, Some ''MVII'', 4, 0x011F) \<in> set (refs \<lparr>base = 0x5000, w = [0, 0x02BC, 0x011F]\<rparr>)"
    by (simp add: refs_def ref_at_def List.map_filter_def OPS_def upt_rec drop_bit_eq_div
      and_mask_nat [of _ 3, simplified])
  with refs_point_at_operands [OF m] show ?thesis by blast
qed

text \<open>The calls collected for a target are its sites, in the order of the image.\<close>

definition sites_of :: "nat \<Rightarrow> (nat \<times> int list) list \<Rightarrow> int list" where
  "sites_of t calls = (case map_of calls t of None \<Rightarrow> [] | Some ss \<Rightarrow> ss)"

lemma sites_of_add_call:
  "sites_of t (add_call r (s, rg, t') calls) =
     sites_of t calls @ (if t' = t \<and> int t < base r then [s] else [])"
  by (auto simp: sites_of_def add_call_def update_conv' split: option.split)

lemma sites_of_fold:
  "sites_of t (fold (add_call r) js calls) =
     sites_of t calls @ [s. (s, rg, t') \<leftarrow> js, t' = t \<and> int t < base r]"
proof (induction js arbitrary: calls)
  case (Cons j js)
  obtain s rg t' where "j = (s, rg, t')"
    by (cases j)
  with Cons show ?case by (simp add: sites_of_add_call)
qed simp

lemma sites_of_exec_calls:
  "sites_of t (exec_calls r) = [s. (s, rg, t') \<leftarrow> jsrs r, t' = t \<and> int t < base r]"
  unfolding exec_calls_def sites_of_fold by (simp add: sites_of_def)

lemma distinct_exec_calls: "distinct (map fst (exec_calls r))"
proof -
  have "distinct (map fst calls) \<Longrightarrow> distinct (map fst (fold (add_call r) js calls))" for js calls
  proof (induction js arbitrary: calls)
    case (Cons j js)
    have "distinct (map fst (add_call r j calls))"
      using Cons.prems by (cases j) (simp add: add_call_def AList.distinct_update)
    with Cons.IH show ?case by simp
  qed simp
  then show ?thesis by (simp add: exec_calls_def)
qed

lemma in_exec_calls:
  "(t, ss) \<in> set (exec_calls r) \<Longrightarrow> ss = sites_of t (exec_calls r)"
  using distinct_exec_calls [of r] by (simp add: sites_of_def)

text \<open>The list of RNG call sites is exact: it holds a site exactly when the scan decodes a call
  of one of the two EXEC random routines there (for an image that starts above them).\<close>

theorem rng_sites_exact:
  assumes "0x169E < base r"
  shows "(s, t) \<in> set (rng_sites r) \<longleftrightarrow> t \<in> {0x167D, 0x169E} \<and> (\<exists>rg. (s, rg, t) \<in> set (jsrs r))"
proof
  assume "(s, t) \<in> set (rng_sites r)"
  then obtain ss where ss: "(t, ss) \<in> set (exec_calls r)" "t \<in> set RNG_CALLS" "s \<in> set ss"
    by (auto simp: rng_sites_def)
  then have "s \<in> set (sites_of t (exec_calls r))"
    using in_exec_calls by blast
  with ss(2) show "t \<in> {0x167D, 0x169E} \<and> (\<exists>rg. (s, rg, t) \<in> set (jsrs r))"
    by (auto simp: sites_of_exec_calls RNG_CALLS_def split: if_splits)
next
  assume t: "t \<in> {0x167D, 0x169E} \<and> (\<exists>rg. (s, rg, t) \<in> set (jsrs r))"
  then have "s \<in> set (sites_of t (exec_calls r))"
    using assms by (force simp: sites_of_exec_calls)
  then obtain ss where "map_of (exec_calls r) t = Some ss" "s \<in> set ss"
    by (cases "map_of (exec_calls r) t") (auto simp: sites_of_def)
  with t show "(s, t) \<in> set (rng_sites r)"
    by (force simp: rng_sites_def RNG_CALLS_def dest: map_of_SomeD)
qed

theorem rng_sites_exact_witness:
  "(0x5001, 0x167D) \<in> set (rng_sites \<lparr>base = 0x5000, w = [0, 0x0004, 0x0114, 0x027D, 0]\<rparr>)"
proof -
  have "(0x5001, 5, 0x167D) \<in> set (jsrs \<lparr>base = 0x5000, w = [0, 0x0004, 0x0114, 0x027D, 0]\<rparr>)"
    by (simp add: jsrs_def jsr_at_def List.map_filter_def upt_rec drop_bit_eq_div push_bit_eq_mult
      and_masks and_high_nat [of 10 10 63, simplified] and_high_nat [of _ 10 63, simplified])
  then show ?thesis
    using rng_sites_exact [of "\<lparr>base = 0x5000, w = [0, 0x0004, 0x0114, 0x027D, 0]\<rparr>" "0x5001" "0x167D"]
    by auto
qed

text \<open>The walk over the timer table is safe and ends for any image: starting inside it, it reads
  only words of the image (no IndexError) and returns every entry in front of the first zero
  address, at most one per four words.\<close>

theorem timer_walk_is_safe:
  assumes "base r \<le> a"
  shows "\<exists>es. timer_entries r a = Some es \<and> 4 * int (length es) \<le> max 0 (rom_end r - a) \<and>
    (\<forall>i < length es. ptr r (a + 4 * int i) = Some (fst (es ! i)) \<and>
       ptr r (a + 4 * int i + 2) = Some (snd (es ! i)) \<and> fst (es ! i) \<noteq> 0)"
  using assms
proof (induction r a rule: timer_entries.induct)
  case (1 r a)
  show ?case
  proof (cases "has r (a + 3)")
    case False
    then show ?thesis
      by (simp add: timer_entries.simps [of r a])
  next
    case True
    then have inside: "has r a" "has r (a + 1)" "has r (a + 2)" "has r (a + 2 + 1)"
      using 1 by (auto simp: has_def)
    then obtain addr iv where p: "ptr r a = Some addr" "ptr r (a + 2) = Some iv"
      by (simp add: ptr_def rom_at_inside)
    show ?thesis
    proof (cases "addr = 0")
      case True
      with \<open>has r (a + 3)\<close> p show ?thesis
        by (simp add: timer_entries.simps [of r a])
    next
      case False
      then obtain es where es: "timer_entries r (a + 4) = Some es"
        "4 * int (length es) \<le> max 0 (rom_end r - (a + 4))"
        "\<forall>i < length es. ptr r (a + 4 + 4 * int i) = Some (fst (es ! i)) \<and>
          ptr r (a + 4 + 4 * int i + 2) = Some (snd (es ! i)) \<and> fst (es ! i) \<noteq> 0"
        using "1.IH" [OF _ refl] True p "1.prems" by (metis (no_types, lifting) add.commute add_increasing zero_le_numeral)
      have "\<forall>i < length ((addr, iv) # es). ptr r (a + 4 * int i) = Some (fst (((addr, iv) # es) ! i)) \<and>
          ptr r (a + 4 * int i + 2) = Some (snd (((addr, iv) # es) ! i)) \<and> fst (((addr, iv) # es) ! i) \<noteq> 0"
      proof (intro allI impI)
        fix i
        assume i: "i < length ((addr, iv) # es)"
        show "ptr r (a + 4 * int i) = Some (fst (((addr, iv) # es) ! i)) \<and>
          ptr r (a + 4 * int i + 2) = Some (snd (((addr, iv) # es) ! i)) \<and> fst (((addr, iv) # es) ! i) \<noteq> 0"
        proof (cases i)
          case 0
          with p False show ?thesis by simp
        next
          case (Suc j)
          with i es(3) have "ptr r (a + 4 + 4 * int j) = Some (fst (es ! j)) \<and>
            ptr r (a + 4 + 4 * int j + 2) = Some (snd (es ! j)) \<and> fst (es ! j) \<noteq> 0"
            by simp
          with Suc show ?thesis by (simp add: algebra_simps)
        qed
      qed
      moreover have "timer_entries r a = Some ((addr, iv) # es)"
        using True p False es(1) by (simp add: timer_entries.simps [of r a])
      moreover have "4 * int (length ((addr, iv) # es)) \<le> max 0 (rom_end r - a)"
        using es(2) True by (auto simp: has_def max_def split: if_splits)
      ultimately show ?thesis by blast
    qed
  qed
qed

theorem timer_walk_is_safe_witness:
  "\<exists>es. timer_entries \<lparr>base = 0x5000, w = [0x34, 0x50, 2, 0, 0, 0, 0, 0]\<rparr> 0x5000 = Some es \<and>
    4 * int (length es) \<le> 8"
  using timer_walk_is_safe [of "\<lparr>base = 0x5000, w = [0x34, 0x50, 2, 0, 0, 0, 0, 0]\<rparr>" "0x5000"]
  by (auto simp: rom_end_def)

end
