(* ===== verification/Rom_Patch.thy ===== *)
theory Rom_Patch
  imports Rom_Image
begin

text \<open>
  Patching the ROM: the patch map \<open>tools/patches.py\<close>, the source generator \<open>tools/dump_rom.py\<close> and
  the verifier \<open>tools/check_patch.py\<close>. The assembler as1600 is no part of the repository: what it
  makes of an expression is a parameter \<open>asm\<close>, what it makes of a line of the dump is \<open>emitted\<close>
  (DECLE emits its operands in order), and the value of the expression forms used by the patch
  map is the hypothesis \<open>evaluates\<close>.
\<close>

subsection \<open>The patch map\<close>

definition call_hi :: "string \<Rightarrow> string" where
  "call_hi l = ''(('' @ l @ '' SHR 10) SHL 2) OR $0100''"

definition call_lo :: "string \<Rightarrow> string" where
  "call_lo l = l @ '' AND $3FF''"

definition PATCHES :: "(int \<times> string) list" where
  "PATCHES = [
     (0x5002, ''NEW_TIMER_TBL AND $FF''), (0x5003, ''NEW_TIMER_TBL SHR 8''),
     (0x5004, ''NET_START AND $FF''), (0x5005, ''NET_START SHR 8''),
     (0x55FF, call_hi ''GF_RAND1''), (0x5600, call_lo ''GF_RAND1''),
     (0x5607, call_hi ''GF_RAND1''), (0x5608, call_lo ''GF_RAND1''),
     (0x564B, call_hi ''GF_RAND1''), (0x564C, call_lo ''GF_RAND1''),
     (0x5653, call_hi ''GF_RAND1''), (0x5654, call_lo ''GF_RAND1''),
     (0x52FA, call_hi ''GF_RAND2''), (0x52FB, call_lo ''GF_RAND2''),
     (0x55A2, call_hi ''GF_RAND2''), (0x55A3, call_lo ''GF_RAND2''),
     (0x55C5, call_hi ''GF_RAND2''), (0x55C6, call_lo ''GF_RAND2''),
     (0x5BEF, call_hi ''GF_RAND2''), (0x5BF0, call_lo ''GF_RAND2''),
     (0x525B, call_hi ''GF_ARM_SHIM''), (0x525C, call_lo ''GF_ARM_SHIM''),
     (0x5353, call_hi ''GF_ARM_SHIM''), (0x5354, call_lo ''GF_ARM_SHIM''),
     (0x535F, call_hi ''GF_ARM_SHIM''), (0x5360, call_lo ''GF_ARM_SHIM''),
     (0x503C, call_hi ''GF_STOP_SHIM''), (0x503D, call_lo ''GF_STOP_SHIM''),
     (0x527C, call_hi ''GF_STOP_SHIM''), (0x527D, call_lo ''GF_STOP_SHIM''),
     (0x53CF, call_hi ''GF_STOP_SHIM''), (0x53D0, call_lo ''GF_STOP_SHIM''),
     (0x53D6, call_hi ''GF_STOP_SHIM''), (0x53D7, call_lo ''GF_STOP_SHIM''),
     (0x5260, ''SHADOW_CTRL''), (0x526E, ''SHADOW_CTRL + 2'')]"

text \<open>A dict literal (and the result of \<open>ast.literal_eval\<close>): a later entry replaces an earlier one.\<close>

definition dict_of :: "(int \<times> string) list \<Rightarrow> int \<rightharpoonup> string" where
  "dict_of ps = map_of (rev ps)"

lemma dom_dict_of: "dict_of ps a \<noteq> None \<longleftrightarrow> a \<in> fst ` set ps"
  by (simp add: dict_of_def map_of_eq_None_iff)

text \<open>The documented value of the call expressions, for symbols that are 16-bit addresses.\<close>

definition SHIMS :: "string list" where
  "SHIMS = [''GF_RAND1'', ''GF_RAND2'', ''GF_ARM_SHIM'', ''GF_STOP_SHIM'']"

definition evaluates :: "(string \<Rightarrow> nat) \<Rightarrow> (string \<Rightarrow> nat) \<Rightarrow> bool" where
  "evaluates asm symval \<longleftrightarrow> (\<forall>l \<in> set SHIMS. symval l < 65536 \<and>
     asm (call_hi l) = push_bit 2 (drop_bit 10 (symval l)) OR 0x100 \<and>
     asm (call_lo l) = symval l AND 0x3FF)"

subsection \<open>The source generator\<close>

text \<open>A line of the dump: unpatched words, or one patched word with its original value.\<close>

datatype dump_line = Row "nat list" int | Patched string int nat

fun flush_row :: "nat list \<Rightarrow> int \<Rightarrow> dump_line list" where
  "flush_row [] addr = []"
| "flush_row row addr = [Row row (addr - int (length row))]"

primrec dump_words :: "(int \<rightharpoonup> string) \<Rightarrow> int \<Rightarrow> nat list \<Rightarrow> nat list \<Rightarrow> dump_line list" where
  "dump_words patches addr row [] = flush_row row addr"
| "dump_words patches addr row (x # xs) =
     (case patches addr of
        Some e \<Rightarrow> flush_row row addr @ Patched e addr x # dump_words patches (addr + 1) [] xs
      | None \<Rightarrow>
          if length row + 1 = 8 then Row (row @ [x]) (addr - 7) # dump_words patches (addr + 1) [] xs
          else dump_words patches (addr + 1) (row @ [x]) xs)"

text \<open>\<open>main\<close>: the two assertions, then the lines after the ORG directive.\<close>

definition dump_rom :: "bytes \<Rightarrow> int \<Rightarrow> (int \<times> string) list \<Rightarrow> pyexn + dump_line list" where
  "dump_rom data b patches =
     (if length data mod 2 \<noteq> 0 then Inl AssertionError
      else if \<exists>a \<in> fst ` set patches. a \<notin> {b ..< b + int (length (words data))} then Inl AssertionError
      else Inr (dump_words (dict_of patches) b [] (words data)))"

text \<open>What the assembler emits for a line.\<close>

primrec emitted :: "(string \<Rightarrow> nat) \<Rightarrow> dump_line \<Rightarrow> nat list" where
  "emitted asm (Row xs a) = xs"
| "emitted asm (Patched e a x) = [asm e]"

primrec line_addr :: "dump_line \<Rightarrow> int" where
  "line_addr (Row xs a) = a"
| "line_addr (Patched e a x) = a"

definition assembled :: "(string \<Rightarrow> nat) \<Rightarrow> dump_line list \<Rightarrow> nat list" where
  "assembled asm ls = concat (map (emitted asm) ls)"

text \<open>Every line's comment names the address its first word is assembled at.\<close>

primrec addresses_right :: "(string \<Rightarrow> nat) \<Rightarrow> int \<Rightarrow> dump_line list \<Rightarrow> bool" where
  "addresses_right asm addr [] \<longleftrightarrow> True"
| "addresses_right asm addr (l # ls) \<longleftrightarrow>
     line_addr l = addr \<and> addresses_right asm (addr + int (length (emitted asm l))) ls"

definition patched_word :: "(string \<Rightarrow> nat) \<Rightarrow> (int \<rightharpoonup> string) \<Rightarrow> int \<Rightarrow> nat \<Rightarrow> nat" where
  "patched_word asm patches addr x = (case patches addr of None \<Rightarrow> x | Some e \<Rightarrow> asm e)"

primrec patched_words :: "(string \<Rightarrow> nat) \<Rightarrow> (int \<rightharpoonup> string) \<Rightarrow> int \<Rightarrow> nat list \<Rightarrow> nat list" where
  "patched_words asm patches addr [] = []"
| "patched_words asm patches addr (x # xs) =
     patched_word asm patches addr x # patched_words asm patches (addr + 1) xs"

lemma nth_patched_words:
  "i < length xs \<Longrightarrow> patched_words asm patches addr xs ! i = patched_word asm patches (addr + int i) (xs ! i)"
  by (induction xs arbitrary: addr i) (auto simp: nth_Cons algebra_simps split: nat.split)

lemma length_patched_words [simp]: "length (patched_words asm patches addr xs) = length xs"
  by (induction xs arbitrary: addr) auto

lemma assembled_flush_row [simp]: "assembled asm (flush_row row a @ ls) = row @ assembled asm ls"
  by (cases row) (simp_all add: assembled_def)

lemma assembled_Cons [simp]: "assembled asm (l # ls) = emitted asm l @ assembled asm ls"
  by (simp add: assembled_def)

lemma dump_words_assembled:
  "assembled asm (dump_words patches addr row xs) = row @ patched_words asm patches addr xs"
proof (induction xs arbitrary: addr row)
  case Nil
  show ?case
    using assembled_flush_row [of asm row addr "[]"] by (simp add: assembled_def)
qed (auto simp: patched_word_def split: option.split)

lemma addresses_right_flush_row:
  "addresses_right asm (addr - int (length row)) (flush_row row addr @ ls) = addresses_right asm addr ls"
  by (cases row) (simp_all add: algebra_simps)

lemma dump_words_addresses:
  "length row < 8 \<Longrightarrow> addresses_right asm (addr - int (length row)) (dump_words patches addr row xs)"
proof (induction xs arbitrary: addr row)
  case Nil
  show ?case
    using addresses_right_flush_row [of asm addr row "[]"] by simp
next
  case (Cons x xs)
  have next_line: "addresses_right asm (addr + 1) (dump_words patches (addr + 1) [] xs)"
    using Cons.IH [of "[]" "addr + 1"] by simp
  show ?case
  proof (cases "patches addr")
    case None
    then show ?thesis
      using Cons.IH [of "row @ [x]" "addr + 1"] Cons.prems next_line by (auto simp: algebra_simps)
  next
    case (Some e)
    with next_line show ?thesis
      by (simp add: addresses_right_flush_row)
  qed
qed

text \<open>The bytes of a word image, high byte first.\<close>

definition image_bytes :: "nat list \<Rightarrow> bytes" where
  "image_bytes ws = concat (map (\<lambda>x. [of_nat (x div 256), of_nat x]) ws)"

lemma byte_256: "(256 :: byte) = 0"
  by transfer (simp add: take_bit_eq_mod)

lemma image_bytes_Cons:
  "image_bytes ((push_bit 8 (unat hi) OR unat lo) # ws) = hi # lo # image_bytes ws"
proof -
  have "(256 * unat hi + unat lo) div 256 = unat hi"
    using unat_byte [of lo] by simp
  then show ?thesis
    unfolding byte_pair image_bytes_def by (simp add: byte_256)
qed

lemma image_bytes_words: "even (length data) \<Longrightarrow> image_bytes (words data) = data"
proof (induction data rule: words.induct)
  case (1 hi lo rest)
  then show ?case
    by (simp only: words.simps image_bytes_Cons) simp
qed (simp_all add: image_bytes_def)

lemma words_image_bytes:
  "\<forall>x \<in> set ws. x < 65536 \<Longrightarrow> words (image_bytes ws) = ws"
proof (induction ws)
  case (Cons x ws)
  then have "unat (of_nat (x div 256) :: byte) = x div 256" "unat (of_nat x :: byte) = x mod 256"
    by (simp_all add: unat_of_nat less_mult_imp_div_less)
  then have "push_bit 8 (unat (of_nat (x div 256) :: byte)) OR unat (of_nat x :: byte) = x"
    unfolding byte_pair by simp
  with Cons show ?case
    by (simp add: image_bytes_def)
qed (simp add: image_bytes_def)

lemma words_bounded: "x \<in> set (words data) \<Longrightarrow> x < 65536"
proof (induction data rule: words.induct)
  case (1 hi lo rest)
  have "256 * unat hi + unat lo < 65536"
    using unat_byte [of lo] unat_byte [of hi] by simp
  with 1 show ?case
    unfolding words.simps byte_pair by auto
qed simp_all

subsection \<open>The verifier\<close>

text \<open>\<open>words(path, count)\<close> of \<open>tools/check_patch.py\<close>; \<open>None\<close> is the IndexError of a short file.\<close>

fun words_count :: "nat \<Rightarrow> bytes \<Rightarrow> nat list option" where
  "words_count 0 data = Some []"
| "words_count (Suc n) (hi # lo # rest) =
     map_option ((#) (push_bit 8 (unat hi) OR unat lo)) (words_count n rest)"
| "words_count (Suc n) _ = None"

record verdict =
  bad :: "(int \<times> nat \<times> nat) list"
  unpatched :: "int list"

fun compare_words :: "(int \<rightharpoonup> string) \<Rightarrow> int \<Rightarrow> nat list \<Rightarrow> nat list \<Rightarrow> verdict" where
  "compare_words patches addr (a # as) (b # bs) =
     (let v = compare_words patches (addr + 1) as bs in
      if patches addr \<noteq> None then (if a = b then v\<lparr>unpatched := addr # unpatched v\<rparr> else v)
      else if a \<noteq> b then v\<lparr>bad := (addr, a, b) # bad v\<rparr> else v)"
| "compare_words patches addr _ _ = \<lparr>bad = [], unpatched = []\<rparr>"

definition check_patch :: "(int \<times> string) list \<Rightarrow> bytes \<Rightarrow> bytes \<Rightarrow> pyexn + verdict" where
  "check_patch patches orig_data hook_data =
     (let orig = words orig_data in
      case words_count (length orig) hook_data of
        None \<Rightarrow> Inl IndexError
      | Some hooked \<Rightarrow> Inr (compare_words (dict_of patches) 0x5000 orig hooked))"

definition exit_status :: "verdict \<Rightarrow> nat" where
  "exit_status v = (if bad v = [] then 0 else 1)"

lemma words_count_take:
  "words_count n data = (if n \<le> length data div 2 then Some (take n (words data)) else None)"
  by (induction n data rule: words_count.induct) auto

lemma bad_compare:
  "length as = length bs \<Longrightarrow> (x, a, b) \<in> set (bad (compare_words patches addr as bs)) \<longleftrightarrow>
     (\<exists>i < length as. x = addr + int i \<and> a = as ! i \<and> b = bs ! i \<and> a \<noteq> b \<and> patches x = None)"
proof (induction patches addr as bs rule: compare_words.induct)
  case (1 patches addr c cs d ds)
  have split: "(\<exists>i < length (c # cs). x = addr + int i \<and> a = (c # cs) ! i \<and> b = (d # ds) ! i \<and> a \<noteq> b \<and> patches x = None) \<longleftrightarrow>
      (x = addr \<and> a = c \<and> b = d \<and> a \<noteq> b \<and> patches x = None) \<or>
      (\<exists>i < length cs. x = addr + 1 + int i \<and> a = cs ! i \<and> b = ds ! i \<and> a \<noteq> b \<and> patches x = None)"
    unfolding length_Cons Ex_less_Suc2 by (simp add: algebra_simps)
  show ?case
    unfolding split using 1 by (auto simp: Let_def)
qed simp_all

subsection \<open>What the tools promise\<close>

lemma dump_rom_runs:
  assumes "even (length data)" and "\<forall>a \<in> fst ` set ps. b \<le> a \<and> a < b + int (length data div 2)"
  shows "dump_rom data b ps = Inr (dump_words (dict_of ps) b [] (words data))"
  using assms by (auto simp: dump_rom_def length_words even_iff_mod_2_eq_zero)

text \<open>The generated source is the patched image: for a file of whole words and patches inside it
  the generator succeeds, the source assembles to as many words as the file has, a declared address
  holds the value of its expression and every other one the original word, and the address comment
  of every line is the address its first word is assembled at.\<close>

theorem dump_is_the_patched_image:
  assumes "even (length data)" and "\<forall>a \<in> fst ` set ps. b \<le> a \<and> a < b + int (length data div 2)"
  shows "\<exists>ls. dump_rom data b ps = Inr ls \<and> addresses_right asm b ls \<and>
    length (assembled asm ls) = length data div 2 \<and>
    (\<forall>i < length data div 2. assembled asm ls ! i =
       (case dict_of ps (b + int i) of None \<Rightarrow> words data ! i | Some e \<Rightarrow> asm e))"
  using dump_words_addresses [of "[]" asm b "dict_of ps" "words data"]
  by (simp add: dump_rom_runs [OF assms] dump_words_assembled length_words nth_patched_words patched_word_def)

theorem dump_is_the_patched_image_witness:
  "\<exists>ls. dump_rom [0, 1, 0, 2, 0, 3] 0x5000 [(0x5001, ''X'')] = Inr ls \<and>
    length (assembled (\<lambda>_. 7) ls) = 3 \<and> assembled (\<lambda>_. 7) ls ! 1 = 7 \<and> assembled (\<lambda>_. 7) ls ! 2 = 3"
  using dump_is_the_patched_image [of "[0, 1, 0, 2, 0, 3]" "[(0x5001, ''X'')]" "0x5000" "\<lambda>_. 7"]
  by (auto simp: dict_of_def)

text \<open>Without a patch file the build is byte-identical to the original, for every image of an
  even size: the guard \<open>make verify-org\<close> never fails because of the generator.\<close>

theorem unpatched_build_is_identical:
  assumes "even (length data)"
  shows "\<exists>ls. dump_rom data b [] = Inr ls \<and> image_bytes (assembled asm ls) = data"
proof -
  have "patched_words asm (dict_of []) addr ws = ws" for addr ws
    by (induction ws arbitrary: addr) (simp_all add: patched_word_def dict_of_def)
  then show ?thesis
    using assms by (simp add: dump_rom_runs dump_words_assembled image_bytes_words)
qed

theorem unpatched_build_is_identical_witness:
  "\<exists>ls. dump_rom [0x12, 0x34, 0xFF, 0] 0x5000 [] = Inr ls \<and> image_bytes (assembled (\<lambda>_. 0) ls) = [0x12, 0x34, 0xFF, 0]"
  using unpatched_build_is_identical [of "[0x12, 0x34, 0xFF, 0]" "0x5000" "\<lambda>_. 0"] by simp

abbreviation checked :: "(int \<times> string) list \<Rightarrow> bytes \<Rightarrow> bytes \<Rightarrow> verdict" where
  "checked ps orig hook \<equiv>
     compare_words (dict_of ps) 0x5000 (words orig) (take (length (words orig)) (words hook))"

lemma check_patch_runs:
  "length orig div 2 \<le> length hook div 2 \<Longrightarrow> check_patch ps orig hook = Inr (checked ps orig hook)"
  by (simp add: check_patch_def words_count_take length_words)

lemma bad_checked:
  assumes "length orig div 2 \<le> length hook div 2"
  shows "(x, a, b) \<in> set (bad (checked ps orig hook)) \<longleftrightarrow> (\<exists>i < length orig div 2. x = 0x5000 + int i \<and>
       a = words orig ! i \<and> b = words hook ! i \<and> a \<noteq> b \<and> dict_of ps x = None)"
  using assms by (subst bad_compare) (auto simp: length_words)

lemma status_checked:
  assumes "length orig div 2 \<le> length hook div 2"
  shows "exit_status (checked ps orig hook) = 0 \<longleftrightarrow> (\<forall>i < length orig div 2.
       words orig ! i \<noteq> words hook ! i \<longrightarrow> 0x5000 + int i \<in> fst ` set ps)"
proof -
  have nil: "xs = [] \<longleftrightarrow> (\<forall>x a b. (x, a, b) \<notin> set xs)" for xs :: "(int \<times> nat \<times> nat) list"
    by (cases xs) auto
  have "exit_status (checked ps orig hook) = 0 \<longleftrightarrow> (\<forall>i < length orig div 2.
      words orig ! i \<noteq> words hook ! i \<longrightarrow> dict_of ps (0x5000 + int i) \<noteq> None)"
    unfolding exit_status_def nil bad_checked [OF assms] by auto
  then show ?thesis
    unfolding dom_dict_of .
qed

text \<open>C27: the verifier accepts a hooked image exactly when every word that differs from the original
  is a declared patch site, and it reports exactly the others; a hooked file that is shorter than
  the original is an IndexError.\<close>

theorem check_accepts_exactly_declared_changes:
  assumes "length orig div 2 \<le> length hook div 2"
  shows "\<exists>v. check_patch ps orig hook = Inr v \<and>
    (\<forall>x a b. (x, a, b) \<in> set (bad v) \<longleftrightarrow> (\<exists>i < length orig div 2. x = 0x5000 + int i \<and>
       a = words orig ! i \<and> b = words hook ! i \<and> a \<noteq> b \<and> dict_of ps x = None)) \<and>
    (exit_status v = 0 \<longleftrightarrow> (\<forall>i < length orig div 2.
       words orig ! i \<noteq> words hook ! i \<longrightarrow> 0x5000 + int i \<in> fst ` set ps))"
proof (intro exI conjI allI)
  show "check_patch ps orig hook = Inr (checked ps orig hook)"
    using assms by (rule check_patch_runs)
qed (rule bad_checked [OF assms] status_checked [OF assms])+


theorem check_accepts_exactly_declared_changes_witness:
  "\<exists>v. check_patch [(0x5001, ''X'')] [0, 1, 0, 2] [0, 1, 9, 9] = Inr v \<and> exit_status v = 0"
proof -
  have two: "(\<forall>i < length [0, 1, 0, 2 :: byte] div 2. P i) \<longleftrightarrow> P 0 \<and> P 1" for P
  proof -
    have "length [0, 1, 0, 2 :: byte] div 2 = Suc (Suc 0)"
      by simp
    then show ?thesis
      by (simp only: All_less_Suc One_nat_def) auto
  qed
  have enough: "length [0, 1, 0, 2 :: byte] div 2 \<le> length [0, 1, 9, 9 :: byte] div 2"
    by simp
  show ?thesis
  proof (rule exE [OF check_accepts_exactly_declared_changes [OF enough, of "[(0x5001, ''X'')]"]], elim conjE)
    fix v
    assume v: "check_patch [(0x5001, ''X'')] [0, 1, 0, 2] [0, 1, 9, 9] = Inr v"
      and status: "exit_status v = 0 \<longleftrightarrow> (\<forall>i < length [0, 1, 0, 2 :: byte] div 2.
        words [0, 1, 0, 2] ! i \<noteq> words [0, 1, 9, 9] ! i \<longrightarrow> 0x5000 + int i \<in> fst ` set [(0x5001, ''X'')])"
    from status have "exit_status v = 0"
      unfolding two by simp
    with v show ?thesis by blast
  qed
qed

text \<open>C28: generator and verifier agree: whatever the declared expressions evaluate to, the image
  assembled from the generated source passes the verifier, also with further segments behind it.\<close>

theorem patched_build_verifies:
  assumes "dump_rom orig 0x5000 ps = Inr ls" and "\<forall>e. asm e < 65536"
  shows "\<exists>v. check_patch ps orig (image_bytes (assembled asm ls) @ rest) = Inr v \<and> exit_status v = 0"
proof -
  let ?ws = "patched_words asm (dict_of ps) 0x5000 (words orig)"
  have ls: "assembled asm ls = ?ws"
    using assms(1) by (auto simp: dump_rom_def dump_words_assembled split: if_splits)
  have bounded: "x < 65536" if "x \<in> set ?ws" for x
  proof -
    obtain i where "i < length (words orig)" "x = ?ws ! i"
      using \<open>x \<in> set ?ws\<close> by (auto simp: in_set_conv_nth)
    then show ?thesis
      using assms(2) words_bounded [of "words orig ! i" orig]
      by (auto simp: nth_patched_words patched_word_def split: option.split)
  qed
  have hook: "words (image_bytes ws @ rest) = ws @ words rest" if "\<forall>x \<in> set ws. x < 65536" for ws
    using that
  proof (induction ws)
    case (Cons x ws)
    then show ?case
      using words_image_bytes [of "x # ws"] by (simp add: image_bytes_def)
  qed (simp add: image_bytes_def)
  have len: "length (image_bytes ws) = 2 * length ws" for ws
    by (induction ws) (simp_all add: image_bytes_def)
  have long: "length orig div 2 \<le> length (image_bytes ?ws @ rest) div 2"
    by (simp add: len length_words)
  have image: "words (image_bytes ?ws @ rest) = ?ws @ words rest"
    using bounded by (intro hook ballI)
  have "0x5000 + int i \<in> fst ` set ps"
    if "i < length orig div 2" "words orig ! i \<noteq> words (image_bytes ?ws @ rest) ! i" for i
    using that [unfolded image] dom_dict_of [of ps "0x5000 + int i"]
    by (auto simp: nth_append length_words nth_patched_words patched_word_def split: option.splits)
  then have "exit_status (checked ps orig (image_bytes ?ws @ rest)) = 0"
    unfolding status_checked [OF long] by blast
  then show ?thesis
    using check_patch_runs [OF long] ls by (intro exI conjI) simp_all
qed

theorem patched_build_verifies_witness:
  "\<exists>v. check_patch [(0x5000, ''X'')] [0, 1, 0, 2]
     (image_bytes (assembled (\<lambda>_. 9) [Patched ''X'' 0x5000 1, Row [2] 0x5001]) @ []) = Inr v \<and> exit_status v = 0"
proof (rule patched_build_verifies)
  show "dump_rom [0, 1, 0, 2] 0x5000 [(0x5000, ''X'')] = Inr [Patched ''X'' 0x5000 1, Row [2] 0x5001]"
    by (simp add: dump_rom_def dict_of_def)
qed simp

lemma patch_pairs:
  "list_all (\<lambda>(a, e). list_all (\<lambda>l. e = call_hi l \<longrightarrow>
     0x5001 \<le> a \<and> a < 0x5FFE \<and> dict_of PATCHES (a - 1) = None \<and>
     dict_of PATCHES a = Some (call_hi l) \<and> dict_of PATCHES (a + 1) = Some (call_lo l)) SHIMS) PATCHES"
  by code_simp

text \<open>C29: the patch map redirects calls: where the original ROM has the opcode word of a JSR in front
  of a pair of patched words, the scan of the patched image decodes a call through R5 to exactly
  the shim that the patch names.\<close>

theorem patched_calls_reach_their_shims:
  assumes "evaluates asm symval" and "length data = 0x2000" and "l \<in> set SHIMS"
    and "(a, call_hi l) \<in> set PATCHES" and "words data ! nat (a - 0x5001) = 0x0004"
    and "dump_rom data 0x5000 PATCHES = Inr ls"
  shows "(a - 1, 5, symval l) \<in> set (jsrs \<lparr>base = 0x5000, w = assembled asm ls\<rparr>)"
proof -
  have table: "0x5001 \<le> a \<and> a < 0x5FFE \<and> dict_of PATCHES (a - 1) = None \<and>
      dict_of PATCHES a = Some (call_hi l) \<and> dict_of PATCHES (a + 1) = Some (call_lo l)"
    using patch_pairs assms(3,4) unfolding list_all_iff by fast
  define i where "i = nat (a - 0x5001)"
  have i: "a = 0x5001 + int i" "i + 2 < 0x1000"
    using table by (simp_all add: i_def nat_less_iff)
  have ls: "assembled asm ls = patched_words asm (dict_of PATCHES) 0x5000 (words data)"
    using assms(6) by (auto simp: dump_rom_def dump_words_assembled split: if_splits)
  have len: "length (words data) = 0x1000"
    using assms(2) by (simp add: length_words)
  have at_i: "assembled asm ls ! i = 4" "assembled asm ls ! (i + 1) = asm (call_hi l)"
    "assembled asm ls ! (i + 2) = asm (call_lo l)"
    using table i assms(5) by (simp_all add: ls nth_patched_words len patched_word_def algebra_simps)
  have three: "take 3 (drop i xs) = [xs ! i, xs ! (i + 1), xs ! (i + 2)]" if "i + 2 < length xs" for xs :: "nat list"
    using that by (simp add: numeral_3_eq_3 take_Suc_conv_app_nth add.commute)
  have shim: "symval l < 65536" "asm (call_hi l) = push_bit 2 (drop_bit 10 (symval l)) OR 0x100"
    "asm (call_lo l) = symval l AND 0x3FF"
    using assms(1,3) by (auto simp: evaluates_def)
  have "take 3 (drop i (assembled asm ls)) = jsr_words 5 (symval l)"
    using i len by (simp only: three ls length_patched_words at_i [unfolded ls])
      (simp add: jsr_words_def shim or.commute)
  then show ?thesis
    using jsr_roundtrip_at [of 5 "symval l" i "\<lparr>base = 0x5000, w = assembled asm ls\<rparr>"] i len shim(1)
    by (simp add: ls)
qed


text \<open>An assembler that puts every shim at $6123, and a ROM full of JSR opcodes.\<close>

definition demo_asm :: "string \<Rightarrow> nat" where
  "demo_asm e = (if e \<in> set (map call_hi SHIMS) then 0x0160 else if e \<in> set (map call_lo SHIMS) then 0x123 else 0)"

definition demo_rom :: bytes where
  "demo_rom = concat (replicate 0x1000 [0, 4])"

lemma demo_asm_evaluates: "evaluates demo_asm (\<lambda>_. 0x6123)"
proof -
  have "push_bit 2 (drop_bit 10 0x6123) OR 0x100 = (0x0160 :: nat)" "0x6123 AND 0x3FF = (0x123 :: nat)"
    by (simp_all add: push_bit_eq_mult drop_bit_eq_div and_masks)
  moreover have "list_all (\<lambda>l. demo_asm (call_hi l) = 0x0160 \<and> demo_asm (call_lo l) = 0x123) SHIMS"
    by code_simp
  ultimately show ?thesis
    by (simp add: evaluates_def list_all_iff)
qed

lemma words_demo: "words (concat (replicate n [0, 4])) = replicate n 4"
  by (induction n) simp_all

theorem patched_calls_reach_their_shims_witness:
  "\<exists>ls. dump_rom demo_rom 0x5000 PATCHES = Inr ls \<and>
     (0x55FE, 5, 0x6123) \<in> set (jsrs \<lparr>base = 0x5000, w = assembled demo_asm ls\<rparr>)"
proof -
  have len: "length demo_rom = 0x2000"
    by (simp add: demo_rom_def length_concat sum_list_replicate)
  moreover have "\<forall>a \<in> fst ` set PATCHES. 0x5000 \<le> a \<and> a < 0x5000 + int (length demo_rom div 2)"
    unfolding len by (simp add: PATCHES_def)
  ultimately obtain ls where ls: "dump_rom demo_rom 0x5000 PATCHES = Inr ls"
    using dump_rom_runs [of demo_rom PATCHES "0x5000"] by fastforce
  have "words demo_rom ! nat (0x55FF - 0x5001) = 4"
    unfolding demo_rom_def words_demo by simp
  then show ?thesis
    using patched_calls_reach_their_shims [OF demo_asm_evaluates len, of "''GF_RAND1''" "0x55FF" ls] ls
    by (simp add: SHIMS_def PATCHES_def)
qed

end
