(* ===== verification/Trace_Tools.thy ===== *)
theory Trace_Tools
  imports Relay_Prelude
begin

text \<open>
  The tools that read jzIntv debugger logs: the dump parser and the comparison of
  \<open>tools/crc_trace_diff.py\<close>, \<open>tools/cell_diff.py\<close>, \<open>tools/mk_replay.py\<close> and the
  destination-phase assertion \<open>tools/check_dest_phase.py\<close>. A log is the text that
  \<open>open(path).read()\<close> returns, a memory the dict that \<open>parse\<close> builds from it.
\<close>

subsection \<open>The dump pattern\<close>

text \<open>\<open>\s\<close> of a \<open>str\<close> pattern (and of \<open>str.split\<close>), and \<open>[0-9A-F]\<close>.\<close>

definition is_space :: "nat \<Rightarrow> bool" where
  "is_space ch \<longleftrightarrow> 9 \<le> ch \<and> ch \<le> 13 \<or> 28 \<le> ch \<and> ch \<le> 32 \<or> ch \<in> {0x85, 0xA0, 0x1680, 0x2028, 0x2029, 0x202F, 0x205F, 0x3000} \<or>
     0x2000 \<le> ch \<and> ch \<le> 0x200A"

definition hex_value :: "nat \<Rightarrow> nat option" where
  "hex_value ch = (if 48 \<le> ch \<and> ch \<le> 57 then Some (ch - 48) else if 65 \<le> ch \<and> ch \<le> 70 then Some (ch - 55) else None)"

text \<open>\<open>[0-9A-F]{4}\<close> at the front of a text: its value and the text behind it.\<close>

fun hex4_at :: "pystr \<Rightarrow> (nat \<times> pystr) option" where
  "hex4_at (a # b # c # d # rest) =
     (case (hex_value a, hex_value b, hex_value c, hex_value d) of
        (Some x, Some y, Some z, Some u) \<Rightarrow> Some (16 * (16 * (16 * x + y) + z) + u, rest)
      | _ \<Rightarrow> None)"
| "hex4_at _ = None"

text \<open>
  \<open>(?:\s+[0-9A-F]{4}\*?){1,8}\<close>: up to \<open>n\<close> words. A white space is no hexadecimal digit and no
  \<open>#\<close> or \<open>*\<close>, so the greedy choice never has to be taken back.
\<close>

definition word_at :: "pystr \<Rightarrow> (nat \<times> pystr) option" where
  "word_at t =
     (if takeWhile is_space t = [] then None
      else case hex4_at (dropWhile is_space t) of
        None \<Rightarrow> None
      | Some (v, rest) \<Rightarrow> Some (v, case rest of ch # rest' \<Rightarrow> if ch = 42 then rest' else rest | [] \<Rightarrow> []))"

primrec words_at :: "nat \<Rightarrow> pystr \<Rightarrow> nat list \<times> pystr" where
  "words_at 0 t = ([], t)"
| "words_at (Suc n) t =
     (case word_at t of
        None \<Rightarrow> ([], t)
      | Some (v, rest) \<Rightarrow> (case words_at n rest of (vs, rest') \<Rightarrow> (v # vs, rest')))"

text \<open>\<open>DUMP_RE\<close> at the front of a text: the address, the words, the text behind the match.\<close>

definition dump_at :: "pystr \<Rightarrow> (nat \<times> nat list \<times> pystr) option" where
  "dump_at t =
     (case hex4_at t of
        Some (addr, ch # rest) \<Rightarrow>
          if ch \<noteq> 58 then None
          else (case words_at 8 rest of
            (vs, rest') \<Rightarrow>
              if vs = [] then None
              else (case dropWhile is_space rest' of
                ch' # rest'' \<Rightarrow> if ch' = 35 then Some (addr, vs, rest'') else None
              | [] \<Rightarrow> None))
      | _ \<Rightarrow> None)"

lemma hex4_at_length: "hex4_at t = Some (v, r) \<Longrightarrow> length r < length t"
  by (induction t rule: hex4_at.induct) (auto split: option.splits prod.splits)

lemma word_at_length: "word_at t = Some (v, r) \<Longrightarrow> length r \<le> length t"
  using length_dropWhile_le [of is_space t]
  by (fastforce simp: word_at_def split: if_splits option.splits list.splits dest: hex4_at_length)

lemma words_at_length: "words_at n t = (vs, r) \<Longrightarrow> length r \<le> length t"
  by (induction n arbitrary: t vs) (fastforce split: option.splits prod.splits dest: word_at_length)+

lemma dump_at_length:
  assumes "dump_at t = Some (a, vs, r)" shows "length r < length t"
proof -
  obtain rest rest' where "hex4_at t = Some (a, 58 # rest)" "words_at 8 rest = (vs, rest')"
    "dropWhile is_space rest' = 35 # r"
    using assms by (auto simp: dump_at_def split: option.splits list.splits prod.splits if_splits)
  moreover from this have "length r < length rest'"
    by (metis length_dropWhile_le length_Cons less_eq_Suc_le)
  ultimately show ?thesis
    using hex4_at_length words_at_length by fastforce
qed

text \<open>
  \<open>DUMP_RE.finditer(text)\<close>: matches from left to right, each search starting behind the last
  match. \<open>bol\<close> says whether \<open>^\<close> matches at the front (start of the text or behind a newline).
\<close>

function find_dumps :: "bool \<Rightarrow> pystr \<Rightarrow> (nat \<times> nat list) list" where
  "find_dumps bol [] = []"
| "find_dumps bol (ch # t) =
     (case (if bol then dump_at (ch # t) else None) of
        Some (addr, vs, rest) \<Rightarrow> (addr, vs) # find_dumps False rest
      | None \<Rightarrow> find_dumps (ch = 10) t)"
  by pat_completeness auto

termination
  by (relation "measure (\<lambda>(bol, t). length t)") (auto split: if_splits dest: dump_at_length)

type_synonym memory = "(nat \<times> nat) list"

primrec store_words :: "nat \<Rightarrow> nat list \<Rightarrow> memory \<Rightarrow> memory" where
  "store_words addr [] mem = mem"
| "store_words addr (v # vs) mem = store_words (addr + 1) vs (AList.update addr v mem)"

definition parse :: "pystr \<Rightarrow> memory" where
  "parse text = fold (\<lambda>(addr, vs). store_words addr vs) (find_dumps True text) []"

subsection \<open>Comparing two determinism runs\<close>

text \<open>\<open>main\<close> of \<open>crc_trace_diff.py\<close>: how the run of the tool ends. \<open>Missing\<close> is a KeyError.\<close>

datatype trace_end =
    NoDump nat  \<comment> \<open>run 0 (A) or 1 (B)\<close>
  | Missing
  | ParkMismatch nat nat
  | SettledFail "(nat \<times> nat \<times> nat) list"
  | DeterminismFail "(int \<times> nat \<times> nat \<times> nat) list" int  \<comment> \<open>mismatches, first divergence\<close>
  | Pass nat  \<comment> \<open>ring slots missing from the dumps\<close>

definition word16 :: "memory \<Rightarrow> nat \<Rightarrow> nat option" where
  "word16 mem addr = (case (map_of mem addr, map_of mem (addr + 1)) of
     (Some lo, Some hi) \<Rightarrow> Some (lo OR push_bit 8 hi) | _ \<Rightarrow> None)"

definition slot_tick :: "nat \<Rightarrow> nat \<Rightarrow> int" where
  "slot_tick tick_a slot =
     (if tick_a AND 0xFF \<le> slot then (int tick_a AND NOT 0xFF) - 0x100 + int slot
      else (int tick_a AND NOT 0xFF) + int slot)"

text \<open>The loop over the ring: slots missing, mismatches; \<open>None\<close> is a KeyError.\<close>

primrec compare_slots ::
  "nat \<Rightarrow> memory \<Rightarrow> memory \<Rightarrow> nat list \<Rightarrow> (nat \<times> (int \<times> nat \<times> nat \<times> nat) list) option" where
  "compare_slots tick_a a b [] = Some (0, [])"
| "compare_slots tick_a a b (slot # slots) =
     (let addr = 0x9000 + slot * 2 in
      if map_of a addr = None \<or> map_of b addr = None
      then map_option (\<lambda>(missing, ms). (missing + 1, ms)) (compare_slots tick_a a b slots)
      else case (word16 a addr, word16 b addr) of
        (Some ca, Some cb) \<Rightarrow> map_option (\<lambda>(missing, ms).
          (missing, if ca \<noteq> cb then (slot_tick tick_a slot, slot, ca, cb) # ms else ms))
            (compare_slots tick_a a b slots)
      | _ \<Rightarrow> None)"

definition anim_field :: "nat \<Rightarrow> bool" where
  "anim_field x \<longleftrightarrow> 0x031D \<le> x \<and> x < 0x035D \<and> (x - 0x031D) mod 8 = 5"

text \<open>\<open>sorted(set(a) & set(b))\<close> with the values.\<close>

definition common :: "memory \<Rightarrow> memory \<Rightarrow> (nat \<times> nat \<times> nat) list" where
  "common a b = map (\<lambda>x. (x, the (map_of a x), the (map_of b x)))
     (sort (filter (\<lambda>x. x \<in> fst ` set b) (remdups (map fst a))))"

definition settled :: "memory \<Rightarrow> memory \<Rightarrow> (nat \<times> nat \<times> nat) list" where
  "settled a b = filter (\<lambda>(x, va, vb). va \<noteq> vb \<and> \<not> anim_field x \<and>
     (0x015D \<le> x \<and> x < 0x01F0 \<or> 0x0315 \<le> x \<and> x < 0x35E)) (common a b)"

definition trace_diff :: "memory \<Rightarrow> memory \<Rightarrow> trace_end" where
  "trace_diff a b =
     (if map_of a 0x8108 = None then NoDump 0
      else if map_of b 0x8108 = None then NoDump 1
      else case (word16 a 0x8108, word16 b 0x8108) of
        (Some tick_a, Some tick_b) \<Rightarrow>
          if tick_a \<noteq> tick_b then ParkMismatch tick_a tick_b
          else (case compare_slots tick_a a b [0 ..< 256] of
            None \<Rightarrow> Missing
          | Some (missing, ms) \<Rightarrow>
              if settled a b \<noteq> [] then SettledFail (settled a b)
              else if ms \<noteq> [] then DeterminismFail ms (Min (set (map fst ms)))
              else Pass missing)
      | _ \<Rightarrow> Missing)"

text \<open>\<open>cell_diff.py\<close>.\<close>

definition cell_diff :: "memory \<Rightarrow> memory \<Rightarrow> (nat \<times> nat \<times> nat) list" where
  "cell_diff a b = filter (\<lambda>(x, va, vb). va \<noteq> vb \<and>
     (0x015D \<le> x \<and> x \<le> 0x01EF \<or> 0x02F0 \<le> x \<and> x \<le> 0x035F)) (common a b)"

subsection \<open>Recorded input\<close>

definition REC_CAP :: nat where "REC_CAP = 768"

definition mem_get :: "memory \<Rightarrow> nat \<Rightarrow> nat \<Rightarrow> nat" where
  "mem_get mem addr absent = (case map_of mem addr of None \<Rightarrow> absent | Some v \<Rightarrow> v)"

text \<open>\<open>main\<close> of \<open>mk_replay.py\<close>: \<open>REPLAY_LEN\<close> and the rows of \<open>REPLAY_TBL\<close>.\<close>

definition replay_row :: "memory \<Rightarrow> nat \<Rightarrow> nat list" where
  "replay_row mem t =
     (let slot = 0x9000 + t * 4 in
      [mem_get mem slot 0x40 AND 0xFF, mem_get mem (slot + 1) 0x40 AND 0xFF,
       mem_get mem (slot + 2) 0x00 AND 0xFF, mem_get mem (slot + 3) 0x00 AND 0xFF])"

definition mk_replay :: "memory \<Rightarrow> nat \<times> nat list list" where
  "mk_replay mem =
     (let ticks = mem_get mem 0x8108 0 OR push_bit 8 (mem_get mem 0x8109 0)
      in (min ticks REC_CAP, map (replay_row mem) [0 ..< REC_CAP]))"

subsection \<open>The destination phase\<close>

definition GF_HTBL_PROMPT :: nat where "GF_HTBL_PROMPT = 0x51DD"
definition GF_HTBL_LIVE :: nat where "GF_HTBL_LIVE = 0x51D3"

datatype phase_failure =
    NoDumps
  | NoPlayerCount
  | BadPlayerCount nat
  | StillOnPrompt
  | NoHole
  | NoProgress
  | EmptyObjectTable

definition populated :: "memory \<Rightarrow> bool" where
  "populated mem \<longleftrightarrow> list_ex (\<lambda>a. mem_get mem a 0 \<noteq> 0) [0x31D ..< 0x35D]"

lemma populated_iff: "populated mem \<longleftrightarrow> (\<exists>a. 0x31D \<le> a \<and> a < 0x35D \<and> mem_get mem a 0 \<noteq> 0)"
  unfolding populated_def list_ex_iff set_upt Bex_def atLeastLessThan_iff conj_assoc ..

text \<open>\<open>check\<close> of \<open>check_dest_phase.py\<close>: the failures, none when the assertion holds.\<close>

definition check_dest :: "memory \<Rightarrow> phase_failure list" where
  "check_dest mem =
     (if mem = [] then [NoDumps]
      else let table = word16 mem 0x80C0 in
        (case map_of mem 0x161 of
           None \<Rightarrow> [NoPlayerCount]
         | Some pcount \<Rightarrow> if \<not> (1 \<le> pcount \<and> pcount \<le> 4) then [BadPlayerCount pcount] else []) @
        (if table = Some GF_HTBL_PROMPT then [StillOnPrompt] else []) @
        (case map_of mem 0x16C of
           None \<Rightarrow> [NoHole]
         | Some hole \<Rightarrow> if hole = 0 \<and> table \<noteq> Some GF_HTBL_LIVE then [NoProgress] else []) @
        (if populated mem then [] else [EmptyObjectTable]))"

text \<open>The loop over the files: the problems of all of them, file by file.\<close>

definition check_all :: "memory list \<Rightarrow> (nat \<times> phase_failure) list" where
  "check_all mems = concat (map (\<lambda>(k, m). map (Pair k) (check_dest m)) (enumerate 0 mems))"

subsection \<open>The parser reads what the debugger prints\<close>

text \<open>A log as the debugger writes it: memory dumps with an ASCII column, and other lines.\<close>

datatype log_item = Dump nat "nat list" pystr | Noise pystr

definition hex_digit :: "nat \<Rightarrow> nat" where
  "hex_digit n = (if n < 10 then 48 + n else 55 + n)"

definition show4 :: "nat \<Rightarrow> pystr" where
  "show4 v = map hex_digit [v div 4096, v div 256 mod 16, v div 16 mod 16, v mod 16]"

primrec show_item :: "log_item \<Rightarrow> pystr" where
  "show_item (Dump a vs ascii) =
     show4 a @ [58] @ concat (map (\<lambda>v. 32 # show4 v) vs) @ [32, 32, 35] @ ascii @ [10]"
| "show_item (Noise s) = s @ [10]"

primrec item_ok :: "log_item \<Rightarrow> bool" where
  "item_ok (Dump a vs ascii) \<longleftrightarrow>
     a < 65536 \<and> (\<forall>v \<in> set vs. v < 65536) \<and> vs \<noteq> [] \<and> length vs \<le> 8 \<and> 10 \<notin> set ascii"
| "item_ok (Noise s) \<longleftrightarrow> 10 \<notin> set s \<and> (s = [] \<or> hex_value (hd s) = None)"

primrec dumps :: "log_item list \<Rightarrow> (nat \<times> nat list) list" where
  "dumps [] = []"
| "dumps (i # is) = (case i of Dump a vs ascii \<Rightarrow> (a, vs) # dumps is | Noise s \<Rightarrow> dumps is)"

text \<open>What the dumps say of an address, for the dumps from the last to the first.\<close>

primrec last_shown :: "(nat \<times> nat list) list \<Rightarrow> nat \<Rightarrow> nat option" where
  "last_shown [] x = None"
| "last_shown (d # ds) x =
     (case d of (a, vs) \<Rightarrow> if a \<le> x \<and> x < a + length vs then Some (vs ! (x - a)) else last_shown ds x)"

lemma hex_value_digit: "n < 16 \<Longrightarrow> hex_value (hex_digit n) = Some n"
  by (auto simp: hex_value_def hex_digit_def)

lemma hex4_at_show4:
  assumes "v < 65536" shows "hex4_at (show4 v @ r) = Some (v, r)"
proof -
  have hex: "16 * (v div 16) + v mod 16 = v" "16 * (v div 256) + v div 16 mod 16 = v div 16"
    "16 * (v div 4096) + v div 256 mod 16 = v div 256"
    using mult_div_mod_eq [of 16 v] mult_div_mod_eq [of 16 "v div 16"] mult_div_mod_eq [of 16 "v div 256"]
    by (simp_all add: div_mult2_eq [symmetric])
  have "16 * (16 * (16 * (v div 4096) + v div 256 mod 16) + v div 16 mod 16) + v mod 16 = v"
    by (simp only: hex)
  then show ?thesis
    using assms by (simp add: show4_def hex_value_digit less_mult_imp_div_less del: distrib_left_numeral)
qed

lemma hex4_at_None: "hex_value ch = None \<Longrightarrow> hex4_at (ch # t) = None"
  by (cases "(ch # t)" rule: hex4_at.cases) auto

lemma not_space_digit: "n < 16 \<Longrightarrow> \<not> is_space (hex_digit n)"
  by (auto simp: is_space_def hex_digit_def)

lemma word_at_show4:
  assumes "v < 65536" and "r = [] \<or> hd r \<noteq> 42"
  shows "word_at (32 # show4 v @ r) = Some (v, r)"
proof -
  have "dropWhile is_space (show4 v @ r) = show4 v @ r"
    using assms(1) by (simp add: show4_def not_space_digit less_mult_imp_div_less)
  moreover have "is_space 32"
    by (simp add: is_space_def)
  ultimately show ?thesis
    using assms by (auto simp: word_at_def hex4_at_show4 split: list.split)
qed

lemma words_at_show:
  assumes "\<forall>v \<in> set vs. v < 65536" and "length vs \<le> n"
  shows "words_at n (concat (map (\<lambda>v. 32 # show4 v) vs) @ 32 # 32 # 35 # t) = (vs, 32 # 32 # 35 # t)"
  using assms
proof (induction vs arbitrary: n)
  case Nil
  have "word_at (32 # 32 # 35 # t) = None"
    by (simp add: word_at_def is_space_def hex4_at_None hex_value_def)
  then show ?case
    by (cases n) simp_all
next
  case (Cons v vs)
  then obtain m where n: "n = Suc m"
    by (cases n) auto
  have "concat (map (\<lambda>v. 32 # show4 v) vs) @ 32 # 32 # 35 # t \<noteq> []"
    "hd (concat (map (\<lambda>v. 32 # show4 v) vs) @ 32 # 32 # 35 # t) \<noteq> 42"
    by (cases vs; simp)+
  with Cons n show ?case
    by (simp add: word_at_show4)
qed

lemma dump_at_show:
  assumes "item_ok (Dump a vs ascii)"
  shows "dump_at (show_item (Dump a vs ascii) @ t) = Some (a, vs, ascii @ 10 # t)"
  using assms by (auto simp: dump_at_def hex4_at_show4 words_at_show is_space_def)

lemma find_dumps_skip: "10 \<notin> set s \<Longrightarrow> find_dumps False (s @ 10 # t) = find_dumps True t"
  by (induction s) auto

lemma dump_at_None: "hex_value ch = None \<Longrightarrow> dump_at (ch # t) = None"
  by (simp add: dump_at_def hex4_at_None)

lemma find_dumps_item:
  assumes "item_ok i"
  shows "find_dumps True (show_item i @ t) = dumps [i] @ find_dumps True t"
proof (cases i)
  case (Dump a vs ascii)
  then obtain ch u where split: "show_item i @ t = ch # u"
    by (cases "show_item i") (simp_all add: show4_def)
  have "dump_at (ch # u) = Some (a, vs, ascii @ 10 # t)"
    using dump_at_show [of a vs ascii t] assms by (simp add: split [symmetric] Dump del: show_item.simps)
  then have "find_dumps True (ch # u) = (a, vs) # find_dumps True t"
    using assms by (simp add: find_dumps_skip Dump)
  then show ?thesis
    unfolding split by (simp add: Dump)
next
  case (Noise s)
  then show ?thesis
    using assms find_dumps_skip [of "tl s" t]
    by (cases s) (simp_all add: dump_at_None hex_value_def [of 10])
qed

lemma find_dumps_log:
  "\<forall>i \<in> set items. item_ok i \<Longrightarrow> find_dumps True (concat (map show_item items)) = dumps items"
  by (induction items) (auto simp: find_dumps_item split: log_item.split)

lemma map_of_store_words:
  "map_of (store_words a vs mem) x =
     (if a \<le> x \<and> x < a + length vs then Some (vs ! (x - a)) else map_of mem x)"
proof (induction vs arbitrary: a mem)
  case (Cons v vs)
  have "x - a = Suc (x - Suc a)" if "Suc a \<le> x"
    using that by simp
  with Cons show ?case
    by (auto simp: update_conv')
qed auto

lemma map_of_fold_store:
  "map_of (fold (\<lambda>(a, vs). store_words a vs) ds []) x = last_shown (rev ds) x"
proof (induction ds rule: rev_induct)
  case (snoc d ds)
  then show ?case
    by (cases d) (simp add: map_of_store_words)
qed simp

text \<open>C37: the parser reads what the debugger prints: for any log of memory dumps of one to eight
  words with any ASCII column, between any other lines that start with no hexadecimal digit, it
  finds exactly the dumps, and the memory holds for every address the word of the last dump
  that shows it.\<close>

theorem dump_log_parses:
  assumes "\<forall>i \<in> set items. item_ok i"
  shows "find_dumps True (concat (map show_item items)) = dumps items \<and>
    map_of (parse (concat (map show_item items))) x = last_shown (rev (dumps items)) x"
  by (simp add: parse_def find_dumps_log [OF assms] map_of_fold_store)

theorem dump_log_parses_witness:
  "map_of (parse (concat (map show_item
     [Noise [62, 32], Dump 0x8100 [1, 0xBEEF] [46, 35], Noise [], Dump 0x8101 [7] []]))) 0x8101 = Some 7"
  using dump_log_parses [of "[Noise [62, 32], Dump 0x8100 [1, 0xBEEF] [46, 35], Noise [], Dump 0x8101 [7] []]" "0x8101"]
  by (simp add: hex_value_def)

subsection \<open>What the comparison means\<close>

lemma and_not_mask: "(x :: int) AND NOT 0xFF = x - x mod 256"
proof -
  have "(x AND NOT (mask 8)) AND (x AND mask 8) = 0"
    by (auto simp: bit_eq_iff bit_simps)
  then have "(x AND NOT (mask 8)) + (x AND mask 8) = (x AND NOT (mask 8)) OR (x AND mask 8)"
    by (rule disjunctive_add_eq_or)
  also have "\<dots> = x"
    by (auto simp: bit_eq_iff bit_simps)
  finally show ?thesis
    using take_bit_eq_mask [of 8 x] by (simp add: mask_eq_exp_minus_1 take_bit_eq_mod)
qed

text \<open>The tick a slot belongs to: the only one of the last 256 that is stored in it.\<close>

lemma slot_tick_window:
  assumes "slot < 256"
  shows "int T - 256 \<le> slot_tick T slot \<and> slot_tick T slot < int T \<and> slot_tick T slot mod 256 = int slot"
proof -
  have "T AND 0xFF = T mod 256" "int T mod 256 = int (T mod 256)"
    using and_mask_nat [of T 8] by (simp_all add: zmod_int)
  note t = this and_not_mask [of "int T", unfolded this]
  have m: "(int T - int (T mod 256)) mod 256 = 0" "0 \<le> int (T mod 256)" "int (T mod 256) < 256"
    by (simp_all add: zmod_int minus_mod_eq_mult_div)
  have "(int T - int (T mod 256) + int slot) mod 256 = int slot"
    using m(1) assms by (simp add: mod_add_left_eq [symmetric])
  moreover have "(int T - int (T mod 256) - 256 + int slot) mod 256 = int slot"
    using calculation mod_diff_right_eq [of "int T - int (T mod 256) + int slot" 256 256]
    by (simp add: algebra_simps)
  ultimately show ?thesis
    using assms m(2,3) unfolding slot_tick_def t by (auto simp: not_le)
qed

lemma tick_in_window:
  assumes "int T - 256 \<le> t" "t < int T"
  shows "slot_tick T (nat (t mod 256)) = t"
proof -
  define u where "u = slot_tick T (nat (t mod 256))"
  have "int T - 256 \<le> u" "u < int T" "u mod 256 = t mod 256"
    using slot_tick_window [of "nat (t mod 256)" T] by (simp_all add: u_def)
  with assms have "256 dvd u - t" "\<bar>u - t\<bar> < 256"
    by (simp_all add: mod_eq_dvd_iff)
  then show ?thesis
    using dvd_imp_le_int [of "u - t" 256] by (fastforce simp: u_def)
qed

text \<open>A ring that holds the checksums \<open>f\<close> of the last 256 ticks, tick \<open>t\<close> in slot \<open>t mod 256\<close>.\<close>

definition ring_holds :: "memory \<Rightarrow> nat \<Rightarrow> (int \<Rightarrow> nat) \<Rightarrow> bool" where
  "ring_holds mem T f \<longleftrightarrow> word16 mem 0x8108 = Some T \<and>
     (\<forall>slot < 256. word16 mem (0x9000 + slot * 2) = Some (f (slot_tick T slot)))"

lemma word16_first: "word16 mem addr = Some v \<Longrightarrow> map_of mem addr \<noteq> None"
  by (auto simp: word16_def split: option.splits)

lemma compare_slots_full:
  assumes "ring_holds a T f" and "ring_holds b T g" and "\<forall>s \<in> set slots. s < 256"
  shows "compare_slots T a b slots = Some (0,
    [(slot_tick T s, s, f (slot_tick T s), g (slot_tick T s)). s \<leftarrow> slots, f (slot_tick T s) \<noteq> g (slot_tick T s)])"
  using assms(3)
proof (induction slots)
  case (Cons s slots)
  then have ring: "word16 a (0x9000 + s * 2) = Some (f (slot_tick T s))"
    "word16 b (0x9000 + s * 2) = Some (g (slot_tick T s))"
    using assms(1,2) by (auto simp: ring_holds_def)
  have "compare_slots T a b slots = Some (0,
    [(slot_tick T s, s, f (slot_tick T s), g (slot_tick T s)). s \<leftarrow> slots, f (slot_tick T s) \<noteq> g (slot_tick T s)])"
    using Cons by simp
  then show ?case
    using word16_first [OF ring(1)] word16_first [OF ring(2)]
    by (simp only: compare_slots.simps Let_def ring) simp
qed simp

lemma in_common:
  "(x, va, vb) \<in> set (common a b) \<longleftrightarrow> map_of a x = Some va \<and> map_of b x = Some vb"
proof -
  have "set (sort (filter (\<lambda>x. x \<in> fst ` set b) (remdups (map fst a)))) = dom (map_of a) \<inter> dom (map_of b)"
    by (auto simp: dom_map_of_conv_image_fst)
  then show ?thesis
    unfolding common_def by (auto simp: image_iff)
qed

text \<open>The cells of the settled-state check.\<close>

definition settled_cell :: "nat \<Rightarrow> bool" where
  "settled_cell x \<longleftrightarrow> \<not> anim_field x \<and> (0x015D \<le> x \<and> x < 0x01F0 \<or> 0x0315 \<le> x \<and> x < 0x35E)"

lemma settled_Nil:
  "settled a b = [] \<longleftrightarrow> (\<forall>x va vb. settled_cell x \<longrightarrow> map_of a x = Some va \<longrightarrow> map_of b x = Some vb \<longrightarrow> va = vb)"
proof -
  have "settled a b = [] \<longleftrightarrow> (\<forall>x va vb. (x, va, vb) \<in> set (common a b) \<longrightarrow> settled_cell x \<longrightarrow> va = vb)"
    unfolding settled_def filter_empty_conv settled_cell_def by auto
  then show ?thesis
    unfolding in_common by blast
qed

lemma trace_diff_full:
  assumes "ring_holds a T f" and "ring_holds b T g"
  defines "ms \<equiv> [(slot_tick T s, s, f (slot_tick T s), g (slot_tick T s)).
    s \<leftarrow> [0 ..< 256], f (slot_tick T s) \<noteq> g (slot_tick T s)]"
  shows "trace_diff a b = (if settled a b \<noteq> [] then SettledFail (settled a b)
    else if ms \<noteq> [] then DeterminismFail ms (Min (set (map fst ms))) else Pass 0)"
proof -
  have park: "word16 a 0x8108 = Some T" "word16 b 0x8108 = Some T"
    using assms(1,2) by (auto simp: ring_holds_def)
  have "compare_slots T a b [0 ..< 256] = Some (0, ms)"
    unfolding ms_def by (rule compare_slots_full [OF assms(1,2)]) simp
  then show ?thesis
    using word16_first [OF park(1)] word16_first [OF park(2)] by (simp add: trace_diff_def park del: upt_rec_numeral)
qed

lemma differing_ticks:
  "set (map fst [(slot_tick T s, s, f (slot_tick T s), g (slot_tick T s)).
     s \<leftarrow> [0 ..< 256], f (slot_tick T s) \<noteq> g (slot_tick T s)]) =
   {t. int T - 256 \<le> t \<and> t < int T \<and> f t \<noteq> g t}" (is "?L = ?R")
proof (rule set_eqI)
  fix t
  have "t \<in> ?L \<longleftrightarrow> (\<exists>s < 256. slot_tick T s = t \<and> f t \<noteq> g t)"
    by (auto simp: image_iff simp del: upt_rec_numeral)
  also have "\<dots> \<longleftrightarrow> t \<in> ?R"
    using slot_tick_window [of _ T] tick_in_window [of T t] by (auto intro!: exI [of _ "nat (t mod 256)"])
  finally show "t \<in> ?L \<longleftrightarrow> t \<in> ?R" .
qed

text \<open>C36: the determinism gate is exact: for two runs that parked at the same tick with complete
  rings it passes exactly when the checksums of all last 256 ticks are equal and no cell of the
  settled-state ranges (animation counters apart) that both dumps show differs; when it reports
  a determinism failure, the first divergence is the earliest of the last 256 ticks at which the
  checksums differ.\<close>

theorem trace_gate_is_exact:
  assumes "ring_holds a T f" and "ring_holds b T g"
  shows "(trace_diff a b = Pass 0 \<longleftrightarrow> (\<forall>t. int T - 256 \<le> t \<longrightarrow> t < int T \<longrightarrow> f t = g t) \<and>
      (\<forall>x va vb. settled_cell x \<longrightarrow> map_of a x = Some va \<longrightarrow> map_of b x = Some vb \<longrightarrow> va = vb)) \<and>
    (\<forall>ms first. trace_diff a b = DeterminismFail ms first \<longrightarrow>
      int T - 256 \<le> first \<and> first < int T \<and> f first \<noteq> g first \<and>
      (\<forall>t. int T - 256 \<le> t \<longrightarrow> t < first \<longrightarrow> f t = g t))"
proof -
  define ms where "ms = [(slot_tick T s, s, f (slot_tick T s), g (slot_tick T s)).
    s \<leftarrow> [0 ..< 256], f (slot_tick T s) \<noteq> g (slot_tick T s)]"
  have result: "trace_diff a b = (if settled a b \<noteq> [] then SettledFail (settled a b)
    else if ms \<noteq> [] then DeterminismFail ms (Min (set (map fst ms))) else Pass 0)"
    unfolding ms_def by (rule trace_diff_full [OF assms])
  have ticks: "set (map fst ms) = {t. int T - 256 \<le> t \<and> t < int T \<and> f t \<noteq> g t}"
    unfolding ms_def by (rule differing_ticks)
  then have same: "ms = [] \<longleftrightarrow> (\<forall>t. int T - 256 \<le> t \<longrightarrow> t < int T \<longrightarrow> f t = g t)"
    by (cases ms) auto
  have least: "Min (set (map fst ms)) \<in> set (map fst ms) \<and> (\<forall>t \<in> set (map fst ms). Min (set (map fst ms)) \<le> t)"
    if "ms \<noteq> []"
    using that by (intro conjI ballI Min_in Min_le) auto
  have "trace_diff a b = Pass 0 \<longleftrightarrow> settled a b = [] \<and> ms = []"
    by (simp add: result)
  moreover have "int T - 256 \<le> first \<and> first < int T \<and> f first \<noteq> g first \<and>
      (\<forall>t. int T - 256 \<le> t \<longrightarrow> t < first \<longrightarrow> f t = g t)"
    if "trace_diff a b = DeterminismFail fs first" for fs first
  proof -
    have "ms \<noteq> []" "first = Min (set (map fst ms))"
      using that by (auto simp: result split: if_splits)
    then have "first \<in> {t. int T - 256 \<le> t \<and> t < int T \<and> f t \<noteq> g t}"
      "\<forall>t \<in> {t. int T - 256 \<le> t \<and> t < int T \<and> f t \<noteq> g t}. first \<le> t"
      using least unfolding ticks by simp_all
    then show ?thesis by force
  qed
  ultimately show ?thesis
    unfolding same settled_Nil by blast
qed

text \<open>A run parked at tick 512 whose checksum is 1 at every tick but the given ones.\<close>

definition demo_ring :: "nat \<Rightarrow> memory" where
  "demo_ring v = [(0x8108, 0), (0x8109, 2)] @
     concat (map (\<lambda>s. [(0x9000 + s * 2, if s = 7 then v else 1), (0x9000 + s * 2 + 1, 0)]) [0 ..< 256])"

lemma map_of_ring_row:
  assumes "k < n"
  shows "map_of (concat (map (\<lambda>s. [(0x9000 + s * 2, h s), (0x9000 + s * 2 + 1, h' s)]) [0 ..< n])) (0x9000 + k * 2) = Some (h k)"
    and "map_of (concat (map (\<lambda>s. [(0x9000 + s * 2, h s), (0x9000 + s * 2 + 1, h' s)]) [0 ..< n])) (0x9001 + k * 2) = Some (h' k)"
proof -
  let ?al = "concat (map (\<lambda>s. [(0x9000 + s * 2, h s), (0x9000 + s * 2 + 1, h' s)]) [0 ..< n])"
  have d: "distinct (map fst ?al)"
  proof (induction n)
    case (Suc n)
    then show ?case by (auto simp: image_iff)
  qed simp
  show "map_of ?al (0x9000 + k * 2) = Some (h k)" "map_of ?al (0x9001 + k * 2) = Some (h' k)"
    using assms d by (auto intro!: map_of_is_SomeI simp: image_iff)
qed

lemma demo_ring_holds: "ring_holds (demo_ring v) 512 (\<lambda>t. if t mod 256 = 7 then v else 1)"
proof -
  let ?h = "\<lambda>s::nat. if s = 7 then v else 1"
  have row: "map_of (demo_ring v) (0x9000 + k * 2) = Some (?h k)" "map_of (demo_ring v) (0x9001 + k * 2) = Some 0"
    if "k < 256" for k
    using map_of_ring_row [OF that, of ?h "\<lambda>_. 0"] unfolding demo_ring_def by (simp_all del: upt_rec_numeral)
  have "word16 (demo_ring v) (0x9000 + k * 2) = Some (if slot_tick 512 k mod 256 = 7 then v else 1)" if "k < 256" for k
    using row [OF that] slot_tick_window [OF that, of 512] by (simp add: word16_def)
  moreover have "word16 (demo_ring v) 0x8108 = Some 512"
    by (simp add: word16_def demo_ring_def push_bit_eq_mult del: upt_rec_numeral)
  ultimately show ?thesis
    unfolding ring_holds_def by simp
qed

theorem trace_gate_is_exact_witness:
  "trace_diff (demo_ring 1) (demo_ring 1) = Pass 0 \<and>
   (case trace_diff (demo_ring 1) (demo_ring 5) of DeterminismFail ms first \<Rightarrow> first = 263 | _ \<Rightarrow> True)"
proof
  show "trace_diff (demo_ring 1) (demo_ring 1) = Pass 0"
    by (rule iffD2 [OF conjunct1 [OF trace_gate_is_exact [OF demo_ring_holds demo_ring_holds]]]) simp
  have "first = 263" if "trace_diff (demo_ring 1) (demo_ring 5) = DeterminismFail ms first" for ms first
  proof -
    from that have "int 512 - 256 \<le> first \<and> first < int 512 \<and>
        (if first mod 256 = 7 then 1 else 1) \<noteq> (if first mod 256 = 7 then 5 else 1 :: nat)"
      using conjunct2 [OF trace_gate_is_exact [OF demo_ring_holds [of 1] demo_ring_holds [of 5]]] by blast
    then have "256 \<le> first" "first < 512" "first mod 256 = 7"
      by (auto split: if_splits)
    moreover from this have "(first - 256) mod 256 = first - 256"
      by (intro mod_pos_pos_trivial) simp_all
    ultimately show "first = 263" by simp
  qed
  then show "case trace_diff (demo_ring 1) (demo_ring 5) of DeterminismFail ms first \<Rightarrow> first = 263 | _ \<Rightarrow> True"
    by (simp split: trace_end.split)
qed

text \<open>A log that shows the park tick and nothing else passes, with every slot missing.\<close>

lemma gate_passes_without_a_ring:
  "trace_diff [(0x8108, 0), (0x8109, 2)] [(0x8108, 0), (0x8109, 2)] = Pass 256"
proof -
  have none: "compare_slots T a b slots = Some (length slots, [])"
    if "\<forall>s \<in> set slots. map_of a (0x9000 + s * 2) = None" for T a b slots
    using that by (induction slots) simp_all
  have "compare_slots 512 [(0x8108, 0), (0x8109, 2)] [(0x8108, 0), (0x8109, 2)] [0 ..< 256] = Some (256, [])"
    by (subst none) (auto simp del: upt_rec_numeral)
  moreover have "settled [(0x8108, 0), (0x8109, 2)] [(0x8108, 0), (0x8109, 2)] = []"
    by (auto simp: settled_Nil)
  ultimately show ?thesis
    by (simp add: trace_diff_def word16_def push_bit_eq_mult del: upt_rec_numeral)
qed

subsection \<open>What the other tools mean\<close>

text \<open>The destination-phase assertion catches a stuck run: a dump whose handler table is still the
  number-entry prompt, or whose player count is outside 1 to 4 or not shown, never passes, alone or
  among the files of one call; and what passes shows a player count, a hole, and either a hole
  above 0 or the live handler table.\<close>

theorem stuck_run_is_caught:
  "(word16 mem 0x80C0 = Some GF_HTBL_PROMPT \<or> map_of mem 0x161 \<notin> Some ` {1 .. 4} \<longrightarrow>
      check_dest mem \<noteq> [] \<and> (mem \<in> set mems \<longrightarrow> check_all mems \<noteq> [])) \<and>
   (check_dest mem = [] \<longrightarrow> (\<exists>p hole. map_of mem 0x161 = Some p \<and> 1 \<le> p \<and> p \<le> 4 \<and>
      map_of mem 0x16C = Some hole \<and> (0 < hole \<or> word16 mem 0x80C0 = Some GF_HTBL_LIVE) \<and>
      (\<exists>a. 0x31D \<le> a \<and> a < 0x35D \<and> mem_get mem a 0 \<noteq> 0)))"
proof (intro conjI impI)
  assume bad: "word16 mem 0x80C0 = Some GF_HTBL_PROMPT \<or> map_of mem 0x161 \<notin> Some ` {1 .. 4}"
  show fails: "check_dest mem \<noteq> []"
    using bad by (auto simp: check_dest_def Let_def split: option.splits)
  assume "mem \<in> set mems"
  then have "mem \<in> set (map snd (enumerate 0 mems))"
    by simp
  then obtain k where "(k, mem) \<in> set (enumerate 0 mems)"
    unfolding set_map by auto
  with fails show "check_all mems \<noteq> []"
    by (fastforce simp: check_all_def)
next
  assume "check_dest mem = []"
  then show "\<exists>p hole. map_of mem 0x161 = Some p \<and> 1 \<le> p \<and> p \<le> 4 \<and>
      map_of mem 0x16C = Some hole \<and> (0 < hole \<or> word16 mem 0x80C0 = Some GF_HTBL_LIVE) \<and>
      (\<exists>a. 0x31D \<le> a \<and> a < 0x35D \<and> mem_get mem a 0 \<noteq> 0)"
    unfolding populated_iff [symmetric] by (auto simp: check_dest_def Let_def split: option.splits if_splits)
qed

theorem stuck_run_is_caught_witness:
  "check_all [[(0x161, 2), (0x16C, 1), (0x31D, 9)], [(0x161, 0)]] \<noteq> [] \<and>
   check_dest [(0x161, 2), (0x16C, 1), (0x31D, 9)] = []"
proof
  show "check_all [[(0x161, 2), (0x16C, 1), (0x31D, 9)], [(0x161, 0)]] \<noteq> []"
    using stuck_run_is_caught [of "[(0x161, 0)]" "[[(0x161, 2), (0x16C, 1), (0x31D, 9)], [(0x161, 0)]]"] by auto
  have "populated [(0x161, 2), (0x16C, 1), (0x31D, 9)]"
    unfolding populated_iff by (rule exI [of _ "0x31D"]) (simp add: mem_get_def)
  then show "check_dest [(0x161, 2), (0x16C, 1), (0x31D, 9)] = []"
    by (simp add: check_dest_def word16_def)
qed

text \<open>A replay table reproduces the recording: it has 768 rows of four bytes whatever the log
  holds, and for a recording whose park tick and words were dumped, \<open>REPLAY_LEN\<close> is the number of
  recorded ticks (at most 768) and every row holds the low bytes of its tick's four words; a word
  that was not dumped reads as idle input.\<close>

theorem replay_reproduces_the_recording:
  assumes "t < 768" and "j < 4"
  shows "length (snd (mk_replay mem)) = 768 \<and> length (snd (mk_replay mem) ! t) = 4 \<and>
    snd (mk_replay mem) ! t ! j = (case map_of mem (0x9000 + t * 4 + j) of
      Some v \<Rightarrow> v mod 256 | None \<Rightarrow> if j < 2 then 0x40 else 0) \<and>
    (word16 mem 0x8108 = Some n \<longrightarrow> fst (mk_replay mem) = min n 768)"
proof -
  have "j = 0 \<or> j = 1 \<or> j = 2 \<or> j = 3"
    using assms(2) by auto
  then have "replay_row mem t ! j = (case map_of mem (0x9000 + t * 4 + j) of
      Some v \<Rightarrow> v mod 256 | None \<Rightarrow> if j < 2 then 0x40 else 0)"
    by (auto simp: replay_row_def mem_get_def Let_def and_masks ac_simps split: option.split)
  moreover have "fst (mk_replay mem) = min n 768" if "word16 mem 0x8108 = Some n"
    using that by (auto simp: mk_replay_def mem_get_def word16_def REC_CAP_def simp del: upt_rec_numeral split: option.splits)
  ultimately show ?thesis
    using assms(1) by (simp add: mk_replay_def REC_CAP_def replay_row_def Let_def del: upt_rec_numeral)
qed

theorem replay_reproduces_the_recording_witness:
  "snd (mk_replay [(0x8108, 2), (0x8109, 0), (0x9005, 0x3C5)]) ! 1 ! 1 = 0xC5 \<and>
   fst (mk_replay [(0x8108, 2), (0x8109, 0), (0x9005, 0x3C5)]) = 2"
  using replay_reproduces_the_recording [of 1 1 "[(0x8108, 2), (0x8109, 0), (0x9005, 0x3C5)]" 2]
  by (simp add: word16_def)

end
