(* ===== verification/Match_Frozen.thy ===== *)
theory Match_Frozen
  imports Kept_Predicates Execution
begin

text \<open>
  A started match is frozen: until it ends its members, their seats and its seed do not change, and
  once it has ended its room is empty for good. As an instance of \<open>kept\<close> this holds wherever an
  exception may leave a method.
\<close>

subsection \<open>The predicate\<close>

text \<open>The match of room \<open>r\<close> goes on with members \<open>ms\<close> and seed \<open>v\<close>; only they point to the room.\<close>

definition match_on :: "rid \<Rightarrow> cid list \<Rightarrow> nat \<Rightarrow> Server \<Rightarrow> bool" where
  "match_on r ms v s \<longleftrightarrow> started (room_in s r) \<and> seed (room_in s r) = v \<and> members (room_in s r) = ms \<and>
     length ms \<le> 4 \<and> (\<forall>c. room (client_in s c) = Some r \<longrightarrow> c \<in> set ms) \<and>
     (\<forall>c \<in> set ms. c < next_client s \<and> (\<exists>n. name (client_in s c) = Some n \<and> valid_name n))"

definition match_over :: "rid \<Rightarrow> cid list \<Rightarrow> Server \<Rightarrow> bool" where
  "match_over r ms s \<longleftrightarrow> members (room_in s r) = [] \<and> (\<forall>c. room (client_in s c) \<noteq> Some r) \<and>
     (\<exists>c \<in> set ms. c < next_client s \<and> dead (client_in s c))"

definition frozen :: "rid \<Rightarrow> cid list \<Rightarrow> nat \<Rightarrow> Server \<Rightarrow> bool" where
  "frozen r ms v s \<longleftrightarrow> r < next_room s \<and> (match_on r ms v s \<or> match_over r ms s)"

lemma frozen_same:
  assumes "frozen r ms v s" and "members (room_in s' r) = members (room_in s r)"
    "started (room_in s' r) = started (room_in s r)" "seed (room_in s' r) = seed (room_in s r)"
    "next_room s \<le> next_room s'" "next_client s \<le> next_client s'"
    "\<And>c. room (client_in s' c) = Some r \<Longrightarrow> room (client_in s c) = Some r"
    "\<And>c. c < next_client s \<Longrightarrow> name (client_in s' c) = name (client_in s c) \<or> (\<exists>n. name (client_in s' c) = Some n \<and> valid_name n)"
    "\<And>c. c < next_client s \<Longrightarrow> dead (client_in s c) \<Longrightarrow> dead (client_in s' c)"
  shows "frozen r ms v s'"
proof -
  have "match_over r ms s'" if "match_over r ms s"
    using that assms(2,5-7,9) unfolding match_over_def by (metis order_less_le_trans)
  moreover have "match_on r ms v s'" if "match_on r ms v s"
    using that assms(2-8) unfolding match_on_def by (metis order_less_le_trans)
  ultimately show ?thesis
    using assms(1,5) unfolding frozen_def by auto
qed

lemma keeps_frozen_modify:
  assumes "\<And>s. members (room_in (f s) r) = members (room_in s r) \<and> started (room_in (f s) r) = started (room_in s r) \<and>
      seed (room_in (f s) r) = seed (room_in s r) \<and> next_room (f s) = next_room s \<and> next_client (f s) = next_client s"
    and "\<And>s c. name (client_in (f s) c) = name (client_in s c)"
    and "\<And>s c. room (client_in (f s) c) = room (client_in s c) \<or> room (client_in (f s) c) \<noteq> Some r"
    and "\<And>s c. dead (client_in s c) \<Longrightarrow> dead (client_in (f s) c)"
  shows "keeps (frozen r ms v) (modify f)"
proof (rule keeps_modify)
  fix s assume "frozen r ms v s"
  then show "frozen r ms v (f s)"
    by (rule frozen_same) (use assms in \<open>simp_all, metis\<close>)
qed

lemma frozen_update: "keeps (frozen r ms v) lobby_update"
  unfolding lobby_update_def by (intro keeps_intros keeps_frozen_modify) simp_all

lemma frozen_log: "keeps (frozen r ms v) (log_line l)"
  unfolding log_line_def by (intro keeps_frozen_modify) simp_all

lemma frozen_forget: "keeps (frozen r ms v) (forget_client c why)"
  unfolding forget_client_def by (intro keeps_intros keeps_frozen_modify frozen_log frozen_update) simp_all

lemma frozen_naming:
  assumes "valid_name n" and "keeps (frozen r ms v) (block bs)"
  shows "keeps (frozen r ms v) (block (drop_old_alias c n # modify (set_name c n) # log_line l # lobby_update # bs))"
proof -
  have "keeps (frozen r ms v) (modify (set_name c n))"
    by (rule keeps_modify) (erule frozen_same, auto simp: set_name_def assms(1) split: if_splits)
  moreover have "keeps (frozen r ms v) (drop_old_alias c n)"
    unfolding drop_old_alias_def by (intro keeps_intros keeps_frozen_modify frozen_log) simp_all
  ultimately show ?thesis
    by (intro keeps_block_Cons frozen_log frozen_update assms(2))
qed

lemma crc_update_fields:
  "members (fst (if a then (rm\<lparr>crc := T\<rparr>, x) else if b then (rm\<lparr>crc := U\<rparr>, y) else (rm\<lparr>crc := U, crc_ok := k\<rparr>, z))) = members rm"
  "started (fst (if a then (rm\<lparr>crc := T\<rparr>, x) else if b then (rm\<lparr>crc := U\<rparr>, y) else (rm\<lparr>crc := U, crc_ok := k\<rparr>, z))) = started rm"
  "seed (fst (if a then (rm\<lparr>crc := T\<rparr>, x) else if b then (rm\<lparr>crc := U\<rparr>, y) else (rm\<lparr>crc := U, crc_ok := k\<rparr>, z))) = seed rm"
  by simp_all

lemma crc_report_room:
  "members (fst (crc_report seat tick w rm)) = members rm" "started (fst (crc_report seat tick w rm)) = started rm"
  "seed (fst (crc_report seat tick w rm)) = seed rm"
  unfolding crc_report_def Let_def by (rule crc_update_fields)+

lemma frozen_crc: "keeps (frozen r ms v) (log_crc c payload)"
proof -
  have "frozen r ms v (set_room q (\<lambda>_. fst (crc_report seat tick w (room_in s q))) s\<lparr>log_lines := l\<rparr>)"
    if "frozen r ms v s" for s q seat tick w l
    using that by (rule frozen_same) (simp_all add: crc_report_room)
  then show ?thesis
    unfolding log_crc_def keeps_def reading_def
    by (auto simp: raise_def modify_def split_beta split: option.split)
qed

subsection \<open>Leaving\<close>

lemma frozen_other_room:
  assumes "q \<noteq> r" and "\<And>c d. keeps (frozen r ms v) (put c d)"
  shows "keeps (frozen r ms v) (dissolve_with put q notify)" "keeps (frozen r ms v) (room_broadcast_with put q)"
    "keeps (frozen r ms v) (leave_room_with put q c)"
proof -
  show dissolve: "keeps (frozen r ms v) (dissolve_with put q notify)" for notify
    unfolding dissolve_with_def by (intro keeps_intros keeps_frozen_modify assms(2)) (auto simp: assms(1) not_sym [OF assms(1)])
  show broadcast: "keeps (frozen r ms v) (room_broadcast_with put q)"
    unfolding room_broadcast_with_def by (intro keeps_intros assms(2))
  show "keeps (frozen r ms v) (leave_room_with put q c)"
    unfolding leave_room_with_def tell_room_with_def end_match_with_def
    by (intro keeps_intros dissolve broadcast frozen_log frozen_update keeps_frozen_modify assms(2))
      (auto simp: assms(1) not_sym [OF assms(1)])
qed

lemma frozen_end_match:
  assumes "r < next_room s" and "length (members (room_in s r)) \<le> 4" and "seat < 4"
    and "name (client_in s c) = Some n" and "valid_name n"
    and "\<forall>d. room (client_in s d) = Some r \<longrightarrow> d \<in> set (members (room_in s r))"
    and "c \<in> set ms \<and> c < next_client s \<and> dead (client_in s c)"
    and "\<And>c d. keeps (frozen r ms v) (put c d)"
  shows "wp (end_match_with put r c seat) (\<lambda>_. frozen r ms v) (\<lambda>_. frozen r ms v) s"
proof -
  obtain pl where pl: "peer_left_frame seat (Some n) = Inr pl"
    using peer_left_ok [OF assms(5)] assms(3) by fastforce
  have "frozen r ms v (set_room r (\<lambda>x. x\<lparr>members := []\<rparr>) (leave_all (members (room_in s r)) (s\<lparr>log_lines := l\<rparr>)))" for l
    using assms(1,6,7) by (auto simp: frozen_def match_over_def leave_all_def)
  moreover have "wp (for_each ms' (\<lambda>m. block [put m pl, log_line (\<lambda>s. LogBackToLobby (repr_Client (client_in s m)))]))
      (\<lambda>_. frozen r ms v) (\<lambda>_. frozen r ms v) t" if "frozen r ms v t" for ms' t
  proof -
    have "keeps (frozen r ms v) (for_each ms' (\<lambda>m. block [put m pl, log_line (\<lambda>s. LogBackToLobby (repr_Client (client_in s m)))]))"
      by (intro keeps_intros assms(8) frozen_log)
    with that show ?thesis by (simp add: keeps_wp)
  qed
  ultimately show ?thesis
    unfolding end_match_with_def dissolve_with_def
    by (simp add: wp_simps wp_leave_each pl assms(4) Let_def for_each.simps)
qed

lemma frozen_leave:
  assumes put: "\<And>c d. keeps (frozen r ms v) (put c d)" and J: "frozen r ms v s" and dead: "dead (client_in s c)"
  shows "wp (leave_room_with put q c) (\<lambda>_. frozen r ms v) (\<lambda>_. frozen r ms v) s"
proof (cases "q = r")
  case True
  have "wp (leave_room_with put r c) (\<lambda>_. frozen r ms v) (\<lambda>_. frozen r ms v) s"
  proof (cases "seat_in s r c")
    case (Inl e)
    with J show ?thesis
      by (simp add: leave_room_with_def wp_simps)
  next
    case (Inr seat)
    then have seat: "c \<in> set (members (room_in s r))" "seat < length (members (room_in s r))"
      by (auto simp: seat_in_def dest: py_index_Some split: option.splits)
    with J have on: "match_on r ms v s" "r < next_room s"
      by (auto simp: frozen_def match_over_def)
    let ?u = "set_room r (\<lambda>x. x\<lparr>members := remove1 c (members x)\<rparr>) (set_client c (\<lambda>x. x\<lparr>room := None\<rparr>) s)"
    from on seat obtain n where n: "name (client_in s c) = Some n" "valid_name n"
      by (auto simp: match_on_def)
    have "wp (end_match_with put r c seat) (\<lambda>_. frozen r ms v) (\<lambda>_. frozen r ms v) ?u"
      by (rule frozen_end_match [OF _ _ _ _ n(2) _ _ put])
        (use on seat n dead in \<open>auto simp: match_on_def length_remove1\<close>)
    then have "wp (tell_room_with put r c seat) (\<lambda>_. frozen r ms v) (\<lambda>_. frozen r ms v) ?u"
      using on by (simp add: tell_room_with_def wp_simps match_on_def)
    then have "wp (tell_room_with put r c seat) (\<lambda>_. wp lobby_update (\<lambda>_. frozen r ms v) (\<lambda>_. frozen r ms v))
        (\<lambda>_. frozen r ms v) ?u"
      by (rule wp_mono) (use frozen_update in \<open>simp_all add: keeps_wp\<close>)
    then show ?thesis
      by (simp add: leave_room_with_def wp_simps Inr del: wp_lobby_update)
  qed
  with True show ?thesis by simp
next
  case False
  with frozen_other_room(3) [OF False put] J show ?thesis
    by (simp add: keeps_wp)
qed

lemma frozen_drop:
  assumes "\<And>c d. keeps (frozen r ms v) (put c d)"
  shows "keeps (frozen r ms v) (drop_body put c why)"
proof -
  have "wp (forget_client c why) (\<lambda>_ t. wp (reading (\<lambda>s. case room (client_in s c) of None \<Rightarrow> return ()
      | Some q \<Rightarrow> leave_room_with put q c)) (\<lambda>_. frozen r ms v) (\<lambda>_. frozen r ms v) t) (\<lambda>_. frozen r ms v) s"
    if "frozen r ms v s" for s
  proof -
    have "wp (forget_client c why) (\<lambda>_. frozen r ms v) (\<lambda>_. frozen r ms v) s"
      using frozen_forget that by (simp add: keeps_wp)
    moreover have "wp (forget_client c why) (\<lambda>_ t. dead (client_in t c)) (\<lambda>_. frozen r ms v) s"
      by (simp add: forget_client_def wp_simps Let_def)
    ultimately have "wp (forget_client c why) (\<lambda>_ t. frozen r ms v t \<and> dead (client_in t c)) (\<lambda>_. frozen r ms v) s"
      by (simp add: wp_def split: prod.splits sum.splits)
    then show ?thesis
      by (rule wp_mono) (auto simp: wp_simps split: option.split intro: frozen_leave [OF assms])
  qed
  then show ?thesis
    unfolding keeps_wp drop_body_def by (simp add: wp_simps)
qed

subsection \<open>Joining and starting\<close>

lemma keeps_reading_at: "(\<And>s. J s \<Longrightarrow> wp (f s) (\<lambda>_. J) (\<lambda>_. J) s) \<Longrightarrow> keeps J (reading f)"
  by (simp add: keeps_wp wp_reading)

lemma frozen_start_other:
  assumes "q \<noteq> r" and "\<And>c d. keeps (frozen r ms v) (send c d)"
  shows "keeps (frozen r ms v) (start_room q)"
  unfolding start_room_def announce_start_def randrange_def
  by (intro keeps_intros keeps_frozen_modify frozen_log frozen_update assms(2)) (simp_all add: assms(1) not_sym [OF assms(1)])

lemma frozen_not_mine: "frozen r ms v s \<Longrightarrow> room (client_in s c) = Some q \<Longrightarrow> \<not> started (room_in s q) \<Longrightarrow> q \<noteq> r"
  by (auto simp: frozen_def match_on_def match_over_def)

lemma frozen_go:
  assumes "\<And>c d. keeps (frozen r ms v) (send c d)"
  shows "keeps (frozen r ms v) (on_go c)"
  unfolding on_go_def
proof (rule keeps_reading_at)
  fix s assume J: "frozen r ms v s"
  have "wp (start_room q) (\<lambda>_. frozen r ms v) (\<lambda>_. frozen r ms v) s"
    if "room (client_in s c) = Some q" "\<not> started (room_in s q)" for q
    using frozen_start_other [OF frozen_not_mine [OF J that] assms] J by (simp add: keeps_wp)
  with J show "wp (case room (client_in s c) of None \<Rightarrow> return ()
     | Some r \<Rightarrow>
         if started (room_in s r) then return ()
         else bind (attempt Py (seat_in s r c)) (\<lambda>seat.
           if seat \<noteq> 0 then return ()
           else if \<not> (2 \<le> length (members (room_in s r)) \<and> length (members (room_in s r)) \<le> MAX_SEATS)
           then return ()
           else start_room r)) (\<lambda>_. frozen r ms v) (\<lambda>_. frozen r ms v) s"
    by (auto simp: wp_simps split: option.split sum.split)
qed

lemma frozen_enter_other:
  assumes "q \<noteq> r" and "\<And>c d. keeps (frozen r ms v) (send c d)"
  shows "keeps (frozen r ms v) (enter_room c q)"
  unfolding enter_room_def room_broadcast_def
  by (intro keeps_intros keeps_frozen_modify frozen_log frozen_update frozen_other_room(2) frozen_start_other assms)
    (auto simp: assms(1) not_sym [OF assms(1)])

lemma frozen_open_room:
  assumes "frozen r ms v s" and "case room (client_in s target) of None \<Rightarrow> True | Some q \<Rightarrow> \<not> started (room_in s q)"
  shows "wp (open_room target) (\<lambda>q s'. q \<noteq> r \<and> frozen r ms v s') E s"
proof (cases "room (client_in s target)")
  case None
  have "r \<noteq> next_room s"
    using assms(1) by (simp add: frozen_def)
  moreover have "frozen r ms v (opened target s)"
    using assms(1) by (rule frozen_same) (use \<open>r \<noteq> next_room s\<close> in \<open>auto simp: opened_def split: if_splits\<close>)
  ultimately show ?thesis
    using None by (simp add: open_room_def wp_simps opened_def)
next
  case (Some q)
  then show ?thesis
    using assms frozen_not_mine [OF assms(1) Some] by (simp add: open_room_def wp_simps)
qed

lemma frozen_join:
  assumes "\<And>c d. keeps (frozen r ms v) (send c d)" and "keeps (frozen r ms v) (on_list c)"
  shows "keeps (frozen r ms v) (on_join c payload)"
  unfolding on_join_def
proof (rule keeps_reading_at)
  fix s assume J: "frozen r ms v s"
  have "wp (bind (open_room target) (\<lambda>q. enter_room c q)) (\<lambda>_. frozen r ms v) (\<lambda>_. frozen r ms v) s"
    if "joinable s c target" for target
  proof -
    have "wp (open_room target) (\<lambda>q s'. q \<noteq> r \<and> frozen r ms v s') (\<lambda>_. frozen r ms v) s"
      by (rule frozen_open_room [OF J]) (use that in \<open>auto simp: joinable_def split: option.splits\<close>)
    then show ?thesis
      unfolding wp_bind
      by (rule wp_mono) (use frozen_enter_other [OF _ assms(1)] in \<open>auto simp: keeps_wp\<close>)
  qed
  moreover have "wp (on_list c) (\<lambda>_. frozen r ms v) (\<lambda>_. frozen r ms v) s"
    using assms(2) J by (simp add: keeps_wp)
  ultimately show "wp (if name (client_in s c) = None then raise (ProtocolError JoinBeforeHello)
     else if room (client_in s c) \<noteq> None then return ()
     else case map_of (by_name s) (wire_name payload) of
       None \<Rightarrow> on_list c
     | Some target \<Rightarrow>
         if joinable s c target then bind (open_room target) (\<lambda>r. enter_room c r)
         else on_list c) (\<lambda>_. frozen r ms v) (\<lambda>_. frozen r ms v) s"
    using J by (simp add: wp_return wp_raise split: option.split)
qed

interpretation frozen_match: kept "frozen r ms v" for r ms v
proof (rule kept.intro)
  show "frozen r ms v s \<Longrightarrow> untouched s s' \<Longrightarrow> frozen r ms v s'" for s s'
    by (erule frozen_same) (simp_all add: untouched_def)
  show "frozen r ms v s \<Longrightarrow> frozen r ms v (connected a now s)" for s a now
    by (erule frozen_same) (auto simp: connected_def new_Client_def split: if_splits)
qed (rule frozen_update frozen_drop frozen_naming frozen_join frozen_go frozen_crc; assumption)+

subsection \<open>Matches over the passes of the loop\<close>

text \<open>The states that follow \<open>s\<close> after any number of passes, a pass that \<open>accept\<close> stops included.\<close>

inductive later :: "Server \<Rightarrow> Server \<Rightarrow> bool" for s where
  now: "later s s"
| pass: "later s t \<Longrightarrow> run_pass enum tm evs clock failures t = (r, t') \<Longrightarrow> later s t'"

text \<open>What the players of a room see of their match.\<close>

datatype match_view = Playing "cid list" nat | Ended

definition match_of :: "Server \<Rightarrow> rid \<Rightarrow> match_view" where
  "match_of s r = (if members (room_in s r) = [] then Ended else Playing (members (room_in s r)) (seed (room_in s r)))"

lemma frozen_later: "later s t \<Longrightarrow> frozen r ms v s \<Longrightarrow> frozen r ms v t"
proof (induction rule: later.induct)
  case (pass t enum tm evs clock failures res t')
  then show ?case
    using frozen_match.keeps_run_pass [of r ms v enum tm evs clock failures] by (auto simp: keeps_def)
qed

lemma over_later:
  assumes "later t u" and "match_over r ms t" and "r < next_room t"
  shows "members (room_in u r) = []"
proof -
  have "frozen r ms 0 u" "frozen r ms 1 u"
    by (rule frozen_later [OF assms(1)], simp add: frozen_def assms(2,3))+
  then show ?thesis
    by (auto simp: frozen_def match_on_def match_over_def)
qed

lemma reachable_frozen:
  assumes "reachable d ago lob s" and "started (room_in s r)" and "members (room_in s r) \<noteq> []"
  shows "frozen r (members (room_in s r)) (seed (room_in s r)) s"
proof -
  have inv: "quiet s"
    using reachable_loop_inv [OF assms(1)] loop_inv_quiet by blast
  then have fresh: "fresh_ok s"
    by (simp add: srv_inv_def)
  have "r < next_room s"
    using fresh assms(3) by (meson fresh_ok_def not_less)
  moreover have "c < next_client s \<and> (\<exists>n. name (client_in s c) = Some n \<and> valid_name n)"
    if "c \<in> set (members (room_in s r))" for c
    using member_named [OF inv _ that] fresh by (metis empty_iff fresh_ok_def not_less option.distinct(1))
  ultimately show ?thesis
    using srv_inv_members(2) [OF inv] srv_inv_room_iff [OF inv] assms(2) by (simp add: frozen_def match_on_def)
qed

text \<open>C4: a started match is frozen. Whatever happens in any number of passes of the loop, with every
  message, failure and departure, its members, their order (which is their seats) and its seed stay
  what they were; or it has ended, which takes the loss of one of its members, and then its room
  stays empty for good and nobody is in it.\<close>

theorem started_match_is_frozen:
  assumes "reachable d ago lob s" and "started (room_in s r)" and "members (room_in s r) \<noteq> []" and "later s t"
  shows "started (room_in t r) \<and> match_of t r = match_of s r \<or>
    match_of t r = Ended \<and> (\<exists>c \<in> set (members (room_in s r)). dead (client_in t c)) \<and>
    (\<forall>c. room (client_in t c) \<noteq> Some r) \<and> (\<forall>u. later t u \<longrightarrow> match_of u r = Ended)"
proof -
  have t: "frozen r (members (room_in s r)) (seed (room_in s r)) t"
    using frozen_later [OF assms(4) reachable_frozen [OF assms(1-3)]] .
  show ?thesis
  proof (cases "match_over r (members (room_in s r)) t")
    case True
    then have "match_of u r = Ended" if "later t u" for u
      using over_later [OF that] t by (simp add: match_of_def frozen_def)
    with True show ?thesis
      using later.now by (auto simp: match_over_def)
  next
    case False
    with t assms(3) show ?thesis
      by (simp add: frozen_def match_on_def match_of_def)
  qed
qed

theorem started_match_is_frozen_witness:
  "match_of (snd (run_pass id boot_timers [Ready 1 False (Some (Received []))] 0 0 match_state)) 0
     \<in> {Playing [0, 1, 2] (seed (room_in match_state 0)), Ended}"
proof -
  let ?t = "snd (run_pass id boot_timers [Ready 1 False (Some (Received []))] 0 0 match_state)"
  have "later match_state ?t"
    by (rule later.pass [OF later.now]) (rule prod.collapse [symmetric])
  with started_match_is_frozen [OF demo_reachable(3), of 0 ?t] show ?thesis
    using demo_states(3) by (auto simp: three_consoles_def match_of_def)
qed

end
