(* ===== verification/Relay_Main.thy ===== *)
theory Relay_Main
  imports Whole_System Publisher_Test
begin

text \<open>
  The arguments of \<open>main\<close> with their defaults, and what it starts from them. That \<open>argparse\<close> reads
  the command line into such a record is left out.
\<close>

record relay_args =
  port :: int
  game_name :: string
  server_name :: string
  input_delay :: int
  auto_go_at :: int
  debug :: bool
  lobby_on :: bool
  lobby_url :: string
  lobby_serverurl :: string
  lobby_client_url :: string
  lobby_appkey :: int

definition default_args :: relay_args where
  "default_args = \<lparr>port = 9111, game_name = ''PGA Golf'', server_name = ''Golf Netplay'', input_delay = DEFAULT_DELAY,
     auto_go_at = 0, debug = False, lobby_on = False, lobby_url = ''https://lobby.fujinet.online'',
     lobby_serverurl = ''TCP://fujinet.online:9111/'',
     lobby_client_url = ''TNFS://apps.irata.online/Intellivision/Games/PGAGolf.rom'', lobby_appkey = 19\<rparr>"

text \<open>The publisher that \<open>main\<close> creates at time \<open>t\<close>, if any, and the server at the start of its loop.\<close>

definition publisher_of :: "relay_args \<Rightarrow> rat \<Rightarrow> Publisher" where
  "publisher_of a t = main_publisher (lobby_url a) (lobby_serverurl a) (lobby_client_url a) (lobby_appkey a)
     (game_name a) (server_name a) t"

definition main_lobby :: "relay_args \<Rightarrow> rat \<Rightarrow> Publisher option" where
  "main_lobby a t = (if lobby_on a then Some (update 0 (publisher_of a t)) else None)"

definition main_server :: "relay_args \<Rightarrow> (cid \<Rightarrow> send_answer list) \<Rightarrow> nat list \<Rightarrow> Server" where
  "main_server a answers rnd = new_Server (input_delay a) (auto_go_at a) (lobby_on a) answers rnd"

subsection \<open>What it starts\<close>

text \<open>Without \<open>--lobby-enabled\<close> there is no publisher, in \<open>main\<close> or in any state of the server.\<close>

lemma local_rigs_stay_unregistered:
  assumes "reachable (input_delay a) (auto_go_at a) (lobby_on a) s" and "\<not> lobby_on a"
  shows "lobby_enabled s = False \<and> main_lobby a t = None"
  using reachable_told [OF assms(1)] assms(2) by (simp add: told_since_def main_lobby_def)

text \<open>With it, \<open>main\<close> starts the system of server and publisher.\<close>

lemma main_starts_the_system:
  assumes "main_lobby a t = Some p"
  shows "system (input_delay a) (auto_go_at a) (publisher_of a t) (main_server a answers rnd) p"
  using assms system.boot [of "input_delay a" "auto_go_at a" "publisher_of a t" answers rnd]
  by (simp add: main_lobby_def main_server_def split: if_splits)

text \<open>Every request of the worker, whenever it is made, registers the server under the arguments, as
  online and with the number of seats of a room.\<close>

theorem requests_carry_the_arguments:
  assumes "system (input_delay a) (auto_go_at a) (publisher_of a t) s p" and "i < length (posts p)"
  shows "game (snd (posts p ! i)) = game_name a \<and> appkey (snd (posts p ! i)) = lobby_appkey a \<and>
    serverurl (snd (posts p ! i)) = lobby_serverurl a \<and> client_url (snd (posts p ! i)) = lobby_client_url a \<and>
    maxplayers (snd (posts p ! i)) = MAX_SEATS \<and> status (snd (posts p ! i)) = ''online''"
proof -
  let ?new = "publisher_of a t" and ?reg = "snd (posts p ! i)"
  have pub: "published ?new p"
    using system_keeps [OF assms(1) [unfolded publisher_of_def]] by (simp add: system_inv_def publisher_of_def)
  have "part_kept (fixed_part (payload ?new)) ?new"
    by (simp add: part_kept_def publisher_of_def main_publisher_def new_Publisher_def)
  then have "fixed_part ?reg = fixed_part (payload ?new)"
    using part_kept_published [OF pub] assms(2) by (auto simp: part_kept_def)
  moreover have "status ?reg = ''online''"
    using published_inv [OF pub [unfolded publisher_of_def main_publisher_def]] assms(2)
    by (auto simp: publisher_inv_def spaced_ok_def)
  ultimately show ?thesis
    using fixed_part_fields [of ?reg "payload ?new"]
    by (simp add: publisher_of_def main_publisher_def new_Publisher_def MAX_SEATS_def)
qed

text \<open>A bare production run has an app key that the lobby does not reject, and an input delay that
  fits its byte of the START message.\<close>

theorem defaults_are_usable: "lobby_appkey default_args \<noteq> 0 \<and> input_delay default_args \<in> {0..255} \<and>
    2 \<le> length (game_name default_args) \<and> length (game_name default_args) \<le> 16"
  by (simp add: default_args_def DEFAULT_DELAY_def)

end
