(* ===== verification/Client_Frames.thy ===== *)
theory Client_Frames
  imports Relay_State
begin

text \<open>
  What the Python client tools share (\<open>tools/bbnet_client_sim.py\<close>, \<open>tools/server_diff.py\<close>): how
  they build frames and names, how they take frames off a receive buffer, and how they read a
  lobby list and a roster.
\<close>

subsection \<open>Frames as the tools build and read them\<close>

text \<open>\<open>frame\<close> of the client tools has no assertion: \<open>bytes([len(body)])\<close> raises ValueError.\<close>

definition client_frame :: "byte \<Rightarrow> bytes \<Rightarrow> pyexn + bytes" where
  "client_frame t payload =
     (case py_bytes [int (length (t # payload))] of Inl e \<Rightarrow> Inl e | Inr len \<Rightarrow> Inr (len @ t # payload))"

text \<open>\<open>name.encode()[:8].ljust(8, b"\0")\<close>, for the ASCII names of the scripts.\<close>

definition pad :: "pystr \<Rightarrow> bytes" where
  "pad n = ljust 8 0 (take 8 (map of_nat n))"

text \<open>
  The test of the reader's loop: wait for a whole frame. A length byte 0 makes \<open>body[0]\<close>
  an IndexError, which is \<open>BadLength 0\<close>.
\<close>

definition cli_next :: "bytes \<Rightarrow> scan_result" where
  "cli_next buf =
     (case buf of [] \<Rightarrow> Incomplete
      | len # _ \<Rightarrow>
         (let n = unat len + 1
          in if length buf < n then Incomplete
             else (case take (n - 1) (drop 1 buf) of
               [] \<Rightarrow> BadLength 0
             | t # p \<Rightarrow> Frame t p (drop n buf))))"

lemma cli_next_Frame:
  "cli_next a = Frame t p r \<longleftrightarrow> length p < 255 \<and> a = of_nat (Suc (length p)) # t # p @ r"
proof
  assume f: "cli_next a = Frame t p r"
  then obtain l ls where a: "a = l # ls"
    by (auto simp: cli_next_def split: list.splits)
  have enough: "unat l \<le> length ls" and body: "take (unat l) ls = t # p" and r: "r = drop (unat l) ls"
    using f by (auto simp: cli_next_def a Let_def split: if_splits list.splits)
  have len: "unat l = Suc (length p)"
    using enough arg_cong [OF body, of length] by simp
  have "l = of_nat (Suc (length p))"
    by (simp add: len [symmetric])
  moreover have "ls = t # p @ r"
    using body r append_take_drop_id [of "unat l" ls] by simp
  ultimately show "length p < 255 \<and> a = of_nat (Suc (length p)) # t # p @ r"
    using len unat_byte [of l] a by simp
next
  assume "length p < 255 \<and> a = of_nat (Suc (length p)) # t # p @ r"
  then show "cli_next a = Frame t p r"
    using unat_frame_len [of "Suc (length p)"] by (simp add: cli_next_def Let_def del: of_nat_Suc)
qed

lemma cli_next_BadLength: "cli_next a = BadLength l \<longleftrightarrow> l = 0 \<and> (\<exists>bs. a = 0 # bs)"
proof (cases a)
  case (Cons b bs)
  have "take (unat b) bs = [] \<longleftrightarrow> b = 0" if "unat b \<le> length bs"
    using that by (cases bs) (auto simp: unat_eq_zero)
  with Cons show ?thesis
    by (auto simp: cli_next_def Let_def not_less split: list.split)
qed (simp add: cli_next_def)

interpretation cli_scan: frame_scanner cli_next
  by unfold_locales (auto simp: cli_next_Frame cli_next_BadLength cli_next_def [of "[]"])

text \<open>What the server frames, the consoles read back: the server's sender meets the client's reader.\<close>

lemma cli_next_frame:
  "frame t p = Inr f \<Longrightarrow> cli_next (f @ rest) = Frame t p rest"
  by (auto simp: frame_eq_Inr cli_next_Frame)

lemma cli_next_client_frame:
  "client_frame t p = Inr f \<Longrightarrow> frame t p = Inr f"
  by (auto simp: client_frame_def py_bytes_def frame_def Let_def split: if_splits)

lemma pad_is_pad_name: "\<forall>ch \<in> set n. ch < 128 \<Longrightarrow> pad_name n = Inr (pad n)"
  by (simp add: pad_name_def encode_ascii_def pad_def)

subsection \<open>Lobby lines and rosters\<close>

text \<open>
  \<open>raw.rstrip(b"\0").decode()\<close>; \<open>None\<close> for bytes that are no ASCII, which the server never
  sends in a name (the codec would go on with UTF-8).
\<close>

definition decode_name :: "bytes \<Rightarrow> pystr option" where
  "decode_name raw =
     (let b = rstrip {0} raw in if \<forall>x \<in> set b. unat x < 128 then Some (map unat b) else None)"

datatype tool_exn =
    AssertFailed string
  | Timeout
  | EndOfFile
  | NotAscii
  | PyE pyexn
  | ServerDied exn

text \<open>\<open>lobby_status\<close>: the loop over the entries of nine bytes.\<close>

primrec lobby_scan :: "nat \<Rightarrow> bytes \<Rightarrow> pystr \<Rightarrow> tool_exn + byte option" where
  "lobby_scan 0 es n = Inr None"
| "lobby_scan (Suc k) es n =
     (let e = take 9 es in
      case decode_name (take 8 e) of
        None \<Rightarrow> Inl NotAscii
      | Some nm \<Rightarrow>
          if nm = n then (if length e < 9 then Inl (PyE IndexError) else Inr (Some (e ! 8)))
          else lobby_scan k (drop 9 es) n)"

definition lobby_status :: "bytes \<Rightarrow> pystr \<Rightarrow> tool_exn + byte option" where
  "lobby_status payload n =
     (case payload of [] \<Rightarrow> Inl (PyE IndexError) | k # es \<Rightarrow> lobby_scan (unat k) es n)"

definition roster_names :: "bytes \<Rightarrow> pystr option list" where
  "roster_names raw = map (\<lambda>i. decode_name (take 8 (drop (i * 8) raw))) [0 ..< 4]"

lemma decode_padded:
  assumes "\<forall>ch \<in> set n. ch < 128 \<and> ch \<noteq> 0" and "length n \<le> 8"
  shows "decode_name (pad n) = Some n"
proof -
  have len: "take 8 (map of_nat n) = (map of_nat n :: bytes)"
    using assms(2) by simp
  have nz: "(of_nat ch :: byte) \<noteq> 0" "unat (of_nat ch :: byte) = ch" if "ch \<in> set n" for ch
  proof -
    show "unat (of_nat ch :: byte) = ch"
      using assms(1) that by (intro unat_frame_len) force
    then show "(of_nat ch :: byte) \<noteq> 0"
      using assms(1) that by force
  qed
  have "rstrip {0} (pad n) = rstrip {0} (map of_nat n)"
    by (simp add: pad_def len ljust_def rstrip_append_pad set_replicate_conv_if)
  also have "\<dots> = map of_nat n"
    using nz(1) by (intro rstrip_id) (cases n rule: rev_cases, auto)
  finally show ?thesis
    using nz(2) assms(1) by (auto simp: decode_name_def comp_def intro!: map_idI)
qed

lemma length_pad: "length (pad n) = 8"
  by (simp add: pad_def length_ljust)

text \<open>The entries of a lobby list, as the server puts them together.\<close>

definition entries :: "(pystr \<times> byte) list \<Rightarrow> bytes" where
  "entries es = concat (map (\<lambda>(n, st). pad n @ [st]) es)"

lemma lobby_scan_entries:
  assumes "\<forall>(n, st) \<in> set es. (\<forall>ch \<in> set n. ch < 128 \<and> ch \<noteq> 0) \<and> length n \<le> 8"
  shows "lobby_scan (length es) (entries es @ rest) n = Inr (map_of es n)"
  using assms
proof (induction es)
  case (Cons e es)
  obtain m st where e: "e = (m, st)"
    by (cases e)
  have ent: "entries (e # es) @ rest = pad m @ st # entries es @ rest"
    by (simp add: entries_def e)
  have "take 9 (pad m @ st # entries es @ rest) = pad m @ [st]" "drop 9 (pad m @ st # entries es @ rest) = entries es @ rest"
    by (simp_all add: length_pad)
  moreover have "decode_name (pad m) = Some m"
    using Cons.prems by (intro decode_padded) (auto simp: e)
  ultimately show ?case
    using Cons unfolding ent by (simp add: e length_pad nth_append Let_def)
qed simp

lemma roster_names_padded:
  assumes "\<forall>n \<in> set ns. (\<forall>ch \<in> set n. ch < 128 \<and> ch \<noteq> 0) \<and> length n \<le> 8" and "length ns \<le> 4"
  shows "roster_names (concat (map pad ns) @ replicate (8 * (4 - length ns)) 0) =
    map Some ns @ replicate (4 - length ns) (Some [])"
proof -
  have pads: "concat (map pad ns) @ replicate (8 * (4 - length ns)) 0 = concat (map pad (ns @ replicate (4 - length ns) []))"
  proof -
    have "replicate (8 * k) (0::byte) = concat (map pad (replicate k []))" for k
      by (induction k) (simp_all add: pad_def ljust_def replicate_add)
    then show ?thesis by simp
  qed
  have slice: "take 8 (drop (i * 8) (concat (map pad ms))) = pad (ms ! i)" if "i < length ms" for i ms
    using that
  proof (induction ms arbitrary: i)
    case (Cons m ms)
    show ?case
    proof (cases i)
      case 0
      then show ?thesis by (simp add: length_pad)
    next
      case (Suc j)
      then have "drop (i * 8) (concat (map pad (m # ms))) = drop (j * 8) (concat (map pad ms))"
        by (simp add: length_pad)
      then show ?thesis
        using Cons Suc by simp
    qed
  qed simp
  define all where "all = ns @ replicate (4 - length ns) []"
  have all: "length all = 4" "\<forall>n \<in> set all. (\<forall>ch \<in> set n. ch < 128 \<and> ch \<noteq> 0) \<and> length n \<le> 8"
    using assms by (auto simp: all_def)
  have named: "decode_name (pad (all ! i)) = Some (all ! i)" if "i < 4" for i
    using all that nth_mem [of i all] by (intro decode_padded) auto
  have "roster_names (concat (map pad all)) = map (\<lambda>i. decode_name (pad (all ! i))) [0 ..< 4]"
    unfolding roster_names_def using slice all(1) by (intro map_cong refl) simp
  also have "\<dots> = map (\<lambda>i. Some (all ! i)) [0 ..< length all]"
    unfolding all(1) using named by (intro map_cong refl) simp
  also have "\<dots> = map Some (map ((!) all) [0 ..< length all])"
    by simp
  also have "\<dots> = map Some all"
    unfolding map_nth ..
  finally show ?thesis
    unfolding pads by (simp add: all_def)
qed

end
