(* ===== verification/Diff_Tool.thy ===== *)
theory Diff_Tool
  imports Client_Frames "HOL-Library.Multiset" "HOL-Library.List_Lexorder" "HOL-Library.Char_ord"
begin

text \<open>
  The differential tester \<open>tools/server_diff.py\<close>, its text half: how a received frame is rendered
  for the transcript, how log lines are normalised, and how two transcripts are compared.
\<close>

subsection \<open>Rendering frames\<close>

definition TNAME :: "(byte \<times> string) list" where
  "TNAME = [(0x01, ''HELLO''), (0x02, ''LIST''), (0x03, ''LOBBY''), (0x04, ''JOIN''), (0x05, ''START''),
     (0x06, ''INPUT''), (0x07, ''CRC''), (0x08, ''STATE''), (0x09, ''RESYNC''), (0x0A, ''BYE''),
     (0x0B, ''PEER_LEFT''), (0x0C, ''PING''), (0x0D, ''PONG''), (0x0E, ''ROOM''), (0x0F, ''GO'')]"

text \<open>\<open>bytes.hex()\<close>, and \<open>f"{t:02X}"\<close>.\<close>

definition hex_lower :: "nat \<Rightarrow> char" where "hex_lower n = ''0123456789abcdef'' ! n"
definition hex_upper :: "nat \<Rightarrow> char" where "hex_upper n = ''0123456789ABCDEF'' ! n"

text \<open>A number in decimal.\<close>

fun dec_digits :: "nat \<Rightarrow> string" where
  "dec_digits n = (if n < 10 then [] else dec_digits (n div 10)) @ [hex_upper (n mod 10)]"

declare dec_digits.simps [simp del]

definition hex2_lower :: "byte \<Rightarrow> string" where
  "hex2_lower b = [hex_lower (unat b div 16), hex_lower (unat b mod 16)]"

definition hex2_upper :: "byte \<Rightarrow> string" where
  "hex2_upper b = [hex_upper (unat b div 16), hex_upper (unat b mod 16)]"

definition to_hex :: "bytes \<Rightarrow> string" where
  "to_hex p = concat (map hex2_lower p)"

definition type_name :: "byte \<Rightarrow> string" where
  "type_name t = (case map_of TNAME t of Some n \<Rightarrow> n | None \<Rightarrow> ''$'' @ hex2_upper t)"

text \<open>\<open>render\<close>: the seed of a START is overwritten before it is printed.\<close>

definition mask_seed :: "nat \<Rightarrow> byte \<Rightarrow> bytes \<Rightarrow> bytes" where
  "mask_seed proto t p =
     (if t = T_START \<and> 4 \<le> length p
      then (let lo = (if proto = 1 then 1 else 2) in p[lo := 0xAA, lo + 1 := 0xAA]) else p)"

definition render :: "nat \<Rightarrow> byte \<times> bytes \<Rightarrow> string" where
  "render proto f = (case f of (t, p) \<Rightarrow>
     if t = T_START \<and> 4 \<le> length p
     then ''START '' @ to_hex (mask_seed proto t p) @ '' (seed masked)''
     else type_name t @ '' '' @ to_hex p)"

lemma hex_digits:
  "n < 16 \<Longrightarrow> m < 16 \<Longrightarrow> hex_lower n = hex_lower m \<longleftrightarrow> n = m"
  "n < 16 \<Longrightarrow> m < 16 \<Longrightarrow> hex_upper n = hex_upper m \<longleftrightarrow> n = m"
  unfolding hex_lower_def hex_upper_def by (simp_all add: nth_eq_iff_index_eq)

lemma byte_halves: "unat b div 16 < 16" "unat b mod 16 < 16" for b :: byte
  using unat_byte [of b] by simp_all

lemma same_halves: "unat a div 16 = unat b div 16 \<Longrightarrow> unat a mod 16 = unat b mod 16 \<Longrightarrow> a = b" for a b :: byte
  by (metis div_mult_mod_eq word_unat_eq_iff)

lemma hex2_inject: "hex2_lower a = hex2_lower b \<longleftrightarrow> a = b" "hex2_upper a = hex2_upper b \<longleftrightarrow> a = b"
  using same_halves [of a b] by (auto simp: hex2_lower_def hex2_upper_def hex_digits byte_halves)

lemma to_hex_inject: "to_hex p = to_hex q \<longleftrightarrow> p = q"
proof (induction p arbitrary: q)
  case Nil
  show ?case by (cases q) (auto simp: to_hex_def hex2_lower_def)
next
  case (Cons b p)
  show ?case
  proof (cases q)
    case (Cons c q')
    then have "to_hex (b # p) = to_hex q \<longleftrightarrow> hex2_lower b = hex2_lower c \<and> to_hex p = to_hex q'"
      by (simp add: to_hex_def hex2_lower_def)
    with Cons.IH Cons show ?thesis
      by (simp add: hex2_inject)
  qed (simp add: to_hex_def hex2_lower_def)
qed

lemma hex_lower_chars: "n < 16 \<Longrightarrow> hex_lower n \<in> set ''0123456789abcdef''"
  unfolding hex_lower_def by (intro nth_mem) simp

lemma hex_upper_chars: "n < 16 \<Longrightarrow> hex_upper n \<in> set ''0123456789ABCDEF''"
  unfolding hex_upper_def by (intro nth_mem) simp

lemma hex_not_space: "n < 16 \<Longrightarrow> CHR '' '' \<noteq> hex_lower n" "n < 16 \<Longrightarrow> CHR '' '' \<noteq> hex_upper n"
  using hex_lower_chars [of n] hex_upper_chars [of n] by (force, force)

lemma hex2_no_space: "CHR '' '' \<notin> set (hex2_lower b)" "CHR '' '' \<notin> set (hex2_upper b)"
  using hex_not_space byte_halves [of b] by (simp_all add: hex2_lower_def hex2_upper_def)

lemma to_hex_no_space: "CHR '' '' \<notin> set (to_hex p)"
  by (induction p) (simp_all add: to_hex_def hex2_no_space)

lemma type_name_no_space: "CHR '' '' \<notin> set (type_name t)"
proof (cases "map_of TNAME t")
  case None
  then show ?thesis
    by (simp add: type_name_def hex2_no_space)
next
  case (Some n)
  then have "n \<in> set (map snd TNAME)"
    by (force dest: map_of_SomeD)
  moreover have "list_all (\<lambda>n. CHR '' '' \<notin> set n) (map snd TNAME)"
    by (simp add: TNAME_def)
  ultimately show ?thesis
    using Some by (auto simp: type_name_def list_all_iff)
qed

lemma type_name_inject: "type_name t = type_name u \<longleftrightarrow> t = u"
proof
  assume eq: "type_name t = type_name u"
  have named: "list_all (\<lambda>n. n \<noteq> [] \<and> hd n \<noteq> CHR ''$'') (map snd TNAME)" "distinct (map snd TNAME)" "distinct (map fst TNAME)"
    by (simp_all add: TNAME_def)
  have not_dollar: "hd n \<noteq> CHR ''$''" if "map_of TNAME v = Some n" for v n
    using that named(1) by (force simp: list_all_iff dest: map_of_SomeD)
  show "t = u"
  proof (cases "map_of TNAME t"; cases "map_of TNAME u")
    assume "map_of TNAME t = None" "map_of TNAME u = None"
    with eq show ?thesis by (simp add: type_name_def hex2_inject)
  next
    fix n assume "map_of TNAME t = None" "map_of TNAME u = Some n"
    with eq not_dollar [of u n] show ?thesis by (auto simp: type_name_def)
  next
    fix n assume "map_of TNAME t = Some n" "map_of TNAME u = None"
    with eq not_dollar [of t n] show ?thesis by (auto simp: type_name_def)
  next
    fix n m assume "map_of TNAME t = Some n" "map_of TNAME u = Some m"
    with eq have "(t, n) \<in> set TNAME" "(u, n) \<in> set TNAME"
      by (auto simp: type_name_def dest: map_of_SomeD)
    with named(2) show ?thesis
      by (metis distinct_map inj_on_eq_iff snd_conv fst_conv)
  qed
qed simp

text \<open>The parts of a rendered frame come back: the name up to the first space, then the digits.\<close>

lemma render_split:
  "\<exists>suffix. render proto (t, p) = type_name t @ CHR '' '' # to_hex (mask_seed proto t p) @ suffix \<and>
     (suffix = [] \<or> hd suffix = CHR '' '')"
  by (auto simp: render_def mask_seed_def type_name_def TNAME_def T_START_def)

lemma takeWhile_space: "CHR '' '' \<notin> set a \<Longrightarrow> r = [] \<or> hd r = CHR '' '' \<Longrightarrow> takeWhile (\<lambda>ch. ch \<noteq> CHR '' '') (a @ r) = a"
  by (cases r) (auto simp: takeWhile_append)

lemma length_mask_seed: "length (mask_seed proto t p) = length p"
  by (simp add: mask_seed_def Let_def)

lemma render_eq_mask:
  "render proto (t, p) = render proto (u, q) \<longleftrightarrow> t = u \<and> mask_seed proto t p = mask_seed proto u q"
proof
  assume eq: "render proto (t, p) = render proto (u, q)"
  obtain r where r: "render proto (t, p) = type_name t @ CHR '' '' # to_hex (mask_seed proto t p) @ r" "r = [] \<or> hd r = CHR '' ''"
    using render_split by blast
  obtain s where s: "render proto (u, q) = type_name u @ CHR '' '' # to_hex (mask_seed proto u q) @ s" "s = [] \<or> hd s = CHR '' ''"
    using render_split by blast
  have "type_name t = type_name u"
    using arg_cong [OF eq, of "takeWhile (\<lambda>ch. ch \<noteq> CHR '' '')"] unfolding r(1) s(1)
    by (simp add: takeWhile_space type_name_no_space)
  moreover from this eq have "to_hex (mask_seed proto t p) @ r = to_hex (mask_seed proto u q) @ s"
    unfolding r(1) s(1) by simp
  then have "to_hex (mask_seed proto t p) = to_hex (mask_seed proto u q)"
    using takeWhile_space [OF to_hex_no_space r(2)] takeWhile_space [OF to_hex_no_space s(2)] by metis
  ultimately show "t = u \<and> mask_seed proto t p = mask_seed proto u q"
    by (simp add: type_name_inject to_hex_inject)
next
  assume same: "t = u \<and> mask_seed proto t p = mask_seed proto u q"
  then have "length p = length q"
    using length_mask_seed by metis
  with same show "render proto (t, p) = render proto (u, q)"
    by (auto simp: render_def mask_seed_def)
qed

text \<open>Where the seed of a START is, and when two masked payloads are equal.\<close>

definition seed_at :: "nat \<Rightarrow> byte \<Rightarrow> bytes \<Rightarrow> nat set" where
  "seed_at proto t p =
     (if t = T_START \<and> 4 \<le> length p then (if proto = 1 then {1, 2} else {2, 3}) else {})"

lemma update_two_eq:
  assumes "length p = length q"
  shows "p[i := a, j := b] = q[i := a, j := b] \<longleftrightarrow> {k. k < length p \<and> p ! k \<noteq> q ! k} \<subseteq> {i, j}"
proof -
  have get: "xs[i := a, j := b] ! k = (if k = j then b else if k = i then a else xs ! k)" if "k < length xs" for xs :: "'a list" and k
    using that by (cases "k = j"; cases "k = i") simp_all
  have "p[i := a, j := b] = q[i := a, j := b] \<longleftrightarrow> (\<forall>k < length p. k = j \<or> k = i \<or> p ! k = q ! k)"
    using assms by (auto simp: list_eq_iff_nth_eq get)
  then show ?thesis by auto
qed

lemma masks_equal:
  "mask_seed proto t p = mask_seed proto t q \<longleftrightarrow>
   length p = length q \<and> {i. i < length p \<and> p ! i \<noteq> q ! i} \<subseteq> seed_at proto t p"
proof (cases "length p = length q")
  case True
  show ?thesis
  proof (cases "t = T_START \<and> 4 \<le> length p")
    case none: False
    have "p = q \<longleftrightarrow> {i. i < length p \<and> p ! i \<noteq> q ! i} \<subseteq> {}"
      using True by (simp add: list_eq_iff_nth_eq)
    moreover have "mask_seed proto t p = p" "mask_seed proto t q = q" "seed_at proto t p = {}"
      using True none by (auto simp: mask_seed_def seed_at_def)
    ultimately show ?thesis
      using True by simp
  next
    case start: True
    then have "mask_seed proto t xs = (if proto = 1 then xs[1 := 0xAA, 2 := 0xAA] else xs[2 := 0xAA, 3 := 0xAA])"
      if "length xs = length p" for xs
      using that by (simp add: mask_seed_def Let_def numeral_eq_Suc)
    moreover have "seed_at proto t p = (if proto = 1 then {1, 2} else {2, 3})"
      using start by (simp add: seed_at_def)
    ultimately show ?thesis
      using True update_two_eq [OF True] by simp
  qed
next
  case False
  then have "length (mask_seed proto t p) \<noteq> length (mask_seed proto t q)"
    by (simp add: length_mask_seed)
  with False show ?thesis by auto
qed

text \<open>C35: the transcript hides the seed and nothing else: two received frames are rendered alike
  exactly when they have the same type, payloads of the same length, and these differ at most in the
  two seed bytes of a START: bytes 2 and 3, in protocol 1 bytes 1 and 2.\<close>

theorem render_hides_only_the_seed:
  "render proto (t, p) = render proto (u, q) \<longleftrightarrow>
   t = u \<and> length p = length q \<and> {i. i < length p \<and> p ! i \<noteq> q ! i} \<subseteq>
     (if t = T_START \<and> 4 \<le> length p then (if proto = 1 then {1, 2} else {2, 3}) else {})"
  unfolding render_eq_mask seed_at_def [symmetric] using masks_equal [of proto t p q] by blast

subsection \<open>Log lines\<close>

text \<open>\<open>re.sub\<close> for a pattern whose matches are never empty: \<open>m\<close> returns the text behind a match.\<close>

function re_sub :: "(string \<Rightarrow> string option) \<Rightarrow> string \<Rightarrow> string \<Rightarrow> string" where
  "re_sub m repl [] = []"
| "re_sub m repl (ch # t) =
     (case m (ch # t) of
        None \<Rightarrow> ch # re_sub m repl t
      | Some rest \<Rightarrow> if length rest \<le> length t then repl @ re_sub m repl rest else ch # re_sub m repl t)"
  by pat_completeness auto

termination
  by (relation "measure (\<lambda>(m, repl, t). length t)") auto

fun literal :: "string \<Rightarrow> string \<Rightarrow> string option" where
  "literal [] t = Some t"
| "literal (x # xs) (y # t) = (if x = y then literal xs t else None)"
| "literal (x # xs) [] = None"

definition is_digit :: "char \<Rightarrow> bool" where "is_digit ch \<longleftrightarrow> ch \<in> set ''0123456789''"
definition is_hex :: "char \<Rightarrow> bool" where "is_hex ch \<longleftrightarrow> ch \<in> set ''0123456789ABCDEF''"

definition digits :: "string \<Rightarrow> string option" where
  "digits t = (if takeWhile is_digit t = [] then None else Some (dropWhile is_digit t))"

text \<open>\<open>\(seed \$[0-9A-F]{4}\)\<close>, \<open>\('127\.0\.0\.1', \d+\)\<close> and \<open>listening on :\d+\<close>.\<close>

definition seed_re :: "string \<Rightarrow> string option" where
  "seed_re t = (case literal ''(seed $'' t of None \<Rightarrow> None
     | Some u \<Rightarrow> if 4 \<le> length u \<and> list_all is_hex (take 4 u) then literal '')'' (drop 4 u) else None)"

definition port_re :: "string \<Rightarrow> string option" where
  "port_re t = (case literal ([CHR ''('', CHR 0x27] @ ''127.0.0.1'' @ [CHR 0x27] @ '', '') t of None \<Rightarrow> None
     | Some u \<Rightarrow> (case digits u of None \<Rightarrow> None | Some v \<Rightarrow> literal '')'' v))"

definition listen_re :: "string \<Rightarrow> string option" where
  "listen_re t = (case literal ''listening on :'' t of None \<Rightarrow> None | Some u \<Rightarrow> digits u)"

definition normalize_line :: "string \<Rightarrow> string" where
  "normalize_line l = re_sub listen_re ''listening on :PORT''
     (re_sub port_re ([CHR ''('', CHR 0x27] @ ''127.0.0.1'' @ [CHR 0x27] @ '', PORT)'')
       (re_sub seed_re ''(seed $SEED)'' l))"

definition c_only :: "string \<Rightarrow> bool" where
  "c_only l \<longleftrightarrow> literal ''log WARNING a protocol v1 console tried to connect'' l \<noteq> None"

definition normalize_log :: "string list \<Rightarrow> string list \<times> nat" where
  "normalize_log ls = (map normalize_line (filter (\<lambda>l. \<not> c_only l) ls), length (filter c_only ls))"

subsection \<open>Comparing\<close>

text \<open>\<open>compare\<close> on the two transcripts; \<open>sort\<close> is \<open>sorted\<close>, with strings ordered by code points.\<close>

definition compare :: "nat \<Rightarrow> string \<Rightarrow> bool \<Rightarrow> string list \<Rightarrow> string list \<Rightarrow> bool" where
  "compare proto scenario strict py c =
     (if scenario = ''limits'' \<and> sort py = sort c then True
      else if scenario \<noteq> ''limits'' \<and> py = c then True
      else if scenario = ''framing'' \<and> proto = 2 then \<not> strict
      else False)"

text \<open>The verdict of \<open>main\<close> over the scenarios it ran, SERVER DIFF PASS or FAIL.\<close>

definition server_diff_ok :: "nat \<Rightarrow> bool \<Rightarrow> (string \<times> string list \<times> string list) list \<Rightarrow> bool" where
  "server_diff_ok proto strict runs = fold (\<lambda>(n, py, c) ok. ok \<and> compare proto n strict py c) runs True"

subsection \<open>What the comparison hides, and what it decides\<close>

lemma re_sub_copy:
  "(\<And>y z. x = y @ z \<Longrightarrow> z \<noteq> [] \<Longrightarrow> m (z @ t) = None) \<Longrightarrow> re_sub m r (x @ t) = x @ re_sub m r t"
proof (induction x)
  case (Cons ch x)
  have "re_sub m r (x @ t) = x @ re_sub m r t"
  proof (rule Cons.IH)
    fix y z
    assume "x = y @ z" "z \<noteq> []"
    then show "m (z @ t) = None"
      using Cons.prems [of "ch # y" z] by simp
  qed
  then show ?case
    using Cons.prems [of "[]" "ch # x"] by simp
qed simp

lemma re_sub_match:
  "m (x @ t) = Some t \<Longrightarrow> x \<noteq> [] \<Longrightarrow> re_sub m r (x @ t) = r @ re_sub m r t"
  by (cases x) auto

text \<open>A literal that starts with a character does not match where another one stands.\<close>

lemma literal_None: "x \<noteq> ch \<Longrightarrow> literal (x # xs) (ch # t) = None"
  by simp

lemma literal_append [simp]: "literal xs (xs @ t) = Some t"
  by (induction xs) simp_all

lemma seed_re_None: "ch \<noteq> CHR ''('' \<Longrightarrow> seed_re (ch # t) = None"
  by (simp add: seed_re_def literal_None)

lemma port_re_None: "ch \<noteq> CHR ''('' \<Longrightarrow> port_re (ch # t) = None"
  by (simp add: port_re_def literal_None)

lemma no_paren_copy:
  assumes "\<And>ch t. ch \<noteq> CHR ''('' \<Longrightarrow> m (ch # t) = None" and "CHR ''('' \<notin> set x"
  shows "re_sub m r (x @ t) = x @ re_sub m r t"
proof (rule re_sub_copy)
  fix y z
  assume "x = y @ z" "z \<noteq> []"
  then show "m (z @ t) = None"
    using assms(1) [of "hd z" "tl z @ t"] assms(2) by (cases z) auto
qed

lemma seed_copy: "CHR ''('' \<notin> set x \<Longrightarrow> re_sub seed_re r (x @ t) = x @ re_sub seed_re r t"
  by (rule no_paren_copy) (rule seed_re_None)

lemma port_copy: "CHR ''('' \<notin> set x \<Longrightarrow> re_sub port_re r (x @ t) = x @ re_sub port_re r t"
  by (rule no_paren_copy) (rule port_re_None)

definition address :: "string \<Rightarrow> string" where
  "address ds = [CHR ''('', CHR 0x27] @ ''127.0.0.1'' @ [CHR 0x27] @ '', '' @ ds @ '')''"

lemma takeWhile_digits: "list_all is_digit ds \<Longrightarrow> takeWhile is_digit (ds @ CHR '')'' # t) = ds"
  "list_all is_digit ds \<Longrightarrow> dropWhile is_digit (ds @ CHR '')'' # t) = CHR '')'' # t"
  by (induction ds) (auto simp: is_digit_def)

lemma port_re_address:
  assumes "list_all is_digit ds" and "ds \<noteq> []"
  shows "port_re (address ds @ t) = Some t"
  using assms by (simp add: port_re_def address_def digits_def takeWhile_digits)

lemma seed_re_seed:
  assumes "list_all is_hex s" and "length s = 4"
  shows "seed_re ((''(seed $'' @ s @ '')'') @ t) = Some t"
  using assms by (simp add: seed_re_def)

lemma digit_not_paren: "list_all is_digit ds \<Longrightarrow> CHR ''('' \<notin> set ds"
proof -
  have "\<not> is_digit (CHR ''('')"
    by (simp add: is_digit_def)
  then show "list_all is_digit ds \<Longrightarrow> CHR ''('' \<notin> set ds"
    by (auto simp: list_all_iff)
qed

text \<open>Normalising a log line hides the seed of a match and the port of a local address: two lines
  that differ only in the four digits of a seed, or only in the port, are normalised to the same
  line, whatever stands around them (no bracket in front).\<close>

theorem normalizing_hides_seed_and_port:
  assumes "CHR ''('' \<notin> set pre"
    and "list_all is_hex s" and "length s = 4" and "list_all is_hex s'" and "length s' = 4"
    and "list_all is_digit ds" and "ds \<noteq> []" and "list_all is_digit ds'" and "ds' \<noteq> []"
  shows "normalize_line (pre @ ''(seed $'' @ s @ '')'' @ post) = normalize_line (pre @ ''(seed $'' @ s' @ '')'' @ post)
    \<and> normalize_line (pre @ address ds @ post) = normalize_line (pre @ address ds' @ post)"
proof
  have "re_sub seed_re r (pre @ (''(seed $'' @ h @ '')'') @ post) = pre @ r @ re_sub seed_re r post"
    if "list_all is_hex h" "length h = 4" for h r
    using seed_copy [OF assms(1)] re_sub_match [where m = seed_re, OF seed_re_seed [OF that]] by simp
  from this [OF assms(2,3)] this [OF assms(4,5)]
  show "normalize_line (pre @ ''(seed $'' @ s @ '')'' @ post) = normalize_line (pre @ ''(seed $'' @ s' @ '')'' @ post)"
    by (simp add: normalize_line_def)
next
  have "re_sub seed_re r (address d @ post) = address d @ re_sub seed_re r post" if "list_all is_digit d" for d r
  proof -
    have "seed_re (address d @ post) = None"
      by (simp add: seed_re_def address_def)
    moreover have "CHR ''('' \<notin> set (tl (address d))"
      using digit_not_paren [OF that] by (simp add: address_def)
    ultimately show ?thesis
      using seed_copy [of "tl (address d)" r post] by (simp add: address_def)
  qed
  moreover have "re_sub port_re r (address d @ t) = r @ re_sub port_re r t" if "list_all is_digit d" "d \<noteq> []" for d r t
    using re_sub_match [where m = port_re, OF port_re_address [OF that]] by (simp add: address_def)
  ultimately show "normalize_line (pre @ address ds @ post) = normalize_line (pre @ address ds' @ post)"
    using assms(6-9) seed_copy [OF assms(1)] port_copy [OF assms(1)]
    by (simp add: normalize_line_def)
qed

theorem normalizing_hides_seed_and_port_witness:
  "normalize_line (''log INFO match: 2 players '' @ ''(seed $'' @ ''00FF'' @ '')'' @ []) =
   normalize_line (''log INFO match: 2 players '' @ ''(seed $'' @ ''BEEF'' @ '')'' @ [])"
  using normalizing_hides_seed_and_port [of "''log INFO match: 2 players ''" "''00FF''" "''BEEF''" "''1''" "''2''" "[]"]
  by (simp add: is_hex_def is_digit_def)

lemma same_sorted: "sort xs = sort ys \<longleftrightarrow> mset xs = mset ys" for xs ys :: "'a :: linorder list"
  by (metis mset_sort properties_for_sort sorted_sort)

text \<open>The verdict of the differential test: it passes exactly when every scenario run has equal
  transcripts, as multisets for the racy \<open>limits\<close>; except that for protocol 2 without
  \<open>--strict\<close> the \<open>framing\<close> scenario passes whatever the two servers did.\<close>

theorem differential_verdict:
  "server_diff_ok proto strict runs \<longleftrightarrow> list_all (\<lambda>(n, py, c).
     (if n = ''limits'' then mset py = mset c
      else py = c \<or> n = ''framing'' \<and> proto = 2 \<and> \<not> strict)) runs"
proof -
  have "fold (\<lambda>(n, py, c) ok. ok \<and> compare proto n strict py c) runs ok \<longleftrightarrow>
      ok \<and> list_all (\<lambda>(n, py, c). compare proto n strict py c) runs" for ok
    by (induction runs arbitrary: ok) auto
  moreover have "compare proto n strict py c \<longleftrightarrow> (if n = ''limits'' then mset py = mset c
      else py = c \<or> n = ''framing'' \<and> proto = 2 \<and> \<not> strict)" for n py c
    using same_sorted [of py c] by (auto simp: compare_def)
  ultimately show ?thesis
    by (simp add: server_diff_ok_def)
qed

end
