(* ===== verification/Publisher_Json.thy ===== *)
theory Publisher_Json
  imports Publisher_Test Diff_Tool
begin

text \<open>
  The body of the publisher's request, \<open>json.dumps(self.payload).encode()\<close>, and the comparison of the
  first body in \<open>tools/test_lobby_pub.py\<close>. The body determines the payload, and it is ASCII.
\<close>

subsection \<open>The text\<close>

text \<open>A character in a JSON string, everything outside the printable ASCII characters escaped.\<close>

definition json_char :: "char \<Rightarrow> string" where
  "json_char ch = (let n = of_char ch :: nat in
     if n = 0x22 then [CHR 0x5C, CHR 0x22]
     else if n = 0x5C then [CHR 0x5C, CHR 0x5C]
     else if n = 0x0A then [CHR 0x5C, CHR ''n'']
     else if n = 0x0D then [CHR 0x5C, CHR ''r'']
     else if n = 0x09 then [CHR 0x5C, CHR ''t'']
     else if n = 0x0C then [CHR 0x5C, CHR ''f'']
     else if n = 0x08 then [CHR 0x5C, CHR ''b'']
     else if 0x20 \<le> n \<and> n \<le> 0x7E then [ch]
     else [CHR 0x5C, CHR ''u'', CHR ''0'', CHR ''0'', hex_lower (n div 16), hex_lower (n mod 16)])"

definition json_string :: "string \<Rightarrow> string" where
  "json_string s = [CHR 0x22] @ concat (map json_char s) @ [CHR 0x22]"

definition json_int :: "int \<Rightarrow> string" where
  "json_int i = (if i < 0 then CHR ''-'' # dec_digits (nat (- i)) else dec_digits (nat i))"

text \<open>A member of an object and the text behind it.\<close>

definition json_member :: "string \<Rightarrow> string \<Rightarrow> string \<Rightarrow> string" where
  "json_member key value rest = json_string key @ '': '' @ value @ rest"

definition json_body :: "Payload \<Rightarrow> string" where
  "json_body p = ''{'' @
     json_member ''game'' (json_string (game p)) ('', '' @
     json_member ''appkey'' (json_int (appkey p)) ('', '' @
     json_member ''server'' (json_string (server p)) ('', '' @
     json_member ''region'' (json_string (region p)) ('', '' @
     json_member ''serverurl'' (json_string (serverurl p)) ('', '' @
     json_member ''status'' (json_string (status p)) ('', '' @
     json_member ''maxplayers'' (json_int (int (maxplayers p))) ('', '' @
     json_member ''curplayers'' (json_int (int (curplayers p))) ('', '' @
     json_string ''clients'' @ '': [{'' @
     json_member ''platform'' (json_string (platform p)) ('', '' @
     json_member ''url'' (json_string (client_url p)) ''}]}'')))))))))"

text \<open>What the contract test expects of the first body, for the seats it was given.\<close>

definition expected :: "nat \<Rightarrow> Payload" where
  "expected seats = \<lparr>game = GAME, appkey = APPKEY, server = SERVER_NAME, region = ''us'', serverurl = SERVERURL,
     status = ''online'', maxplayers = seats, curplayers = 0, platform = ''intv'', client_url = CLIENT_URL\<rparr>"

definition body_accepted :: "nat \<Rightarrow> Payload \<Rightarrow> bool" where
  "body_accepted seats reg \<longleftrightarrow> json_body reg = json_body (expected seats)"

subsection \<open>Reading back\<close>

text \<open>One character from the front of what stands between the quotes.\<close>

definition unhex :: "char \<Rightarrow> nat" where
  "unhex ch = (case py_index ''0123456789abcdef'' ch of None \<Rightarrow> 0 | Some i \<Rightarrow> i)"

definition read_char :: "string \<Rightarrow> char \<times> string" where
  "read_char t = (case t of
     x # y # u \<Rightarrow>
       if x \<noteq> CHR 0x5C then (x, y # u)
       else if y = CHR ''n'' then (CHR 0x0A, u) else if y = CHR ''r'' then (CHR 0x0D, u)
       else if y = CHR ''t'' then (CHR 0x09, u) else if y = CHR ''f'' then (CHR 0x0C, u)
       else if y = CHR ''b'' then (CHR 0x08, u)
       else if y = CHR ''u'' then (char_of (unhex (u ! 2) * 16 + unhex (u ! 3)), drop 4 u)
       else (y, u)
   | _ \<Rightarrow> (hd t, tl t))"

lemma unhex_hex: "n < 16 \<Longrightarrow> unhex (hex_lower n) = n"
proof -
  assume "n < 16"
  then have "n \<in> set [0 ..< 16]"
    by simp
  moreover have "list_all (\<lambda>n. unhex (hex_lower n) = n) [0 ..< 16]"
    by (simp add: upt_rec unhex_def hex_lower_def)
  ultimately show ?thesis
    unfolding list_all_iff by blast
qed

lemma char_is: "of_char ch = n \<Longrightarrow> ch = char_of (n :: nat)"
  by (metis char_of_char)

lemma read_json_char: "read_char (json_char ch @ t) = (ch, t)"
proof -
  define n where "n = (of_char ch :: nat)"
  have n: "ch = char_of n" "n < 256"
    using nat_of_char_less_256 [of ch] by (simp_all add: n_def)
  consider (special) "n \<in> {0x22, 0x5C, 0x0A, 0x0D, 0x09, 0x0C, 0x08}"
    | (printable) "n \<notin> {0x22, 0x5C, 0x0A, 0x0D, 0x09, 0x0C, 0x08}" "0x20 \<le> n \<and> n \<le> 0x7E"
    | (other) "n \<notin> {0x22, 0x5C, 0x0A, 0x0D, 0x09, 0x0C, 0x08}" "\<not> (0x20 \<le> n \<and> n \<le> 0x7E)"
    by blast
  then show ?thesis
  proof cases
    case special
    then show ?thesis
      unfolding json_char_def Let_def n_def [symmetric] by (auto simp: read_char_def n(1) char_of_def bit_Suc_0_iff)
  next
    case printable
    then have "json_char ch = [ch]"
      unfolding json_char_def Let_def n_def [symmetric] by simp
    moreover have "ch \<noteq> CHR 0x5C"
      using printable(1) by (auto simp: n_def)
    ultimately show ?thesis
      by (cases t) (simp_all add: read_char_def)
  next
    case other
    then have "json_char ch = [CHR 0x5C, CHR ''u'', CHR ''0'', CHR ''0'', hex_lower (n div 16), hex_lower (n mod 16)]"
      unfolding json_char_def Let_def n_def [symmetric] by simp
    moreover have "unhex (hex_lower (n div 16)) * 16 + unhex (hex_lower (n mod 16)) = n"
      using n(2) by (simp add: unhex_hex)
    ultimately show ?thesis
      by (simp add: read_char_def n(1))
  qed
qed

lemma json_char_front: "json_char ch @ t \<noteq> CHR 0x22 # u"
  by (auto simp: json_char_def Let_def)

lemma json_chars_inject:
  "concat (map json_char s) @ CHR 0x22 # t = concat (map json_char s') @ CHR 0x22 # t' \<longleftrightarrow> s = s' \<and> t = t'"
proof (induction s arbitrary: s')
  case Nil
  then show ?case
    using json_char_front json_char_front [THEN not_sym] by (cases s') simp_all
next
  case (Cons ch s)
  show ?case
  proof (cases s')
    case (Cons ch' s'')
    have "json_char ch @ x = json_char ch' @ x' \<longleftrightarrow> ch = ch' \<and> x = x'" for x x'
      by (metis read_json_char prod.inject)
    with Cons Cons.IH show ?thesis by simp
  qed (simp add: json_char_front)
qed

lemma json_string_inject: "json_string s @ t = json_string s' @ t' \<longleftrightarrow> s = s' \<and> t = t'"
  by (simp add: json_string_def json_chars_inject)

text \<open>Numbers, in front of a comma.\<close>

definition value_of :: "string \<Rightarrow> nat" where
  "value_of ds = fold (\<lambda>d v. v * 10 + unhex d) ds 0"

lemma digit_value: "n < 10 \<Longrightarrow> hex_upper n = hex_lower n \<and> is_digit (hex_upper n)"
proof -
  assume "n < 10"
  then have "n \<in> set [0 ..< 10]"
    by simp
  moreover have "list_all (\<lambda>n. hex_upper n = hex_lower n \<and> is_digit (hex_upper n)) [0 ..< 10]"
    by (simp add: upt_rec hex_upper_def hex_lower_def is_digit_def)
  ultimately show ?thesis
    unfolding list_all_iff by blast
qed

lemma dec_digits_value: "value_of (dec_digits n) = n \<and> list_all is_digit (dec_digits n)"
proof (induction n rule: dec_digits.induct)
  case (1 n)
  have small: "n mod 10 < 10" "n mod 10 < 16"
    using mod_less_divisor [of 10 n] by linarith+
  have d: "unhex (hex_upper (n mod 10)) = n mod 10" "is_digit (hex_upper (n mod 10))"
    using digit_value [OF small(1)] unhex_hex [OF small(2)] by metis+
  show ?case
  proof (cases "n < 10")
    case True
    with d show ?thesis
      by (subst (1 2) dec_digits.simps) (simp add: value_of_def)
  next
    case False
    with d 1 show ?thesis
      by (subst (1 2) dec_digits.simps) (simp add: value_of_def)
  qed
qed

lemma dec_digits_inject: "dec_digits n @ CHR '','' # t = dec_digits m @ CHR '','' # u \<longleftrightarrow> n = m \<and> t = u"
proof
  assume eq: "dec_digits n @ CHR '','' # t = dec_digits m @ CHR '','' # u"
  have "\<not> is_digit (CHR '','')"
    by (simp add: is_digit_def)
  then have "takeWhile is_digit (dec_digits k @ CHR '','' # x) = dec_digits k"
    "dropWhile is_digit (dec_digits k @ CHR '','' # x) = CHR '','' # x" for k x
    using dec_digits_value [of k] by (simp_all add: takeWhile_append2 dropWhile_append2 list_all_iff)
  with eq have "dec_digits n = dec_digits m" "t = u"
    by (metis, metis list.inject)
  then show "n = m \<and> t = u"
    using dec_digits_value by metis
qed simp

lemma dec_digits_no_sign: "dec_digits n @ t \<noteq> CHR ''-'' # u"
proof -
  obtain d ds where "dec_digits n = d # ds"
    by (cases "dec_digits n") (simp_all add: dec_digits.simps [of n])
  moreover from this have "is_digit d"
    using dec_digits_value [of n] by simp
  ultimately show ?thesis
    by (auto simp: is_digit_def)
qed

lemma json_int_inject: "json_int i @ CHR '','' # t = json_int j @ CHR '','' # u \<longleftrightarrow> i = j \<and> t = u"
  using dec_digits_no_sign dec_digits_no_sign [THEN not_sym]
  by (auto simp: json_int_def dec_digits_inject)

subsection \<open>What the body tells\<close>

text \<open>The body determines the payload: two payloads are posted as the same text only if they are equal,
  whatever characters their strings hold.\<close>

theorem body_determines_payload: "json_body p = json_body q \<longleftrightarrow> p = q"
  by (cases p; cases q)
    (simp add: json_body_def json_member_def json_string_inject json_string_inject [of _ "[]" _ "[]", simplified]
      json_int_inject conj_assoc)

text \<open>So the contract test's comparison of the first body with \<open>json.dumps\<close> of the expected payload is a
  comparison of payloads; the publisher under test passes it for 4 seats, and for no other number.\<close>

theorem first_body_accepted:
  "body_accepted seats (payload (run_python base t)) \<longleftrightarrow> seats = 4"
  by (auto simp: body_accepted_def body_determines_payload expected_def run_python_def update_def new_Publisher_def)

text \<open>The text is printable ASCII, so that \<open>encode()\<close> gives one byte for each character.\<close>

definition printable :: "char \<Rightarrow> bool" where
  "printable ch \<longleftrightarrow> 0x20 \<le> (of_char ch :: nat) \<and> (of_char ch :: nat) \<le> 0x7E"

lemma digit_printable: "n < 16 \<Longrightarrow> printable (hex_lower n) \<and> printable (hex_upper n)"
proof -
  assume "n < 16"
  then have "n \<in> set [0 ..< 16]"
    by simp
  moreover have "list_all (\<lambda>n. printable (hex_lower n) \<and> printable (hex_upper n)) [0 ..< 16]"
    by (simp add: upt_rec printable_def hex_lower_def hex_upper_def)
  ultimately show ?thesis
    unfolding list_all_iff by blast
qed

lemma json_char_printable: "list_all printable (json_char ch)"
proof -
  have "of_char ch div (16 :: nat) < 16" "of_char ch mod (16 :: nat) < 16"
    using nat_of_char_less_256 [of ch] by linarith+
  then show ?thesis
    by (simp add: json_char_def Let_def digit_printable) (simp add: printable_def)
qed

lemma json_string_printable: "list_all printable (json_string s)"
proof -
  have "list_all printable (concat (map json_char s))"
    by (induction s) (simp_all add: json_char_printable)
  moreover have "printable (CHR 0x22)"
    by (simp add: printable_def)
  ultimately show ?thesis
    by (simp add: json_string_def)
qed

lemma dec_digits_printable: "list_all printable (dec_digits n)"
proof (induction n rule: dec_digits.induct)
  case (1 n)
  then show ?case
    using digit_printable [of "n mod 10"] by (subst dec_digits.simps) auto
qed

theorem body_is_ascii: "list_all printable (json_body p)"
proof -
  have marks: "list_all printable '': ,{}[]-''"
    by (simp add: printable_def)
  then have "list_all printable (json_member k v ds) \<longleftrightarrow> list_all printable v \<and> list_all printable ds" for k v ds
    by (simp add: json_member_def json_string_printable)
  moreover have "list_all printable (json_int i)" for i
    using marks by (simp add: json_int_def dec_digits_printable)
  ultimately show ?thesis
    using marks by (simp add: json_body_def json_string_printable)
qed

end
