(* ===== verification/Test_Bench.thy ===== *)
theory Test_Bench
  imports Relay_Loop Client_Frames
begin

text \<open>
  The test bench: the model of the server with simulated consoles around it, and the class \<open>Cli\<close>
  of \<open>tools/bbnet_client_sim.py\<close>. The network is the loopback: the kernel takes what the server
  sends in full and delivers it at once, a console's message is served before its script goes on,
  and a connection that the server has dropped reads as end of file once its stream is read.
\<close>

subsection \<open>The bench\<close>

text \<open>
  \<open>inbox\<close> is what has arrived at a console's socket and is not received yet, \<open>buf\<close> and \<open>label\<close>
  are the attributes \<open>buf\<close> and \<open>name\<close> of its \<open>Cli\<close>.
\<close>

record World =
  srv :: Server
  inbox :: "cid \<Rightarrow> bytes"
  buf :: "cid \<Rightarrow> bytes"
  label :: "cid \<Rightarrow> pystr"

type_synonym 'a tool = "(World, tool_exn, 'a) prog"

definition new_World :: "int \<Rightarrow> int \<Rightarrow> nat list \<Rightarrow> World" where
  "new_World d ago rnd =
     \<lparr>srv = new_Server d ago False (\<lambda>_. []) rnd, inbox = (\<lambda>_. []), buf = (\<lambda>_. []), label = (\<lambda>_. [])\<rparr>"

text \<open>The server serves one event; every socket is ready to take output.\<close>

definition ready_sockets :: "Server \<Rightarrow> Server" where
  "ready_sockets s = s\<lparr>net := \<lambda>_. replicate 8 (Wrote 65536)\<rparr>"

text \<open>The network moves what the kernel took to the consoles, connection by connection.\<close>

definition arrive :: "(cid \<Rightarrow> bytes) \<Rightarrow> cid \<Rightarrow> (cid \<Rightarrow> bytes) \<Rightarrow> (cid \<Rightarrow> bytes)" where
  "arrive sent c ib = (if sent c = [] then ib else ib(c := ib c @ sent c))"

definition deliver_wire :: "Server \<Rightarrow> World \<Rightarrow> World" where
  "deliver_wire s w = w\<lparr>srv := s\<lparr>wire := \<lambda>_. []\<rparr>, inbox := fold (arrive (wire s)) [0 ..< next_client s] (inbox w)\<rparr>"

definition serving :: "event \<Rightarrow> unit tool" where
  "serving ev = (\<lambda>w. case serve ev (ready_sockets (srv w)) of
     (Inl e, s) \<Rightarrow> (Inl (ServerDied e), deliver_wire s w)
   | (Inr _, s) \<Rightarrow> (Inr (), deliver_wire s w))"

definition connect :: "pystr \<Rightarrow> cid tool" where
  "connect n = reading (\<lambda>w. let c = next_client (srv w) in
     bind (serving (Connecting (Some (0, c)) 0)) (\<lambda>_.
     bind (modify (\<lambda>w. w\<lparr>label := (label w)(c := n)\<rparr>)) (\<lambda>_. return c)))"

text \<open>\<open>sendall\<close>; what is sent to a dropped connection is lost.\<close>

definition cli_send :: "cid \<Rightarrow> bytes \<Rightarrow> unit tool" where
  "cli_send c data = reading (\<lambda>w. only_if (c \<in> set (clients (srv w)) \<and> data \<noteq> [])
     (serving (Ready c False (Some (Received data)))))"

definition send_frame :: "cid \<Rightarrow> byte \<Rightarrow> bytes \<Rightarrow> unit tool" where
  "send_frame c t p = bind (attempt PyE (client_frame t p)) (\<lambda>f. cli_send c f)"

definition cli_close :: "cid \<Rightarrow> unit tool" where
  "cli_close c = reading (\<lambda>w. only_if (c \<in> set (clients (srv w)))
     (serving (Ready c False (Some (Received [])))))"

text \<open>\<open>Cli(name, ver)\<close>: connect and say HELLO.\<close>

definition new_Cli :: "pystr \<Rightarrow> byte \<Rightarrow> cid tool" where
  "new_Cli n ver = bind (connect n) (\<lambda>c.
     bind (send_frame c T_HELLO (ver # map of_nat n)) (\<lambda>_. return c))"

subsection \<open>Reading frames\<close>

text \<open>\<open>recv(4096)\<close> with a timeout.\<close>

definition recv :: "cid \<Rightarrow> bytes tool" where
  "recv c = reading (\<lambda>w. let chunk = take 4096 (inbox w c) in
     if chunk \<noteq> [] then bind (modify (\<lambda>w. w\<lparr>inbox := (inbox w)(c := drop 4096 (inbox w c))\<rparr>)) (\<lambda>_. return chunk)
     else if c \<in> set (clients (srv w)) then raise Timeout
     else return [])"

text \<open>
  The loop of \<open>recv_frame\<close>. Every round but the last receives at least one byte, so one more
  round than there are bytes in the inbox is enough.
\<close>

primrec recv_upto :: "nat \<Rightarrow> cid \<Rightarrow> (byte \<times> bytes) tool" where
  "recv_upto 0 c = raise Timeout"
| "recv_upto (Suc n) c = reading (\<lambda>w.
     case cli_next (buf w c) of
       Frame t p rest \<Rightarrow> bind (modify (\<lambda>w. w\<lparr>buf := (buf w)(c := rest)\<rparr>)) (\<lambda>_. return (t, p))
     | BadLength _ \<Rightarrow> raise (PyE IndexError)
     | Incomplete \<Rightarrow> bind (recv c) (\<lambda>chunk.
         if chunk = [] then raise EndOfFile
         else bind (modify (\<lambda>w. w\<lparr>buf := (buf w)(c := buf w c @ chunk)\<rparr>)) (\<lambda>_. recv_upto n c)))"

definition recv_frame :: "cid \<Rightarrow> (byte \<times> bytes) tool" where
  "recv_frame c = reading (\<lambda>w. recv_upto (Suc (length (inbox w c))) c)"

definition check :: "bool \<Rightarrow> string \<Rightarrow> unit tool" where
  "check b msg = (if b then return () else raise (AssertFailed msg))"

definition expect :: "byte \<Rightarrow> cid \<Rightarrow> bytes tool" where
  "expect ftype c = bind (recv_frame c) (\<lambda>(t, p).
     if t = ftype then return p else raise (AssertFailed ''unexpected frame''))"

definition expect_silence :: "cid \<Rightarrow> string \<Rightarrow> unit tool" where
  "expect_silence c why =
     catch (bind (recv_frame c) (\<lambda>_. raise (AssertFailed why)))
       (\<lambda>e. if e = Timeout then return () else raise e)"

text \<open>\<open>drain_lobby\<close>: the last queued LOBBY payload; the frame that ends the loop is pushed back.\<close>

primrec drain_upto :: "nat \<Rightarrow> bytes option \<Rightarrow> cid \<Rightarrow> bytes option tool" where
  "drain_upto 0 seen c = return seen"
| "drain_upto (Suc n) seen c = catch (bind (recv_frame c) (\<lambda>(t, p).
     if t = T_LOBBY then drain_upto n (Some p) c
     else bind (attempt PyE (client_frame t p)) (\<lambda>f.
       bind (modify (\<lambda>w. w\<lparr>buf := (buf w)(c := f @ buf w c)\<rparr>)) (\<lambda>_. return seen))))
     (\<lambda>e. if e = Timeout then return seen else raise e)"

definition drain_lobby :: "cid \<Rightarrow> bytes option tool" where
  "drain_lobby c = reading (\<lambda>w. drain_upto (Suc (length (buf w c) + length (inbox w c))) None c)"

definition lobby :: "cid \<Rightarrow> bytes tool" where
  "lobby c = bind (send_frame c T_LIST []) (\<lambda>_. expect T_LOBBY c)"

subsection \<open>The reader returns the stream\<close>

text \<open>What a console has in hand: its buffer and what has arrived and is not yet received.\<close>

definition in_hand :: "World \<Rightarrow> cid \<Rightarrow> bytes" where
  "in_hand w c = buf w c @ inbox w c"

definition same_but_read :: "cid \<Rightarrow> World \<Rightarrow> World \<Rightarrow> bool" where
  "same_but_read c w w' \<longleftrightarrow> srv w' = srv w \<and> label w' = label w \<and>
     (\<forall>d. d \<noteq> c \<longrightarrow> inbox w' d = inbox w d \<and> buf w' d = buf w d)"

lemma recv_upto_frame:
  assumes "cli_next (in_hand w c) = Frame t p rest" and "length (inbox w c) < n"
  shows "\<exists>w'. recv_upto n c w = (Inr (t, p), w') \<and> in_hand w' c = rest \<and> same_but_read c w w'"
  using assms
proof (induction n arbitrary: w)
  case (Suc n)
  show ?case
  proof (cases "cli_next (buf w c)")
    case (Frame t' p' r')
    then have "t' = t" "p' = p" "r' @ inbox w c = rest"
      using cli_scan.scan_Frame_append [OF Frame, of "inbox w c"] Suc.prems(1) by (simp_all add: in_hand_def)
    with Frame show ?thesis
      by (simp add: reading_def bind_def modify_def return_def in_hand_def same_but_read_def)
  next
    case (BadLength l)
    then show ?thesis
      using cli_scan.scan_BadLength_append [OF BadLength, of "inbox w c"] Suc.prems(1) by (simp add: in_hand_def)
  next
    case Incomplete
    have more: "inbox w c \<noteq> []"
      using Incomplete Suc.prems(1) by (auto simp: in_hand_def)
    define w' where "w' = w\<lparr>inbox := (inbox w)(c := drop 4096 (inbox w c)), buf := (buf w)(c := buf w c @ take 4096 (inbox w c))\<rparr>"
    have hand: "in_hand w' c = in_hand w c"
      by (simp add: in_hand_def w'_def)
    have "length (inbox w' c) < n"
      using more Suc.prems(2) by (cases "inbox w c") (auto simp: w'_def)
    then obtain w'' where w'': "recv_upto n c w' = (Inr (t, p), w'')" "in_hand w'' c = rest" "same_but_read c w' w''"
      using Suc.IH [of w'] Suc.prems(1) hand by auto
    have "recv_upto (Suc n) c w = recv_upto n c w'"
      using Incomplete more
      by (simp add: reading_def bind_def modify_def return_def recv_def Let_def w'_def)
    with w'' show ?thesis
      by (auto simp: same_but_read_def w'_def)
  qed
qed simp

text \<open>C32: the consoles read what the server frames: whenever what a console has in hand (its buffer
  and what has arrived) starts with a frame as the server builds it, \<open>recv_frame\<close> returns its type
  and payload unchanged and leaves exactly the rest, however the bytes are spread over buffer and
  socket, and touches nobody else.\<close>

theorem consoles_read_what_the_server_frames:
  assumes "frame t p = Inr f" and "in_hand w c = f @ rest"
  shows "\<exists>w'. recv_frame c w = (Inr (t, p), w') \<and> in_hand w' c = rest \<and> same_but_read c w w'"
  using recv_upto_frame [of w c t p rest "Suc (length (inbox w c))"] cli_next_frame [OF assms(1), of rest] assms(2)
  by (simp add: recv_frame_def reading_def)

theorem consoles_read_what_the_server_frames_witness:
  "\<exists>w'. recv_frame 1 ((new_World 3 0 [])\<lparr>buf := \<lambda>_. [3, T_PONG], inbox := \<lambda>_. [7, 8, 1]\<rparr>) = (Inr (T_PONG, [7, 8]), w') \<and>
     in_hand w' 1 = [1]"
  using consoles_read_what_the_server_frames [of T_PONG "[7, 8]" "[3, T_PONG, 7, 8]"
      "(new_World 3 0 [])\<lparr>buf := \<lambda>_. [3, T_PONG], inbox := \<lambda>_. [7, 8, 1]\<rparr>" 1 "[1]"]
  by (auto simp: frame_def in_hand_def new_World_def)

end
