(* ===== verification/Sim_Gate.thy ===== *)
theory Sim_Gate
  imports Test_Bench
begin

text \<open>
  The protocol gate \<open>tools/bbnet_client_sim.py\<close>: its three scenarios and its \<open>main\<close>, as programs
  of the test bench. The parameter \<open>seats\<close> is SEATS. The messages of the assertions are kept as
  short labels.
\<close>

subsection \<open>Names and helpers\<close>

definition ALICE :: pystr where "ALICE = [65, 76, 73, 67, 69]"
definition BOB :: pystr where "BOB = [66, 79, 66]"
definition CAROL :: pystr where "CAROL = [67, 65, 82, 79, 76]"
definition DAVE :: pystr where "DAVE = [68, 65, 86, 69]"
definition EVE :: pystr where "EVE = [69, 86, 69]"
definition FRANK :: pystr where "FRANK = [70, 82, 65, 78, 75]"
definition OLDGUY :: pystr where "OLDGUY = [79, 76, 68, 71, 85, 89]"
definition GUEST :: "nat \<Rightarrow> pystr" where "GUEST k = [71, 85, 69, 83, 84, 65 + k]"
definition PZZZ :: pystr where "PZZZ = [80, 90, 90, 90]"

definition ROOM_NAMES :: "pystr list" where
  "ROOM_NAMES = [ALICE, BOB, CAROL, DAVE]"

text \<open>The expected status byte of a room of \<open>n\<close> members: bit 7 once it is full.\<close>

definition st :: "nat \<Rightarrow> nat \<Rightarrow> nat" where
  "st seats n = (if seats \<le> n then 0x80 OR n else n)"

definition item :: "bytes \<Rightarrow> nat \<Rightarrow> nat tool" where
  "item p i = (if i < length p then return (unat (p ! i)) else raise (PyE IndexError))"

definition status_of :: "cid \<Rightarrow> pystr \<Rightarrow> nat option tool" where
  "status_of e n = bind (lobby e) (\<lambda>p. attempt id (map_sum id (map_option unat) (lobby_status p n)))"

definition check_status :: "cid \<Rightarrow> pystr \<Rightarrow> nat \<Rightarrow> string \<Rightarrow> unit tool" where
  "check_status e n want msg = bind (status_of e n) (\<lambda>s. check (s = Some want) msg)"

text \<open>\<open>roster_names(raw)[:k] == names[:k]\<close>.\<close>

definition roster_is :: "bytes \<Rightarrow> nat \<Rightarrow> pystr list \<Rightarrow> bool" where
  "roster_is raw k names \<longleftrightarrow> take k (roster_names raw) = map Some (take k names)"

definition expect_room :: "nat \<Rightarrow> pystr list \<Rightarrow> string \<Rightarrow> cid \<Rightarrow> unit tool" where
  "expect_room k names msg c = bind (expect T_ROOM c) (\<lambda>p. bind (item p 0) (\<lambda>n.
     check (n = k \<and> roster_is (take 32 (drop 1 p)) k names) msg))"

definition expect_count :: "nat \<Rightarrow> string \<Rightarrow> cid \<Rightarrow> unit tool" where
  "expect_count k msg c = bind (expect T_ROOM c) (\<lambda>p. bind (item p 0) (\<lambda>n. check (n = k) msg))"

definition expect_any :: "byte \<Rightarrow> cid \<Rightarrow> unit tool" where
  "expect_any t c = bind (expect t c) (\<lambda>_. return ())"

definition expect_exactly :: "byte \<Rightarrow> bytes \<Rightarrow> string \<Rightarrow> cid \<Rightarrow> unit tool" where
  "expect_exactly t want msg c = bind (expect t c) (\<lambda>p. check (p = want) msg)"

primrec new_Clis :: "pystr list \<Rightarrow> cid list tool" where
  "new_Clis [] = return []"
| "new_Clis (n # ns) = bind (new_Cli n 2) (\<lambda>c. bind (new_Clis ns) (\<lambda>cs. return (c # cs)))"

text \<open>The connection with which \<open>start_server\<close> finds the port open.\<close>

definition probe :: "unit tool" where
  "probe = bind (connect []) cli_close"

subsection \<open>Scenarios 1 to 10\<close>

text \<open>HELLO version 2 is welcomed, version 1 is rejected; then the other players and an observer.\<close>

definition v1_is_rejected :: "unit tool" where
  "v1_is_rejected = bind (new_Cli OLDGUY 1) (\<lambda>v1. block [
     catch (bind (recv_frame v1) (\<lambda>_. raise (AssertFailed ''v1 hello was not rejected'')))
       (\<lambda>e. if e = EndOfFile \<or> e = Timeout then return () else raise e),
     cli_close v1])"

definition hello_phase :: "nat \<Rightarrow> (cid list \<times> cid) tool" where
  "hello_phase seats =
     bind (new_Cli ALICE 2) (\<lambda>a.
     bind (expect T_LOBBY a) (\<lambda>p.
     bind (item p 0) (\<lambda>n.
     bind (check (n = 0) ''expected empty lobby'') (\<lambda>_.
     bind v1_is_rejected (\<lambda>_.
     bind (new_Clis (tl (take seats ROOM_NAMES))) (\<lambda>cs.
     bind (for_each cs (expect_any T_LOBBY)) (\<lambda>_.
     bind (new_Cli EVE 2) (\<lambda>e.
     bind (expect_any T_LOBBY e) (\<lambda>_. return (a # cs, e))))))))))"

definition join_phase :: "nat \<Rightarrow> cid list \<Rightarrow> cid \<Rightarrow> unit tool" where
  "join_phase seats clis e = (let names = take seats ROOM_NAMES in block [
     check_status e ALICE (st seats 1) ''solo status wrong'',
     send_frame (clis ! 1) T_JOIN (pad ALICE),
     for_each (take 2 clis) (expect_room 2 names ''bad ROOM after first join''),
     check_status e ALICE (st seats 2) ''forming status wrong'',
     check_status e BOB (st seats 2) ''guest shares room status'',
     only_if (3 \<le> seats) (block [
       send_frame (clis ! 2) T_JOIN (pad BOB),
       for_each (take 3 clis) (expect_room 3 names ''guest-join redirect failed'')]),
     for_each [3 ..< seats] (\<lambda>i. block [
       send_frame (clis ! i) T_JOIN (pad ALICE),
       for_each (take (i + 1) clis) (expect_count (i + 1) ''bad ROOM'')])])"

definition full_phase :: "nat \<Rightarrow> cid \<Rightarrow> unit tool" where
  "full_phase seats e = block [
     check_status e ALICE (0x80 OR seats) ''full status'',
     send_frame e T_JOIN (pad ALICE),
     expect_any T_LOBBY e]"

primrec read_starts :: "nat \<Rightarrow> pystr list \<Rightarrow> (nat \<times> cid) list \<Rightarrow> (nat \<times> nat) list tool" where
  "read_starts seats names [] = return []"
| "read_starts seats names (sc # rest) =
     bind (expect T_START (snd sc)) (\<lambda>p.
     bind (check (length p = 37) ''START payload must be 37 bytes'') (\<lambda>_.
     bind (item p 0) (\<lambda>s. bind (check (s = fst sc) ''seat mismatch'') (\<lambda>_.
     bind (item p 1) (\<lambda>n. bind (check (n = seats) ''count mismatch'') (\<lambda>_.
     bind (item p 2) (\<lambda>lo. bind (item p 3) (\<lambda>hi.
     bind (item p 4) (\<lambda>d. bind (check (1 \<le> d) ''delay missing'') (\<lambda>_.
     bind (check (roster_is (take 32 (drop 5 p)) seats names) ''roster mismatch'') (\<lambda>_.
     bind (read_starts seats names rest) (\<lambda>seeds. return ((lo, hi) # seeds)))))))))))))"

definition go_phase :: "nat \<Rightarrow> cid list \<Rightarrow> cid \<Rightarrow> unit tool" where
  "go_phase seats clis e = block [
     send_frame (clis ! 1) T_GO [],
     send_frame (clis ! 0) T_GO [],
     bind (read_starts seats (take seats ROOM_NAMES) (enumerate 0 clis)) (\<lambda>seeds.
       check (length (remdups seeds) = 1) ''seed differed between seats''),
     check_status e ALICE (0x80 OR seats) ''started status wrong'',
     send_frame e T_JOIN (pad ALICE),
     expect_any T_LOBBY e]"

definition relay_phase :: "cid list \<Rightarrow> unit tool" where
  "relay_phase clis = block [
     send_frame (clis ! 0) T_INPUT [0, 5, 0, 0x44, 0],
     for_each (tl clis) (expect_exactly T_INPUT [0, 5, 0, 0x44, 0] ''INPUT not verbatim''),
     expect_silence (clis ! 0) ''sender got its own INPUT back'',
     send_frame (clis ! 0) T_STATE [0, 0xFF, 9, 0],
     for_each (tl clis) (expect_exactly T_STATE [0, 0xFF, 9, 0] ''STATE not verbatim'')]"

definition send_crc :: "cid \<Rightarrow> nat \<Rightarrow> nat \<Rightarrow> nat \<Rightarrow> unit tool" where
  "send_crc c seat tick val = bind (attempt PyE (py_bytes (map int
     [seat, tick AND 0xFF, drop_bit 8 tick, val AND 0xFF, drop_bit 8 val]))) (\<lambda>p. send_frame c T_CRC p)"

definition crc_round :: "nat \<Rightarrow> cid list \<Rightarrow> nat \<Rightarrow> (nat \<Rightarrow> nat) \<Rightarrow> unit tool" where
  "crc_round seats clis tick val = block [
     for_each (enumerate 0 clis) (\<lambda>sc. send_crc (snd sc) (fst sc) tick (val (fst sc))),
     for_each clis (\<lambda>c. for_each [0 ..< seats - 1] (\<lambda>_. expect_any T_CRC c))]"

definition crc_phase :: "nat \<Rightarrow> cid list \<Rightarrow> unit tool" where
  "crc_phase seats clis = block [
     for_each [0 ..< 4] (\<lambda>rnd. crc_round seats clis (64 * (rnd + 1)) (\<lambda>_. 0xBEEF)),
     crc_round seats clis 320 (\<lambda>seat. if seat = 1 then 0x2222 else 0x1111)]"

definition drop_phase :: "cid list \<Rightarrow> cid \<Rightarrow> unit tool" where
  "drop_phase clis e = block [
     cli_close (clis ! 1),
     for_each (clis ! 0 # drop 2 clis) (\<lambda>c. bind (expect T_PEER_LEFT c) (\<lambda>p. bind (item p 0) (\<lambda>s.
       check (s = 1 \<and> rstrip {0} (take 8 (drop 1 p)) = map of_nat BOB) ''bad PEER_LEFT''))),
     check_status e ALICE 1 ''not solo after dissolve'',
     reading (\<lambda>w. for_each (drop 2 clis) (\<lambda>c. check_status e (label w c) 1 ''not solo'')),
     cli_close e,
     for_each (drop 2 clis) cli_close]"

text \<open>A guest leaves a forming room; \<open>tail\<close> is the guest that is left at the end.\<close>

definition guest_joins :: "pystr \<Rightarrow> cid list \<Rightarrow> cid tool" where
  "guest_joins n others =
     bind (new_Cli n 2) (\<lambda>g. bind (expect_any T_LOBBY g) (\<lambda>_.
     bind (send_frame g T_JOIN (pad ALICE)) (\<lambda>_.
     bind (for_each (others @ [g]) (expect_any T_ROOM)) (\<lambda>_. return g))))"

definition guest_phase :: "nat \<Rightarrow> cid \<Rightarrow> cid tool" where
  "guest_phase seats host =
     bind (guest_joins (GUEST 0) [host]) (\<lambda>g1.
     if 3 \<le> seats then
       bind (guest_joins (GUEST 1) [host, g1]) (\<lambda>g2.
       bind (cli_close g1) (\<lambda>_.
       bind (expect_room 2 [ALICE, GUEST 1] ''reseat failed'' host) (\<lambda>_.
       bind (expect_any T_ROOM g2) (\<lambda>_. return g2))))
     else
       bind (cli_close g1) (\<lambda>_.
       bind (expect_count 0 ''a 2-seat guest leave must dissolve the room'' host) (\<lambda>_.
       guest_joins (GUEST 2) [host])))"

definition host_phase :: "cid \<Rightarrow> cid \<Rightarrow> unit tool" where
  "host_phase host guest = block [
     cli_close host,
     expect_count 0 ''expected dissolved ROOM'' guest,
     cli_close guest]"

definition scenario_body :: "nat \<Rightarrow> unit tool" where
  "scenario_body seats = bind (hello_phase seats) (\<lambda>(clis, e). block [
     join_phase seats clis e,
     full_phase seats e,
     go_phase seats clis e,
     relay_phase clis,
     crc_phase seats clis,
     drop_phase clis e,
     bind (guest_phase seats (clis ! 0)) (\<lambda>tail. host_phase (clis ! 0) tail)])"

text \<open>The \<open>finally\<close> block: what the server's log must say (a substring test on its output).\<close>

definition log_wants :: "(string \<times> (log_record \<Rightarrow> bool)) list" where
  "log_wants = [
     (''match: room'', \<lambda>l. case l of LogMatch _ _ _ \<Rightarrow> True | _ \<Rightarrow> False),
     (''CRC MISMATCH tick 320'', \<lambda>l. case l of LogCrcMismatch t _ \<Rightarrow> t = 320 \<or> t div 10 = 320 \<or> t div 100 = 320 | _ \<Rightarrow> False),
     (''(4 rounds)'', \<lambda>l. case l of LogCrcOk _ k \<Rightarrow> k = 4 | _ \<Rightarrow> False),
     (''peer left'', \<lambda>l. case l of LogBackToLobby _ \<Rightarrow> True | _ \<Rightarrow> False)]"

definition check_log :: "unit tool" where
  "check_log = reading (\<lambda>w. for_each log_wants (\<lambda>(want, p).
     check (list_ex p (log_lines (srv w))) (''server log missing '' @ want)))"

definition try_finally :: "unit tool \<Rightarrow> unit tool \<Rightarrow> unit tool" where
  "try_finally m f = (\<lambda>w. case m w of (r, w') \<Rightarrow>
     (case f w' of (Inl e, w'') \<Rightarrow> (Inl e, w'') | (Inr _, w'') \<Rightarrow> (r, w'')))"

definition scenario_main :: "nat \<Rightarrow> unit tool" where
  "scenario_main seats = bind probe (\<lambda>_. try_finally (scenario_body seats) check_log)"

subsection \<open>Automatic start\<close>

definition scenario_autogo :: "unit tool" where
  "scenario_autogo = bind probe (\<lambda>_.
     bind (new_Cli EVE 2) (\<lambda>a. bind (expect_any T_LOBBY a) (\<lambda>_.
     bind (new_Cli FRANK 2) (\<lambda>b. bind (expect_any T_LOBBY b) (\<lambda>_.
     bind (send_frame b T_JOIN (pad EVE)) (\<lambda>_.
     bind (expect_any T_ROOM a) (\<lambda>_. bind (expect_any T_ROOM b) (\<lambda>_.
     bind (expect T_START a) (\<lambda>pa. bind (expect T_START b) (\<lambda>pb.
     bind (item pa 0) (\<lambda>sa. bind (item pb 0) (\<lambda>sb. bind (item pa 1) (\<lambda>na. bind (item pb 1) (\<lambda>nb. block [
       check (sa = 0 \<and> sb = 1 \<and> na = nb \<and> nb = 2) ''auto-go STARTs wrong'',
       cli_close a,
       cli_close b]))))))))))))))"

primrec until_start :: "nat \<Rightarrow> cid \<Rightarrow> bytes tool" where
  "until_start 0 c = raise Timeout"
| "until_start (Suc n) c = bind (recv_frame c) (\<lambda>(t, p).
     if t = T_START then return p else until_start n c)"

definition full_names :: "nat \<Rightarrow> pystr list" where
  "full_names seats = map (\<lambda>i. [80, 49 + i, 65 + i, 65 + i]) [0 ..< seats]"

definition start_arrives :: "nat \<Rightarrow> nat \<times> cid \<Rightarrow> unit tool" where
  "start_arrives seats sc = reading (\<lambda>w.
     bind (until_start (Suc (length (buf w (snd sc)) + length (inbox w (snd sc)))) (snd sc)) (\<lambda>p.
     bind (item p 0) (\<lambda>s. bind (item p 1) (\<lambda>n. block [
       check (s = fst sc \<and> n = seats) ''START wrong'',
       check (roster_is (take 32 (drop 5 p)) seats (full_names seats)) ''roster wrong'']))))"

definition full_fanout :: "nat \<Rightarrow> cid list \<Rightarrow> unit tool" where
  "full_fanout seats clis = (let sender = seats - 1; msg = [of_nat sender, 7, 0, 0x40, 0] in block [
     send_frame (clis ! sender) T_INPUT msg,
     for_each (filter (\<lambda>ic. fst ic \<noteq> sender) (enumerate 0 clis)) (\<lambda>ic.
       expect_exactly T_INPUT msg ''INPUT not verbatim'' (snd ic)),
     expect_silence (clis ! sender) ''sender got its own INPUT back''])"

definition scenario_full :: "nat \<Rightarrow> unit tool" where
  "scenario_full seats = bind probe (\<lambda>_.
     bind (new_Clis (full_names seats)) (\<lambda>clis. block [
       for_each clis (expect_any T_LOBBY),
       for_each (tl clis) (\<lambda>c. send_frame c T_JOIN (pad (hd (full_names seats)))),
       for_each (enumerate 0 clis) (start_arrives seats),
       bind (new_Cli PZZZ 2) (\<lambda>e. block [
         expect_any T_LOBBY e,
         send_frame e T_JOIN (pad (hd (full_names seats))),
         expect_any T_LOBBY e,
         full_fanout seats clis,
         for_each (clis @ [e]) cli_close])]))"

subsection \<open>The gate\<close>

text \<open>
  \<open>__main__\<close> with SERVER=py: each scenario talks to a server of its own, started with the given
  \<open>--auto-go\<close>. \<open>rnd\<close> is what the server's random generator answers.
\<close>

datatype gate_end = Exited | Raised tool_exn | GatePass

definition then_gate :: "(tool_exn + unit) \<Rightarrow> gate_end \<Rightarrow> gate_end" where
  "then_gate r rest = (case r of Inl e \<Rightarrow> Raised e | Inr _ \<Rightarrow> rest)"

definition run_gate :: "nat \<Rightarrow> nat list \<Rightarrow> gate_end" where
  "run_gate seats rnd =
     then_gate (fst (scenario_main seats (new_World DEFAULT_DELAY 0 rnd)))
       (then_gate (fst (scenario_autogo (new_World DEFAULT_DELAY 2 rnd)))
         (then_gate (fst (scenario_full seats (new_World DEFAULT_DELAY (int seats) rnd))) GatePass))"

definition gate_py :: "nat \<Rightarrow> nat list \<Rightarrow> gate_end" where
  "gate_py seats rnd = (if \<not> (2 \<le> seats \<and> seats \<le> 4) \<or> seats \<noteq> 2 then Exited else run_gate seats rnd)"

end
