(* ===== verification/Bench_Correct.thy ===== *)
theory Bench_Correct
  imports Execution Sim_Gate
begin

text \<open>
  What the simulated consoles see is what the server does: the reader returns the frames the
  server commits, and a LIST shows the lobby as it is.
\<close>

subsection \<open>A LIST on the bench\<close>

lemma pump_ready:
  "length t \<le> 65536 \<Longrightarrow> 0 < n \<Longrightarrow>
    pump (replicate n (Wrote 65536)) t w = (None, replicate (if t = [] then n else n - 1) (Wrote 65536), [], w @ t)"
  by (cases n; cases t) auto

text \<open>A connected console with nothing under way: no unread input, nothing queued for it.\<close>

definition console_idle :: "World \<Rightarrow> cid \<Rightarrow> bool" where
  "console_idle w e \<longleftrightarrow> e \<in> set (clients (srv w)) \<and> \<not> dead (client_in (srv w) e) \<and>
     rx (client_in (srv w) e) = [] \<and> tx (client_in (srv w) e) = [] \<and> wire (srv w) = (\<lambda>_. []) \<and>
     buf w e = [] \<and> inbox w e = []"

definition lobby_lines :: "Server \<Rightarrow> cid \<Rightarrow> (pystr \<times> byte) list" where
  "lobby_lines s c = map (\<lambda>d. (the (name (client_in s d)), of_int (status_byte s d))) (listed_for s c)"

lemma lobby_entries_lines:
  assumes "quiet s" and "\<forall>d \<in> set ds. \<exists>n. name (client_in s d) = Some n"
  shows "lobby_entries s ds = Inr (entries (map (\<lambda>d. (the (name (client_in s d)), of_int (status_byte s d))) ds))"
  using assms(2)
proof (induction ds)
  case (Cons d ds)
  then obtain n where n: "name (client_in s d) = Some n"
    by auto
  have "\<forall>ch \<in> set n. ch < 128"
    using valid_name_ascii srv_inv_names(4) [OF assms(1) n] by blast
  then have "pad_opt (Some n) = Inr (pad n)"
    by (simp add: pad_opt_def pad_is_pad_name)
  moreover have "py_bytes [status_byte s d] = Inr [of_int (status_byte s d)]"
    using status_byte_range [OF assms(1), of d] by (simp add: py_bytes_def)
  ultimately show ?case
    using Cons n by (simp add: entries_def)
qed (simp add: entries_def)

lemma length_entries: "length (entries es) = 9 * length es"
  by (induction es) (auto simp: entries_def length_pad)

definition lobby_payload :: "Server \<Rightarrow> cid \<Rightarrow> bytes" where
  "lobby_payload s c = of_nat (length (listed_for s c)) # entries (lobby_lines s c)"

lemma on_list_sends:
  assumes "quiet s"
  shows "on_list c s = send c (of_nat (length (T_LOBBY # lobby_payload s c)) # T_LOBBY # lobby_payload s c) s"
proof -
  have few: "length (listed_for s c) \<le> 8"
    by (rule length_listed_for)
  have "lobby_entries s (listed_for s c) = Inr (entries (lobby_lines s c))"
    unfolding lobby_lines_def by (intro lobby_entries_lines assms) (use listed_named [OF assms] in blast)
  moreover have "py_bytes [int (length (listed_for s c))] = Inr [of_nat (length (listed_for s c))]"
    using few by (simp add: py_bytes_def)
  moreover have "length (entries (lobby_lines s c)) \<le> 72"
    using few by (simp add: length_entries lobby_lines_def)
  ultimately show ?thesis
    by (simp add: on_list_def run_simps Let_def frame_def lobby_payload_def)
qed


abbreviation lobby_frame :: "Server \<Rightarrow> cid \<Rightarrow> bytes" where
  "lobby_frame s c \<equiv> of_nat (length (T_LOBBY # lobby_payload s c)) # T_LOBBY # lobby_payload s c"

lemma length_lobby_payload: "length (lobby_payload s c) \<le> 73"
  using length_listed_for [of s c] by (simp add: lobby_payload_def length_entries lobby_lines_def)

lemma set_client_id: "f (client_in s e) = client_in s e \<Longrightarrow> set_client e f s = s"
  by (simp add: set_client_def)

lemma set_client_twice: "set_client e f (set_client e g s) = set_client e (\<lambda>x. f (g x)) s"
  by (simp add: set_client_def)

lemma same_fields: "rx x = [] \<Longrightarrow> x\<lparr>rx := []\<rparr> = x" "tx x = [] \<Longrightarrow> x\<lparr>tx := []\<rparr> = x" for x :: Client
  by (cases x; simp)+

lemma set_rx_back:
  "rx (client_in s e) = [] \<Longrightarrow> set_client e (\<lambda>x. x\<lparr>rx := []\<rparr>) (set_client e (\<lambda>x. x\<lparr>rx := rx x @ a\<rparr>) s) = s"
  by (simp add: set_client_twice set_client_id same_fields)

lemma send_ready:
  assumes "\<not> dead (client_in s e)" and "tx (client_in s e) = []" and "length f \<le> 65536" and "f \<noteq> []"
    and "net s e = replicate 8 (Wrote 65536)" and "wire s e = []" and "e \<in> set (clients s)"
  shows "\<exists>n sw. send e f s = (Inr (), s\<lparr>net := n, wire := (wire s)(e := f), sel_write := sw\<rparr>)"
proof -
  have unset: "set_client e (\<lambda>x. x\<lparr>tx := []\<rparr>) ((set_client e (\<lambda>x. x\<lparr>tx := f\<rparr>) s)\<lparr>net := n, wire := v\<rparr>) = s\<lparr>net := n, wire := v\<rparr>" for n v
    using assms(2) by (cases s) (simp add: set_client_def same_fields)
  have queued: "set_client e (\<lambda>x. x\<lparr>tx := tx x @ f\<rparr>) s = set_client e (\<lambda>x. x\<lparr>tx := f\<rparr>) s"
    using assms(2) by (simp add: set_client_def)
  have "send e f s = update_events e (s\<lparr>net := (net s)(e := replicate 7 (Wrote 65536)), wire := (wire s)(e := f)\<rparr>)"
    using assms
    by (simp add: send_def send_with_def flush_with_def run_simps pump_ready MAX_TX_BACKLOG_def queued unset split: sum.split prod.split)
  then show ?thesis
    using assms(7) by (auto simp: update_events_def run_simps)
qed

lemma serve_list:
  assumes "quiet s" and "e \<in> set (clients s)" and "\<not> dead (client_in s e)" and "rx (client_in s e) = []"
    and "tx (client_in s e) = []" and "net s e = replicate 8 (Wrote 65536)" and "wire s e = []"
  shows "\<exists>n sw. serve (Ready e False (Some (Received [1, T_LIST]))) s =
    (Inr (), s\<lparr>net := n, wire := (wire s)(e := lobby_frame s e), sel_write := sw\<rparr>)"
proof -
  let ?t = "set_client e (\<lambda>x. x\<lparr>rx := rx x @ [1, T_LIST]\<rparr>) s"
  obtain n sw where sent: "send e (lobby_frame s e) s =
      (Inr (), s\<lparr>net := n, wire := (wire s)(e := lobby_frame s e), sel_write := sw\<rparr>)"
    using send_ready [of s e "lobby_frame s e"] assms length_lobby_payload [of s e] by fastforce
  have scan: "next_frame [1, T_LIST] = Frame T_LIST [] []" "next_frame [] = Incomplete"
    using next_frame_complete [of "[]" T_LIST "[]"] by (simp_all add: srv_scan.scan_Nil)
  have handled: "handle_guarded e T_LIST [] s = (Inr True, s\<lparr>net := n, wire := (wire s)(e := lobby_frame s e), sel_write := sw\<rparr>)"
    using on_list_sends [OF assms(1), of e] sent
    by (simp add: handle_guarded_def run_simps handle_def RELAY_TYPES_def T_defs)
  have "rx_loop (Suc (Suc m)) e ?t = (Inr (), s\<lparr>net := n, wire := (wire s)(e := lobby_frame s e), sel_write := sw\<rparr>)" for m
    using assms(3,4) scan handled set_rx_back [OF assms(4), of "[1, T_LIST]"]
    by (simp add: run_simps)
  then have "service e (Received [1, T_LIST]) s = (Inr (), s\<lparr>net := n, wire := (wire s)(e := lobby_frame s e), sel_write := sw\<rparr>)"
    using assms(4) by (simp add: service_def run_simps del: rx_loop.simps)
  then show ?thesis
    using assms(3) by (auto simp: serve_def serve_client_def run_simps)
qed

lemma find_map_of:
  "map_of (map (\<lambda>d. (f d, g d)) ds) n = map_option g (find (\<lambda>d. f d = n) ds)"
  by (induction ds) auto

lemma fold_arrive_one:
  "fold (arrive ((\<lambda>_. [])(e := f))) cs ib = (if f = [] then ib else
     ib(e := ib e @ concat (map (\<lambda>_. f) (filter (\<lambda>c. c = e) cs))))"
proof (induction cs arbitrary: ib)
  case (Cons c cs)
  then show ?case
    by (auto simp: arrive_def fun_upd_def)
qed auto

lemma filter_upt_eq: "e < n \<Longrightarrow> filter (\<lambda>c. c = e) [0 ..< n] = [e]"
  by (induction n) (auto simp: filter_empty_conv less_Suc_eq)

lemma lobby_payload_other_fields:
  "lobby_payload (s\<lparr>net := n\<rparr>) e = lobby_payload s e"
  by (simp add: lobby_payload_def lobby_lines_def listed_for_def status_byte_def cong: option.case_cong if_cong)

lemma lobby_reads:
  assumes "quiet (srv w)" and "console_idle w e"
  shows "\<exists>w' n sw. lobby e w = (Inr (lobby_payload (srv w) e), w') \<and> console_idle w' e \<and>
    srv w' = (srv w)\<lparr>net := n, sel_write := sw\<rparr> \<and> label w' = label w \<and>
    (\<forall>d. d \<noteq> e \<longrightarrow> inbox w' d = inbox w d \<and> buf w' d = buf w d)"
proof -
  let ?s = "ready_sockets (srv w)" and ?f = "lobby_frame (srv w) e"
  have idle: "e \<in> set (clients (srv w))" "\<not> dead (client_in (srv w) e)" "rx (client_in (srv w) e) = []"
    "tx (client_in (srv w) e) = []" "wire (srv w) = (\<lambda>_. [])" "buf w e = []" "inbox w e = []"
    using assms(2) by (simp_all add: console_idle_def)
  have q: "quiet ?s"
    using assms(1) by (simp add: ready_sockets_def)
  obtain n sw where served: "serve (Ready e False (Some (Received [1, T_LIST]))) ?s =
      (Inr (), ?s\<lparr>net := n, wire := (wire ?s)(e := lobby_frame ?s e), sel_write := sw\<rparr>)"
    using serve_list [OF q, of e] idle by (auto simp: ready_sockets_def)
  have known: "e < next_client (srv w)"
    using assms(1) idle(2) by (auto simp: srv_inv_def fresh_ok_def not_le [symmetric])
  define w1 where "w1 = w\<lparr>srv := (srv w)\<lparr>net := n, sel_write := sw\<rparr>, inbox := (inbox w)(e := ?f)\<rparr>"
  have "send_frame e T_LIST [] w = (Inr (), w1)"
    using served idle known
    by (simp add: send_frame_def client_frame_def py_bytes_def cli_send_def serving_def run_simps deliver_wire_def
        ready_sockets_def lobby_payload_other_fields fold_arrive_one filter_upt_eq w1_def)
  moreover have "cli_next (in_hand w1 e) = Frame T_LOBBY (lobby_payload (srv w) e) []"
    using length_lobby_payload [of "srv w" e] idle(6) by (auto simp: in_hand_def cli_next_Frame w1_def)
  then obtain w2 where w2: "recv_upto (Suc (length (inbox w1 e))) e w1 = (Inr (T_LOBBY, lobby_payload (srv w) e), w2)"
    "in_hand w2 e = []" "same_but_read e w1 w2"
    using recv_upto_frame [of w1 e T_LOBBY "lobby_payload (srv w) e" "[]"] by blast
  ultimately have "lobby e w = (Inr (lobby_payload (srv w) e), w2)"
    by (simp add: lobby_def expect_def recv_frame_def run_simps)
  moreover have "console_idle w2 e" "srv w2 = (srv w)\<lparr>net := n, sel_write := sw\<rparr>" "label w2 = label w"
    "\<forall>d. d \<noteq> e \<longrightarrow> inbox w2 d = inbox w d \<and> buf w2 d = buf w d"
    using w2(2,3) idle by (auto simp: same_but_read_def w1_def console_idle_def in_hand_def)
  ultimately show ?thesis by blast
qed

lemma unat_status:
  assumes "quiet s" shows "unat (of_int (status_byte s d) :: byte) = nat (status_byte s d)"
proof -
  obtain k where k: "status_byte s d = int k" "k \<le> 255"
    using status_byte_range [OF assms, of d] by (intro that [of "nat (status_byte s d)"]) linarith+
  then show ?thesis
    using unat_frame_len [OF k(2)] by simp
qed

subsection \<open>No script breaks the server\<close>

text \<open>
  A script is safe when it keeps the invariant of the server's loop and no exception of the
  server's own reaches it. The operations of the bench are safe, and the combinators keep it.
\<close>

definition safe :: "'a tool \<Rightarrow> bool" where
  "safe m \<longleftrightarrow> (\<forall>w. loop_inv {} (srv w) \<longrightarrow>
     loop_inv {} (srv (snd (m w))) \<and> (\<forall>e. fst (m w) \<noteq> Inl (ServerDied e)))"

named_theorems safe_intros \<open>safe programs of the bench\<close>

lemma safe_return [safe_intros]: "safe (return x)"
  by (simp add: safe_def return_def)

lemma safe_raise [safe_intros]: "(\<And>x. e \<noteq> ServerDied x) \<Longrightarrow> safe (raise e)"
  by (simp add: safe_def raise_def)

lemma safe_bind [safe_intros]: "safe m \<Longrightarrow> (\<And>x. safe (k x)) \<Longrightarrow> safe (bind m k)"
  by (fastforce simp: safe_def bind_def split: prod.split sum.split)

lemma safe_reading [safe_intros]: "(\<And>w. safe (f w)) \<Longrightarrow> safe (reading f)"
  by (simp add: safe_def reading_def)

lemma safe_modify [safe_intros]: "(\<And>w. srv (f w) = srv w) \<Longrightarrow> safe (modify f)"
  by (simp add: safe_def modify_def)

lemma safe_attempt [safe_intros]: "(\<And>e x. r = Inl e \<Longrightarrow> err e \<noteq> ServerDied x) \<Longrightarrow> safe (attempt err r)"
  by (auto simp: attempt_def intro: safe_intros split: sum.split)

lemma safe_block_Nil [safe_intros]: "safe (block [])"
  by (simp add: block.simps safe_return)

lemma safe_block_Cons [safe_intros]: "safe m \<Longrightarrow> safe (block ms) \<Longrightarrow> safe (block (m # ms))"
  by (simp add: block.simps safe_bind)

lemma safe_only_if [safe_intros]: "(b \<Longrightarrow> safe m) \<Longrightarrow> safe (only_if b m)"
  by (simp add: only_if_def safe_return)

lemma safe_if [safe_intros]: "(b \<Longrightarrow> safe m) \<Longrightarrow> (\<not> b \<Longrightarrow> safe n) \<Longrightarrow> safe (if b then m else n)"
  by simp

lemma safe_case_prod [safe_intros]: "(\<And>x y. p = (x, y) \<Longrightarrow> safe (f x y)) \<Longrightarrow> safe (case p of (x, y) \<Rightarrow> f x y)"
  by (cases p) simp

lemma safe_Let [safe_intros]: "safe (f x) \<Longrightarrow> safe (let y = x in f y)"
  by simp

lemma safe_catch [safe_intros]:
  assumes "safe m" and "\<And>e. (\<And>x. e \<noteq> ServerDied x) \<Longrightarrow> safe (h e)"
  shows "safe (catch m h)"
  unfolding safe_def
proof (intro allI impI)
  fix w :: World
  assume w: "loop_inv {} (srv w)"
  obtain r w' where m: "m w = (r, w')"
    by (cases "m w")
  then have ok: "loop_inv {} (srv w')" "\<And>x. r \<noteq> Inl (ServerDied x)"
    using assms(1) w by (auto simp: safe_def)
  show "loop_inv {} (srv (snd (catch m h w))) \<and> (\<forall>e. fst (catch m h w) \<noteq> Inl (ServerDied e))"
  proof (cases r)
    case (Inl e)
    then have "safe (h e)"
      using ok(2) assms(2) by blast
    with Inl m ok(1) show ?thesis
      by (simp add: catch_def safe_def)
  qed (use m ok in \<open>simp add: catch_def\<close>)
qed

lemma safe_for_each [safe_intros]: "(\<And>x. x \<in> set xs \<Longrightarrow> safe (f x)) \<Longrightarrow> safe (for_each xs f)"
  by (induction xs) (auto simp: for_each.simps intro!: safe_intros)

lemma loop_inv_bench:
  "loop_inv W (s\<lparr>net := n\<rparr>) = loop_inv W s" "loop_inv W (s\<lparr>wire := v\<rparr>) = loop_inv W s"
  by (simp_all add: loop_inv_def limits_ok_def from_host_def buffers_ok_def)

lemma safe_serving:
  assumes "\<And>t. ev \<noteq> Connecting None t" shows "safe (serving ev)"
  unfolding safe_def
proof (intro allI impI)
  fix w :: World
  assume "loop_inv {} (srv w)"
  then have "loop_inv {} (ready_sockets (srv w))"
    by (simp add: ready_sockets_def loop_inv_bench)
  then have "wp (serve ev) (keeps_loop (ready_sockets (srv w))) (accept_failed [ev] (ready_sockets (srv w))) (ready_sockets (srv w))"
    by (intro serve_ok) simp_all
  then show "loop_inv {} (srv (snd (serving ev w))) \<and> (\<forall>e. fst (serving ev w) \<noteq> Inl (ServerDied e))"
    using assms by (auto simp: serving_def wp_def deliver_wire_def loop_inv_bench accept_failed_def split: prod.splits sum.splits)
qed

lemma safe_connect [safe_intros]: "safe (connect n)"
  unfolding connect_def by (intro safe_intros safe_serving) simp_all

lemma safe_cli_send [safe_intros]: "safe (cli_send c data)"
  unfolding cli_send_def by (intro safe_intros safe_serving) simp_all

lemma safe_send_frame [safe_intros]: "safe (send_frame c t p)"
  unfolding send_frame_def by (intro safe_intros) simp_all

lemma safe_cli_close [safe_intros]: "safe (cli_close c)"
  unfolding cli_close_def by (intro safe_intros safe_serving) simp_all

lemma safe_new_Cli [safe_intros]: "safe (new_Cli n ver)"
  unfolding new_Cli_def by (intro safe_intros)

lemma safe_recv [safe_intros]: "safe (recv c)"
  unfolding recv_def by (intro safe_intros) simp_all

lemma safe_recv_upto: "safe (recv_upto n c)"
proof (induction n)
  case (Suc n)
  then show ?case
    unfolding recv_upto.simps
    by (intro safe_reading) (auto split: scan_result.split intro!: safe_intros)
qed (simp add: safe_raise)

lemma safe_recv_frame [safe_intros]: "safe (recv_frame c)"
  unfolding recv_frame_def by (intro safe_intros safe_recv_upto)

lemma safe_check [safe_intros]: "safe (check b msg)"
  unfolding check_def by (intro safe_intros) simp_all

lemma safe_expect [safe_intros]: "safe (expect t c)"
  unfolding expect_def by (intro safe_intros) simp_all

lemma safe_expect_silence [safe_intros]: "safe (expect_silence c why)"
  unfolding expect_silence_def by (intro safe_intros) simp_all

lemma safe_lobby [safe_intros]: "safe (lobby c)"
  unfolding lobby_def by (intro safe_intros)

lemma safe_item [safe_intros]: "safe (item p i)"
  unfolding item_def by (intro safe_intros) simp_all

lemma lobby_scan_error: "lobby_scan k es n = Inl e \<Longrightarrow> e = NotAscii \<or> e = PyE IndexError"
  by (induction k arbitrary: es) (auto simp: Let_def split: option.splits if_splits)

lemma safe_status_of [safe_intros]: "safe (status_of e n)"
  unfolding status_of_def
  by (intro safe_intros) (auto simp: lobby_status_def map_sum_def dest!: lobby_scan_error split: list.splits sum.splits)

lemmas script_defs = check_status_def expect_room_def expect_count_def expect_any_def expect_exactly_def
  probe_def v1_is_rejected_def hello_phase_def join_phase_def full_phase_def go_phase_def relay_phase_def
  send_crc_def crc_round_def crc_phase_def drop_phase_def guest_joins_def guest_phase_def host_phase_def
  scenario_body_def check_log_def start_arrives_def full_fanout_def

lemma safe_new_Clis [safe_intros]: "safe (new_Clis ns)"
  by (induction ns) (auto intro!: safe_intros)

lemma safe_read_starts [safe_intros]: "safe (read_starts seats names scs)"
  by (induction scs) (auto intro!: safe_intros)

lemma safe_until_start [safe_intros]: "safe (until_start n c)"
  by (induction n) (auto intro!: safe_intros)

lemma safe_scenario_body: "safe (scenario_body seats)"
  unfolding script_defs by (intro safe_intros) simp_all

lemma safe_try_finally [safe_intros]:
  assumes "safe m" and "safe f" shows "safe (try_finally m f)"
  unfolding safe_def
proof (intro allI impI)
  fix w :: World
  assume w: "loop_inv {} (srv w)"
  obtain r w1 r' w2 where run: "m w = (r, w1)" "f w1 = (r', w2)"
    by (cases "m w"; cases "f (snd (m w))") simp
  then have "loop_inv {} (srv w1)" "\<forall>e. r \<noteq> Inl (ServerDied e)" "loop_inv {} (srv w2)" "\<forall>e. r' \<noteq> Inl (ServerDied e)"
    using assms w by (metis fst_conv safe_def snd_conv)+
  with run show "loop_inv {} (srv (snd (try_finally m f w))) \<and> (\<forall>e. fst (try_finally m f w) \<noteq> Inl (ServerDied e))"
    by (cases r') (simp_all add: try_finally_def)
qed

lemma safe_scenario_main: "safe (scenario_main seats)"
  unfolding scenario_main_def script_defs by (intro safe_intros) simp_all

lemma safe_scenario_autogo: "safe scenario_autogo"
  unfolding scenario_autogo_def script_defs by (intro safe_intros)

lemma safe_scenario_full: "safe (scenario_full seats)"
  unfolding scenario_full_def script_defs by (intro safe_intros)

lemma new_World_sound: "loop_inv {} (srv (new_World d ago rnd))"
  by (simp add: new_World_def loop_inv_new_Server)

subsection \<open>What the bench shows\<close>


text \<open>C31: a console sees the lobby as it is: in every well-formed state of the server, an idle
  connected console that asks for the LIST and looks up a name gets exactly the status byte of
  the client of that name among those listed for it, and nothing if there is none.\<close>

theorem console_sees_the_lobby:
  assumes "quiet (srv w)" and "console_idle w e"
  shows "\<exists>w'. status_of e n w =
    (Inr (map_option (\<lambda>d. nat (status_byte (srv w) d))
       (find (\<lambda>d. name (client_in (srv w) d) = Some n) (listed_for (srv w) e))), w') \<and> console_idle w' e"
proof -
  let ?s = "srv w" and ?L = "lobby_lines (srv w) e"
  obtain w' where w': "lobby e w = (Inr (lobby_payload ?s e), w')" "console_idle w' e"
    using lobby_reads [OF assms] by blast
  have named: "\<exists>m. name (client_in ?s d) = Some m \<and> valid_name m" if "d \<in> set (listed_for ?s e)" for d
    using listed_named [OF assms(1) that] srv_inv_names(4) [OF assms(1)] by blast
  have readable: "\<forall>(m, st) \<in> set ?L. (\<forall>ch \<in> set m. ch < 128 \<and> ch \<noteq> 0) \<and> length m \<le> 8"
    using named valid_name_ascii by (fastforce simp: lobby_lines_def valid_name_def)
  have "lobby_status (lobby_payload ?s e) n = lobby_scan (length ?L) (entries ?L @ []) n"
    using length_listed_for [of ?s e] unat_frame_len [of "length (listed_for ?s e)"]
    by (simp add: lobby_status_def lobby_payload_def lobby_lines_def)
  also have "\<dots> = Inr (map_of ?L n)"
    by (rule lobby_scan_entries [OF readable])
  also have "map_of ?L n = map_option (\<lambda>d. of_int (status_byte ?s d)) (find (\<lambda>d. the (name (client_in ?s d)) = n) (listed_for ?s e))"
    unfolding lobby_lines_def by (rule find_map_of)
  also have "find (\<lambda>d. the (name (client_in ?s d)) = n) (listed_for ?s e) =
      find (\<lambda>d. name (client_in ?s d) = Some n) (listed_for ?s e)"
    using named by (intro find_cong refl) force
  finally show ?thesis
    using w' unat_status [OF assms(1)]
    by (simp add: status_of_def run_simps option.map_comp comp_def)
qed


subsection \<open>Running the scripts\<close>

text \<open>
  The programs of the bench, executed by the simplifier: \<open>bench_defs\<close> and \<open>gate_defs\<close> unfold the
  scripts, \<open>numeral_steps\<close> unroll budgets that the simplifier has written as numerals, and a draw
  of the random generator stays symbolic.
\<close>

lemmas bench_defs = serving_def connect_def cli_send_def send_frame_def cli_close_def new_Cli_def recv_def
  recv_frame_def check_def expect_def expect_silence_def lobby_def new_World_def ready_sockets_def
  deliver_wire_def arrive_def client_frame_def cli_next_def pad_def lobby_status_def roster_names_def decode_name_def

lemmas gate_defs = ALICE_def BOB_def CAROL_def DAVE_def EVE_def FRANK_def OLDGUY_def GUEST_def PZZZ_def
  ROOM_NAMES_def st_def item_def status_of_def check_status_def roster_is_def expect_room_def expect_count_def
  expect_any_def expect_exactly_def probe_def v1_is_rejected_def hello_phase_def join_phase_def try_finally_def
  check_log_def log_wants_def scenario_main_def scenario_body_def scenario_autogo_def scenario_full_def
  full_names_def start_arrives_def full_fanout_def enumerate_simps until_start.simps

lemma recv_upto_run:
  "recv_upto (Suc n) c w = (case cli_next (buf w c) of
       Frame t p rest \<Rightarrow> (Inr (t, p), w\<lparr>buf := (buf w)(c := rest)\<rparr>)
     | BadLength _ \<Rightarrow> (Inl (PyE IndexError), w)
     | Incomplete \<Rightarrow> bind (recv c) (\<lambda>chunk.
         if chunk = [] then raise EndOfFile
         else bind (modify (\<lambda>w. w\<lparr>buf := (buf w)(c := buf w c @ chunk)\<rparr>)) (\<lambda>_. recv_upto n c)) w)"
  by (simp add: run_simps split: scan_result.split)

lemmas numeral_steps =
  recv_upto_run [of "pred_numeral k" for k, folded numeral_eq_Suc]
  rx_loop.simps(2) [of "pred_numeral k" for k, folded numeral_eq_Suc]
  drop_upto.simps(2) [of "pred_numeral k" for k, folded numeral_eq_Suc]
  until_start.simps(2) [of "pred_numeral k" for k, folded numeral_eq_Suc]
  lobby_scan.simps(2) [of "pred_numeral k" for k, folded numeral_eq_Suc]
  run_simps(15) [of "pred_numeral k" for k, folded numeral_eq_Suc]
  replicate_Suc [of "pred_numeral k" "0 :: byte" for k, folded numeral_eq_Suc]
  upt_rec [of _ "numeral k" for k]

definition drawn :: "nat list \<Rightarrow> nat" where
  "drawn rnd = (case rnd of [] \<Rightarrow> 1 | x # xs \<Rightarrow> 1 + x mod 65535)"

lemma randrange_drawn: "randrange (Suc 0) 0x10000 s = (Inr (drawn (entropy s)), s\<lparr>entropy := tl (entropy s)\<rparr>)"
  by (cases s; cases "entropy s") (simp_all add: randrange_def run_simps drawn_def)

lemma drawn_bytes: "drawn rnd AND 255 < 256" "drop_bit 8 (drawn rnd) < 256"
proof -
  have "drawn rnd \<le> 65535"
    by (auto simp: drawn_def Suc_le_eq split: list.split)
  then show "drawn rnd AND 255 < 256" "drop_bit 8 (drawn rnd) < 256"
    by (simp_all add: nat_and_255 drop_bit_eq_div less_mult_imp_div_less)
qed

lemmas play_simps = bench_defs gate_defs exec_simps recv_upto_run numeral_steps pump_ready randrange_drawn drawn_bytes

lemma body_2_fails:
  "fst ((bind probe (\<lambda>_. scenario_body 2)) (new_World 3 0 rnd)) = Inl (AssertFailed ''forming status wrong'')"
  by (simp add: play_simps del: randrange_def cong: run_congs)

lemma main_2_fails:
  "fst (scenario_main 2 (new_World 3 0 rnd)) = Inl (AssertFailed ''server log missing match: room'')"
  by (simp add: play_simps del: randrange_def cong: run_congs)

lemma autogo_passes: "fst (scenario_autogo (new_World 3 2 rnd)) = Inr ()"
  by (simp add: play_simps del: randrange_def cong: run_congs)

lemma full_2_passes: "fst (scenario_full 2 (new_World 3 2 rnd)) = Inr ()"
  by (simp add: play_simps del: randrange_def cong: run_congs)

text \<open>A bench with two consoles in the lobby, ALICE and EVE, that have read their welcome.\<close>

definition demo_script :: "unit tool" where
  "demo_script = bind (new_Cli ALICE 2) (\<lambda>a. bind (expect_any T_LOBBY a) (\<lambda>_.
     bind (new_Cli EVE 2) (\<lambda>e. expect_any T_LOBBY e)))"

definition demo_world :: World where
  "demo_world = snd (demo_script (new_World 3 0 []))"

lemma demo_world_run:
  "\<exists>w. demo_script (new_World 3 0 []) = (Inr (), w) \<and> console_idle w 1 \<and>
     by_name (srv w) = [(ALICE, 0), (EVE, 1)] \<and> name (client_in (srv w) 0) = Some ALICE \<and>
     name (client_in (srv w) 1) = Some EVE \<and> room (client_in (srv w) 0) = None"
  by (simp add: demo_script_def console_idle_def play_simps del: randrange_def cong: run_congs)

lemma demo_world_quiet: "quiet (srv demo_world)"
proof -
  have "safe demo_script"
    unfolding demo_script_def script_defs by (intro safe_intros)
  then show ?thesis
    unfolding safe_def demo_world_def using new_World_sound by (intro loop_inv_quiet) blast
qed

theorem console_sees_the_lobby_witness:
  "\<exists>w'. status_of 1 ALICE demo_world = (Inr (Some 1), w')"
proof -
  have demo: "console_idle demo_world 1" "by_name (srv demo_world) = [(ALICE, 0), (EVE, 1)]"
    "name (client_in (srv demo_world) 0) = Some ALICE" "room (client_in (srv demo_world) 0) = None"
    using demo_world_run by (auto simp: demo_world_def)
  have "listed_for (srv demo_world) 1 = [0]"
    by (simp add: listed_for_def demo) (simp add: ALICE_def)
  then show ?thesis
    using console_sees_the_lobby [OF demo_world_quiet demo(1), of ALICE] demo
    by (auto simp: status_byte_def)
qed

text \<open>C33: the gate cannot pass against the repository's own server: it refuses every SEATS but 2,
  and with SEATS at its default of 2 it fails, whatever the random numbers drawn. The tool expects
  a room of two to be shown as full while the server seats four, so the check of the forming status
  fails; the \<open>finally\<close> block then complains about the log of a match that never started.\<close>

theorem gate_never_passes:
  "gate_py seats rnd \<noteq> GatePass \<and>
   gate_py 2 rnd = Raised (AssertFailed ''server log missing match: room'') \<and>
   fst ((bind probe (\<lambda>_. scenario_body 2)) (new_World DEFAULT_DELAY 0 rnd)) =
     Inl (AssertFailed ''forming status wrong'')"
  using main_2_fails [of rnd] body_2_fails [of rnd]
  by (simp add: gate_py_def run_gate_def then_gate_def DEFAULT_DELAY_def)

text \<open>The automatic start works end to end: with \<open>--auto-go 2\<close> two simulated consoles that meet
  are started without a GO, each is told its own seat, the count and the roster, a third is
  refused, and the input of one reaches exactly the other, for every random seed.\<close>

theorem automatic_start_scenarios_pass:
  "fst (scenario_autogo (new_World DEFAULT_DELAY 2 rnd)) = Inr () \<and>
   fst (scenario_full 2 (new_World DEFAULT_DELAY 2 rnd)) = Inr ()"
  using autogo_passes full_2_passes by (simp add: DEFAULT_DELAY_def)

end
