(* ===== verification/Diff_Run.thy ===== *)
theory Diff_Run
  imports Test_Bench Diff_Tool
begin

text \<open>
  The differential tester \<open>tools/server_diff.py\<close>, its driving half: \<open>Ctx\<close> with its clients and
  its transcript, \<open>sync\<close>, and the version 2 scenarios, as programs over the test bench. What is
  run is the repository's Python server; the C relay and the version 1 server of the sibling
  repositories would be other benches.
\<close>

subsection \<open>The context\<close>

datatype diff_line =
    Got nat string string string  \<comment> \<open>step number and text, label, rendered frame\<close>
  | Partial nat string string bytes
  | Eof nat string string

text \<open>
  \<open>PROTO\<close> is the global protocol version; \<open>order\<close> are the clients in creation order; \<open>closed\<close> and
  \<open>eof_seen\<close> are flags of \<open>Client\<close>.
\<close>

record Ctx =
  PROTO :: nat
  world :: World
  order :: "cid list"
  tag :: "cid \<Rightarrow> string"
  closed :: "cid \<Rightarrow> bool"
  eof_seen :: "cid \<Rightarrow> bool"
  step_no :: nat
  transcript :: "diff_line list"

type_synonym 'a diff = "(Ctx, tool_exn, 'a) prog"

definition new_Ctx :: "nat \<Rightarrow> nat list \<Rightarrow> Ctx" where
  "new_Ctx proto rnd = \<lparr>PROTO = proto, world = new_World DEFAULT_DELAY 0 rnd, order = [], tag = (\<lambda>_. ''''), closed = (\<lambda>_. False),
     eof_seen = (\<lambda>_. False), step_no = 0, transcript = []\<rparr>"

definition on_world :: "'a tool \<Rightarrow> 'a diff" where
  "on_world m = (\<lambda>x. case m (world x) of (r, w) \<Rightarrow> (r, x\<lparr>world := w\<rparr>))"

definition ascii :: "string \<Rightarrow> bytes" where
  "ascii s = map of_char s"

definition x_connect :: "string \<Rightarrow> cid diff" where
  "x_connect l = bind (on_world (connect [])) (\<lambda>c.
     bind (modify (\<lambda>x. x\<lparr>order := order x @ [c], tag := (tag x)(c := l)\<rparr>)) (\<lambda>_. return c))"

text \<open>\<open>Client.send\<close> and \<open>Client.close\<close>.\<close>

definition x_send :: "cid \<Rightarrow> bytes \<Rightarrow> unit diff" where
  "x_send c data = reading (\<lambda>x. only_if (\<not> closed x c) (on_world (cli_send c data)))"

definition x_frame :: "cid \<Rightarrow> byte \<Rightarrow> bytes \<Rightarrow> unit diff" where
  "x_frame c t p = bind (attempt PyE (client_frame t p)) (\<lambda>f. x_send c f)"

definition x_close :: "cid \<Rightarrow> unit diff" where
  "x_close c = reading (\<lambda>x. only_if (\<not> closed x c) (block [
     modify (\<lambda>x. x\<lparr>closed := (closed x)(c := True)\<rparr>),
     on_world (cli_close c)]))"

text \<open>
  \<open>sync\<close>. First the drain: when all live sockets are silent, everything that arrived for a live
  client is in its buffer, and a connection that the server has dropped has reported its end.
\<close>

definition drain :: "cid \<Rightarrow> unit diff" where
  "drain c = modify (\<lambda>x. if closed x c then x
     else let w = world x; over = (c \<notin> set (clients (srv w))) in
       x\<lparr>world := w\<lparr>buf := (buf w)(c := buf w c @ inbox w c), inbox := (inbox w)(c := [])\<rparr>,
         closed := (closed x)(c := over), eof_seen := (eof_seen x)(c := over)\<rparr>)"

text \<open>Then the record of one client: its frames, an unfinished rest, its end.\<close>

definition client_lines ::
  "nat \<Rightarrow> nat \<Rightarrow> string \<Rightarrow> string \<Rightarrow> bool \<Rightarrow> (byte \<times> bytes) list \<Rightarrow> bytes \<Rightarrow> diff_line list" where
  "client_lines proto n text l over fs rest =
     map (\<lambda>f. Got n text l (render proto f)) fs @
     (if rest = [] then [] else [Partial n text l rest]) @ (if over then [Eof n text l] else [])"

definition record_client :: "string \<Rightarrow> cid \<Rightarrow> unit diff" where
  "record_client text c = reading (\<lambda>x.
     case scan_all cli_next (buf (world x) c) of
       (fs, Malformed _) \<Rightarrow> raise (PyE IndexError)
     | (fs, NeedMore rest) \<Rightarrow> modify (\<lambda>x. x\<lparr>
         world := (world x)\<lparr>buf := (buf (world x))(c := [])\<rparr>,
         eof_seen := (eof_seen x)(c := False),
         transcript := transcript x @ client_lines (PROTO x) (step_no x) text (tag x c) (eof_seen x c) fs rest\<rparr>))"

definition sync :: "string \<Rightarrow> unit diff" where
  "sync text = block [
     modify (\<lambda>x. x\<lparr>step_no := step_no x + 1\<rparr>),
     reading (\<lambda>x. for_each (order x) drain),
     reading (\<lambda>x. for_each (order x) (record_client text))]"

text \<open>\<open>Ctx.hello\<close>: connect, identify with a given version or \<open>PROTO\<close>, and sync.\<close>

definition x_hello_as :: "string \<Rightarrow> byte \<Rightarrow> cid diff" where
  "x_hello_as l ver = bind (x_connect l) (\<lambda>c.
     bind (x_frame c T_HELLO (ver # ascii l)) (\<lambda>_.
     bind (sync (''hello '' @ l)) (\<lambda>_. return c)))"

definition x_hello :: "string \<Rightarrow> cid diff" where
  "x_hello l = reading (\<lambda>x. x_hello_as l (of_nat (PROTO x)))"

definition pad8 :: "string \<Rightarrow> bytes" where
  "pad8 s = ljust 8 0 (take 8 (ascii s))"

subsection \<open>The scenarios\<close>

text \<open>A message, then a sync with its description.\<close>

definition say :: "cid \<Rightarrow> byte \<Rightarrow> bytes \<Rightarrow> string \<Rightarrow> unit diff" where
  "say c t p text = bind (x_frame c t p) (\<lambda>_. sync text)"

definition s1_roster_order :: "unit diff" where
  "s1_roster_order =
     bind (x_hello ''ALICE'') (\<lambda>a. bind (x_hello ''BOB'') (\<lambda>b.
     bind (x_hello ''CAROL'') (\<lambda>c. bind (x_hello ''DAVE'') (\<lambda>d.
     bind (x_connect ''OLDGUY'') (\<lambda>v1.
     bind (say v1 T_HELLO (1 # ascii ''OLDGUY'') ''v1 hello refused'') (\<lambda>_.
     bind (for_each [a, b, c, d] (\<lambda>cl. x_frame cl T_LIST [])) (\<lambda>_.
     bind (sync ''LIST from each'') (\<lambda>_.
     bind (say c T_HELLO (2 # ascii ''CAROL2'') ''CAROL renames to CAROL2'') (\<lambda>_.
     bind (x_hello ''EVE'') (\<lambda>e. block [
       say e T_HELLO (2 # ascii ''BOB'') ''EVE steals the name BOB'',
       for_each [a, d, e] (\<lambda>cl. x_frame cl T_LIST []),
       sync ''LIST after the churn'',
       x_close a,
       sync ''ALICE disconnects'',
       for_each [d, e] (\<lambda>cl. x_frame cl T_LIST []),
       sync ''LIST after a drop'']))))))))))"

definition s2_rooms :: "nat \<Rightarrow> unit diff" where
  "s2_rooms seats =
     bind (x_hello ''ALICE'') (\<lambda>a. bind (x_hello ''BOB'') (\<lambda>b. bind (x_hello ''CAROL'') (\<lambda>c. block [
       say b T_JOIN (pad8 ''ALICE'') ''BOB joins ALICE'',
       say c T_LIST [] ''status: forming room'',
       (if 3 \<le> seats
        then say c T_JOIN (pad8 ''BOB'') ''CAROL joins the guest BOB (redirect)''
        else say c T_JOIN (pad8 ''ALICE'') ''CAROL joins a full room (refused -> LOBBY)''),
       say b T_JOIN (pad8 ''ALICE'') ''in-room JOIN is silent'',
       say c T_JOIN (pad8 ''NOBODY'') ''JOIN unknown name -> LOBBY'',
       say a T_JOIN (pad8 ''ALICE'') ''self-join from an in-room client'',
       bind (x_hello ''DAVE'') (\<lambda>d. block [
         say d T_JOIN (pad8 ''DAVE'') ''DAVE self-join -> LOBBY'',
         say d T_JOIN (ascii ''THISNAMEISWAYTOOLONG'') ''JOIN an over-long name -> LOBBY''])])))"

definition s3_go_start :: "unit diff" where
  "s3_go_start =
     bind (x_hello ''ALICE'') (\<lambda>a. bind (x_hello ''BOB'') (\<lambda>b. block [
       say a T_GO [] ''GO with no room (ignored)'',
       say b T_JOIN (pad8 ''ALICE'') ''BOB joins ALICE'',
       say b T_GO [] ''guest GO (ignored)'',
       say a T_GO [] ''host GO -> START'',
       say a T_GO [] ''second GO on a started room (ignored)'',
       bind (x_hello ''CAROL'') (\<lambda>c.
         say c T_JOIN (pad8 ''ALICE'') ''join a started room -> LOBBY''),
       say a T_PING [] ''PING -> PONG'']))"

text \<open>A CRC report of five bytes.\<close>

definition crc_bytes :: "nat \<Rightarrow> nat \<Rightarrow> nat \<Rightarrow> nat \<Rightarrow> bytes" where
  "crc_bytes seat t lo hi = map of_nat [seat, t AND 0xFF, drop_bit 8 t, lo, hi]"

definition s4_relay_crc :: "unit diff" where
  "s4_relay_crc =
     bind (x_hello ''ALICE'') (\<lambda>a. bind (x_hello ''BOB'') (\<lambda>b. block [
       say a T_INPUT [0, 1, 0, 0x40, 0] ''relay before a room exists (dropped)'',
       say b T_JOIN (pad8 ''ALICE'') ''BOB joins ALICE'',
       say a T_INPUT [0, 1, 0, 0x40, 0] ''relay before start (dropped)'',
       say a T_GO [] ''host GO -> START'',
       say a T_INPUT [0, 7, 0, 0x40, 0] ''INPUT fanout'',
       say b T_STATE ([0, 0] @ map of_nat [0 ..< 96]) ''96-byte STATE fanout'',
       say a T_RESYNC [5, 0] ''RESYNC fanout'',
       for_each [0 ..< 4] (\<lambda>t. block [
         x_frame a T_CRC (crc_bytes 0 t 0x11 0x22), x_frame b T_CRC (crc_bytes 1 t 0x11 0x22)]),
       sync ''four agreed CRC rounds'',
       x_frame a T_CRC (crc_bytes 0 9 0xAA 0x00),
       x_frame b T_CRC (crc_bytes 1 9 0xBB 0x00),
       sync ''a CRC mismatch'',
       for_each [100 ..< 170] (\<lambda>t. x_frame a T_CRC (crc_bytes 0 t 0x33 0x44)),
       sync ''70 half-reported ticks (eviction)'',
       say b T_CRC (crc_bytes 1 100 0x33 0x44) ''complete an evicted tick (no line)'',
       say b T_CRC (crc_bytes 1 169 0x33 0x44) ''complete a surviving tick'',
       x_frame a T_CRC (crc_bytes 3 200 0x01 0x00),
       x_frame b T_CRC (crc_bytes 1 200 0x02 0x00),
       sync ''a lying seat index'']))"

definition s5_drop_matrix :: "unit diff" where
  "s5_drop_matrix =
     bind (x_hello ''ALICE'') (\<lambda>a. bind (x_hello ''BOB'') (\<lambda>b.
     bind (block [
       say b T_JOIN (pad8 ''ALICE'') ''BOB joins ALICE'',
       say a T_GO [] ''host GO -> START'',
       x_close b,
       sync ''guest leaves a STARTED room -> PEER_LEFT'']) (\<lambda>_.
     bind (x_hello ''CAROL'') (\<lambda>c. bind (x_hello ''DAVE'') (\<lambda>d.
     bind (block [
       say d T_JOIN (pad8 ''CAROL'') ''DAVE joins CAROL'',
       x_close c,
       sync ''host leaves a FORMING room -> ROOM 0'']) (\<lambda>_.
     bind (x_hello ''EVE'') (\<lambda>e. bind (x_hello ''FRANK'') (\<lambda>f.
     bind (block [
       say f T_JOIN (pad8 ''EVE'') ''FRANK joins EVE'',
       x_close f,
       sync ''guest leaves a FORMING room of 2 -> dissolve'']) (\<lambda>_.
     bind (x_hello ''GRACE'') (\<lambda>g.
     bind (say g T_BYE [] ''BYE'') (\<lambda>_.
     bind (x_hello ''HEIDI'') (\<lambda>h.
       say h T_HELLO (2 # ascii ''!!'') ''a bad name drops the connection''))))))))))))"

definition s6_framing :: "unit diff" where
  "s6_framing =
     bind (x_hello ''ALICE'') (\<lambda>a. block [
       bind (attempt PyE (client_frame T_PING [])) (\<lambda>f. for_each f (\<lambda>x. x_send a [x])),
       sync ''PING dribbled one byte at a time'',
       bind (attempt PyE (client_frame T_PING [])) (\<lambda>f. x_send a (f @ f)),
       sync ''two frames in one write'',
       bind (attempt PyE (client_frame T_LIST [])) (\<lambda>f. let listx3 = f @ f @ f in block [
         x_send a (take 2 listx3), x_send a (drop 2 listx3)]),
       sync ''three LISTs split mid-frame'',
       bind (attempt PyE (client_frame T_JOIN (pad8 ''NOBODY''))) (\<lambda>j. block [
         x_send a (take 1 j), x_send a (take 3 (drop 1 j)), x_send a (drop 4 j)]),
       sync ''JOIN in three fragments'',
       bind (x_connect ''BADLEN'') (\<lambda>b. x_send b [0]),
       sync ''length byte 0 -> bad frame length'',
       bind (x_connect ''BADLEN2'') (\<lambda>c. x_send c [0xC9]),
       sync ''length byte 201 -> bad frame length'',
       bind (x_hello ''DAVE'') (\<lambda>d. say d 0x7F [] ''unknown type $7F'')])"

definition s7_limits :: "unit diff" where
  "s7_limits = block [
     for_each [0 ..< 9] (\<lambda>i. bind (x_connect (''IP'' @ [char_of (48 + i)])) (\<lambda>_. return ())),
     sync ''9 connections from one IP'']"

text \<open>The table of scenarios, and \<open>run\<close> up to the transcript of the frames.\<close>

definition SCENARIOS_V2 :: "nat \<Rightarrow> (string \<times> unit diff) list" where
  "SCENARIOS_V2 seats = [(''roster'', s1_roster_order), (''rooms'', s2_rooms seats), (''start'', s3_go_start),
     (''relay'', s4_relay_crc), (''drops'', s5_drop_matrix), (''framing'', s6_framing), (''limits'', s7_limits)]"

definition play :: "nat \<Rightarrow> unit diff \<Rightarrow> nat list \<Rightarrow> tool_exn + diff_line list" where
  "play proto scenario rnd =
     (case bind scenario (\<lambda>_. sync ''final'') (new_Ctx proto rnd) of
        (Inl e, _) \<Rightarrow> Inl e | (Inr _, x) \<Rightarrow> Inr (transcript x))"

end
