(* ===== verification/Diff_Correct.thy ===== *)
theory Diff_Correct
  imports Bench_Correct Diff_Run
begin

text \<open>
  What the differential tester does when it drives the repository's server: its transcript is the
  frames, the scenarios cannot break the server, and two of them are played in full.
\<close>

subsection \<open>The transcript is what arrived\<close>

lemma cli_scan_frames:
  assumes "frames ms = Inr stream" and "cli_next rest = Incomplete"
  shows "scan_all cli_next (stream @ rest) = (ms, NeedMore rest)"
  using assms(1)
proof (induction ms arbitrary: stream)
  case Nil
  then show ?case
    using assms(2) by (simp add: cli_scan.scan_all_unfold [of rest])
next
  case (Cons m ms)
  then obtain b bs where b: "frame (fst m) (snd m) = Inr b" "frames ms = Inr bs" "stream = b @ bs"
    by (auto split: sum.splits)
  then have "scan_all cli_next (bs @ rest) = (ms, NeedMore rest)"
    using Cons.IH by blast
  with b show ?case
    using cli_next_frame [OF b(1), of "bs @ rest"] by (subst cli_scan.scan_all_unfold) simp
qed

text \<open>What draining and recording leave alone.\<close>

definition same_bench :: "Ctx \<Rightarrow> Ctx \<Rightarrow> bool" where
  "same_bench x x' \<longleftrightarrow> PROTO x' = PROTO x \<and> srv (world x') = srv (world x) \<and> order x' = order x \<and> tag x' = tag x \<and> step_no x' = step_no x"

lemma drain_each:
  assumes "distinct cs" and "\<forall>c \<in> set cs. \<not> closed x c"
  shows "\<exists>x'. for_each cs drain x = (Inr (), x') \<and> same_bench x x' \<and> transcript x' = transcript x \<and>
    (\<forall>c \<in> set cs. buf (world x') c = in_hand (world x) c \<and> inbox (world x') c = [] \<and>
       (eof_seen x' c \<longleftrightarrow> c \<notin> set (clients (srv (world x))))) \<and>
    (\<forall>c. c \<notin> set cs \<longrightarrow> buf (world x') c = buf (world x) c \<and> inbox (world x') c = inbox (world x) c \<and>
       eof_seen x' c = eof_seen x c)"
  using assms
proof (induction cs arbitrary: x)
  case Nil
  then show ?case by (simp add: run_simps same_bench_def)
next
  case (Cons c cs)
  define x1 where "x1 = snd (drain c x)"
  have x1: "drain c x = (Inr (), x1)" "same_bench x x1" "transcript x1 = transcript x"
    "buf (world x1) c = in_hand (world x) c" "inbox (world x1) c = []"
    "eof_seen x1 c \<longleftrightarrow> c \<notin> set (clients (srv (world x)))"
    "\<forall>d. d \<noteq> c \<longrightarrow> buf (world x1) d = buf (world x) d \<and> inbox (world x1) d = inbox (world x) d \<and>
       eof_seen x1 d = eof_seen x d \<and> closed x1 d = closed x d"
    using Cons.prems by (simp_all add: x1_def drain_def modify_def Let_def same_bench_def in_hand_def)
  have "\<forall>d \<in> set cs. \<not> closed x1 d"
    using Cons.prems x1(7) by auto
  then obtain x' where x': "for_each cs drain x1 = (Inr (), x')" "same_bench x1 x'" "transcript x' = transcript x1"
    "\<forall>c \<in> set cs. buf (world x') c = in_hand (world x1) c \<and> inbox (world x') c = [] \<and>
       (eof_seen x' c \<longleftrightarrow> c \<notin> set (clients (srv (world x1))))"
    "\<forall>c. c \<notin> set cs \<longrightarrow> buf (world x') c = buf (world x1) c \<and> inbox (world x') c = inbox (world x1) c \<and>
       eof_seen x' c = eof_seen x1 c"
    using Cons.IH [of x1] Cons.prems by auto
  have "for_each (c # cs) drain x = (Inr (), x')"
    by (simp add: run_simps x1(1) x'(1))
  then show ?case
    using Cons.prems x1 x' by (intro exI [of _ x']) (auto simp: same_bench_def in_hand_def)
qed

lemma record_each:
  assumes "distinct cs" and "\<forall>c \<in> set cs. scan_all cli_next (buf (world x) c) = (ms c, NeedMore (rest c))"
  shows "\<exists>x'. for_each cs (record_client said) x = (Inr (), x') \<and> same_bench x x' \<and>
    transcript x' = transcript x @ concat (map (\<lambda>c. client_lines (PROTO x) (step_no x) said (tag x c) (eof_seen x c) (ms c) (rest c)) cs) \<and>
    (\<forall>c. inbox (world x') c = inbox (world x) c) \<and> (\<forall>c \<in> set cs. buf (world x') c = [])  \<and>
    (\<forall>c. c \<notin> set cs \<longrightarrow> buf (world x') c = buf (world x) c)"
  using assms
proof (induction cs arbitrary: x)
  case Nil
  then show ?case by (simp add: run_simps same_bench_def)
next
  case (Cons c cs)
  define x1 where "x1 = snd (record_client said c x)"
  have x1: "record_client said c x = (Inr (), x1)" "same_bench x x1"
    "transcript x1 = transcript x @ client_lines (PROTO x) (step_no x) said (tag x c) (eof_seen x c) (ms c) (rest c)"
    "buf (world x1) c = []" "\<forall>d. inbox (world x1) d = inbox (world x) d"
    "\<forall>d. d \<noteq> c \<longrightarrow> buf (world x1) d = buf (world x) d \<and> eof_seen x1 d = eof_seen x d"
    using Cons.prems by (simp_all add: x1_def record_client_def run_simps same_bench_def)
  have "\<forall>d \<in> set cs. scan_all cli_next (buf (world x1) d) = (ms d, NeedMore (rest d))"
    using Cons.prems x1(6) by auto
  then obtain x' where x': "for_each cs (record_client said) x1 = (Inr (), x')" "same_bench x1 x'"
    "transcript x' = transcript x1 @ concat (map (\<lambda>c. client_lines (PROTO x1) (step_no x1) said (tag x1 c) (eof_seen x1 c) (ms c) (rest c)) cs)"
    "\<forall>c. inbox (world x') c = inbox (world x1) c" "\<forall>c \<in> set cs. buf (world x') c = []"
    "\<forall>c. c \<notin> set cs \<longrightarrow> buf (world x') c = buf (world x1) c"
    using Cons.IH [of x1] Cons.prems by auto
  have "for_each (c # cs) (record_client said) x = (Inr (), x')"
    by (simp add: run_simps x1(1) x'(1))
  moreover have later: "map (\<lambda>c. client_lines (PROTO x1) (step_no x1) said (tag x1 c) (eof_seen x1 c) (ms c) (rest c)) cs =
      map (\<lambda>c. client_lines (PROTO x) (step_no x) said (tag x c) (eof_seen x c) (ms c) (rest c)) cs"
    using Cons.prems x1(2,6) by (auto simp: same_bench_def)
  have "transcript x' = transcript x @ concat (map (\<lambda>c. client_lines (PROTO x) (step_no x) said (tag x c) (eof_seen x c) (ms c) (rest c)) (c # cs))"
    unfolding x'(3) x1(3) later by simp
  moreover have "same_bench x x'" "\<forall>c. inbox (world x') c = inbox (world x) c" "\<forall>d \<in> set (c # cs). buf (world x') d = []"
    "\<forall>d. d \<notin> set (c # cs) \<longrightarrow> buf (world x') d = buf (world x) d"
    using Cons.prems x1(2,4,5,6) x'(2,4,5,6) by (auto simp: same_bench_def)
  ultimately show ?case by blast
qed



subsection \<open>The scenarios cannot break the server\<close>

definition diff_safe :: "'a diff \<Rightarrow> bool" where
  "diff_safe m \<longleftrightarrow> (\<forall>x. loop_inv {} (srv (world x)) \<longrightarrow>
     loop_inv {} (srv (world (snd (m x)))) \<and> (\<forall>e. fst (m x) \<noteq> Inl (ServerDied e)))"

named_theorems diff_intros \<open>safe programs of the differential tester\<close>

lemma diff_return [diff_intros]: "diff_safe (return r)"
  by (simp add: diff_safe_def return_def)

lemma diff_raise [diff_intros]: "(\<And>y. e \<noteq> ServerDied y) \<Longrightarrow> diff_safe (raise e)"
  by (simp add: diff_safe_def raise_def)

lemma diff_bind [diff_intros]: "diff_safe m \<Longrightarrow> (\<And>r. diff_safe (k r)) \<Longrightarrow> diff_safe (bind m k)"
  by (fastforce simp: diff_safe_def bind_def split: prod.split sum.split)

lemma diff_reading [diff_intros]: "(\<And>x. diff_safe (f x)) \<Longrightarrow> diff_safe (reading f)"
  by (simp add: diff_safe_def reading_def)

lemma diff_modify [diff_intros]: "(\<And>x. srv (world (f x)) = srv (world x)) \<Longrightarrow> diff_safe (modify f)"
  by (simp add: diff_safe_def modify_def)

lemma diff_attempt [diff_intros]: "diff_safe (attempt PyE r)"
  by (auto simp: attempt_def intro: diff_intros split: sum.split)

lemma diff_block [diff_intros]:
  "diff_safe (block [])" "diff_safe m \<Longrightarrow> diff_safe (block ms) \<Longrightarrow> diff_safe (block (m # ms))"
  by (simp_all add: block.simps diff_return diff_bind)

lemma diff_only_if [diff_intros]: "diff_safe m \<Longrightarrow> diff_safe (only_if b m)"
  by (simp add: only_if_def diff_return)

lemma diff_if [diff_intros]: "diff_safe m \<Longrightarrow> diff_safe n \<Longrightarrow> diff_safe (if b then m else n)"
  by simp

lemma diff_Let [diff_intros]: "diff_safe (f y) \<Longrightarrow> diff_safe (let z = y in f z)"
  by simp

lemma diff_for_each [diff_intros]: "(\<And>y. diff_safe (f y)) \<Longrightarrow> diff_safe (for_each ys f)"
  by (induction ys) (auto simp: for_each.simps intro!: diff_intros)

lemma diff_on_world [diff_intros]: "safe m \<Longrightarrow> diff_safe (on_world m)"
  by (fastforce simp: safe_def diff_safe_def on_world_def split: prod.split)

lemma diff_drain [diff_intros]: "diff_safe (drain c)"
  unfolding drain_def by (intro diff_intros) (simp add: Let_def)

lemma diff_record [diff_intros]: "diff_safe (record_client said c)"
  unfolding record_client_def
  by (intro diff_intros) (auto split: prod.split scan_end.split intro!: diff_intros)

lemma diff_sync [diff_intros]: "diff_safe (sync said)"
  unfolding sync_def by (intro diff_intros) simp

lemma diff_ops [diff_intros]:
  "diff_safe (x_connect l)" "diff_safe (x_send c data)" "diff_safe (x_frame c t p)" "diff_safe (x_close c)"
  "diff_safe (x_hello_as l ver)" "diff_safe (x_hello l)" "diff_safe (say c t p said)"
  unfolding x_connect_def x_send_def x_frame_def x_close_def x_hello_as_def x_hello_def say_def
  by (intro diff_intros safe_intros; simp)+

subsection \<open>Two scenarios, played\<close>

lemmas diff_defs = new_Ctx_def on_world_def ascii_def x_connect_def x_send_def x_frame_def x_close_def drain_def
  client_lines_def record_client_def sync_def x_hello_as_def x_hello_def pad8_def say_def play_def DEFAULT_DELAY_def scan_all_def

lemma framing_played:
  "play 2 s6_framing rnd = Inr [
     Got 1 ''hello ALICE'' ''ALICE'' (render 2 (T_LOBBY, [0])),
     Got 2 ''PING dribbled one byte at a time'' ''ALICE'' (render 2 (T_PONG, [])),
     Got 3 ''two frames in one write'' ''ALICE'' (render 2 (T_PONG, [])),
     Got 3 ''two frames in one write'' ''ALICE'' (render 2 (T_PONG, [])),
     Got 4 ''three LISTs split mid-frame'' ''ALICE'' (render 2 (T_LOBBY, [0])),
     Got 4 ''three LISTs split mid-frame'' ''ALICE'' (render 2 (T_LOBBY, [0])),
     Got 4 ''three LISTs split mid-frame'' ''ALICE'' (render 2 (T_LOBBY, [0])),
     Got 5 ''JOIN in three fragments'' ''ALICE'' (render 2 (T_LOBBY, [0])),
     Eof 6 ''length byte 0 -> bad frame length'' ''BADLEN'',
     Eof 7 ''length byte 201 -> bad frame length'' ''BADLEN2'',
     Got 8 ''hello DAVE'' ''DAVE'' (render 2 (T_LOBBY, 1 # pad8 ''ALICE'' @ [1])),
     Eof 9 ''unknown type $7F'' ''DAVE'']"
  by (simp add: s6_framing_def diff_defs play_simps del: randrange_def cong: run_congs)

definition start_lines :: "bytes \<Rightarrow> diff_line list" where
  "start_lines seed_bytes = (let names = pad8 ''ALICE'' @ pad8 ''BOB'' @ replicate 16 0; busy = [0x82] in [
     Got 1 ''hello ALICE'' ''ALICE'' (render 2 (T_LOBBY, [0])),
     Got 2 ''hello BOB'' ''BOB'' (render 2 (T_LOBBY, 1 # pad8 ''ALICE'' @ [1])),
     Got 4 ''BOB joins ALICE'' ''ALICE'' (render 2 (T_ROOM, 2 # names)),
     Got 4 ''BOB joins ALICE'' ''BOB'' (render 2 (T_ROOM, 2 # names)),
     Got 6 ''host GO -> START'' ''ALICE'' (render 2 (T_START, [0, 2] @ seed_bytes @ 3 # names)),
     Got 6 ''host GO -> START'' ''BOB'' (render 2 (T_START, [1, 2] @ seed_bytes @ 3 # names)),
     Got 8 ''hello CAROL'' ''CAROL'' (render 2 (T_LOBBY, 2 # pad8 ''ALICE'' @ busy @ pad8 ''BOB'' @ busy)),
     Got 9 ''join a started room -> LOBBY'' ''CAROL'' (render 2 (T_LOBBY, 2 # pad8 ''ALICE'' @ busy @ pad8 ''BOB'' @ busy)),
     Got 10 ''PING -> PONG'' ''ALICE'' (render 2 (T_PONG, []))])"

lemma start_played:
  "play 2 s3_go_start rnd = Inr (start_lines [of_nat (drawn rnd AND 255), of_nat (drop_bit 8 (drawn rnd))])"
  by (simp add: s3_go_start_def start_lines_def diff_defs play_simps del: randrange_def cong: run_congs)

text \<open>The framing scenario is handled by the repository's server, which has the partial-frame guard
  that the tool's comment says it lacks: a PING dribbled byte by byte, two frames in one write and
  frames split at awkward places are answered once each and in order; the length bytes 0 and 201
  and the unknown type end their connections, and nobody else's.\<close>

theorem framing_scenario_is_handled:
  "play 2 s6_framing rnd = Inr [
     Got 1 ''hello ALICE'' ''ALICE'' (render 2 (T_LOBBY, [0])),
     Got 2 ''PING dribbled one byte at a time'' ''ALICE'' (render 2 (T_PONG, [])),
     Got 3 ''two frames in one write'' ''ALICE'' (render 2 (T_PONG, [])),
     Got 3 ''two frames in one write'' ''ALICE'' (render 2 (T_PONG, [])),
     Got 4 ''three LISTs split mid-frame'' ''ALICE'' (render 2 (T_LOBBY, [0])),
     Got 4 ''three LISTs split mid-frame'' ''ALICE'' (render 2 (T_LOBBY, [0])),
     Got 4 ''three LISTs split mid-frame'' ''ALICE'' (render 2 (T_LOBBY, [0])),
     Got 5 ''JOIN in three fragments'' ''ALICE'' (render 2 (T_LOBBY, [0])),
     Eof 6 ''length byte 0 -> bad frame length'' ''BADLEN'',
     Eof 7 ''length byte 201 -> bad frame length'' ''BADLEN2'',
     Got 8 ''hello DAVE'' ''DAVE'' (render 2 (T_LOBBY, 1 # pad8 ''ALICE'' @ [1])),
     Eof 9 ''unknown type $7F'' ''DAVE'']"
  by (rule framing_played)

text \<open>The start scenario has one transcript: GO without a room, GO of a guest and a second GO are
  ignored, the host's GO sends each member its own START, a started room cannot be joined; and the
  transcript is the same for every two seeds, because the rendering masks exactly the seed.\<close>

theorem start_scenario_is_deterministic:
  "play 2 s3_go_start rnd = play 2 s3_go_start rnd' \<and> play 2 s3_go_start rnd = Inr (start_lines [0xAA, 0xAA])"
proof -
  have "render 2 (T_START, [seat, 2] @ [lo, hi] @ 3 # names) = render 2 (T_START, [seat, 2] @ [lo', hi'] @ 3 # names)"
    for seat lo hi lo' hi' and names :: bytes
    by (simp add: render_def mask_seed_def numeral_2_eq_2 numeral_3_eq_3)
  then have "start_lines [lo, hi] = start_lines [lo', hi']" for lo hi lo' hi'
    unfolding start_lines_def Let_def by metis
  then show ?thesis
    unfolding start_played by metis
qed

end
