(* ===== verification/Diff_Main.thy ===== *)
theory Diff_Main
  imports Diff_Correct
begin

text \<open>
  The differential tester \<open>tools/server_diff.py\<close>, the rest: the version 1 scenarios, the text of the
  transcript with the server's log records (\<open>finish\<close>, \<open>run\<close>), and \<open>main\<close> with its arguments.
\<close>

subsection \<open>The version 1 scenarios\<close>

definition v1_roster_order :: "unit diff" where
  "v1_roster_order =
     bind (x_hello ''ALICE'') (\<lambda>a. bind (x_hello ''BOB'') (\<lambda>b. bind (x_hello ''CAROL'') (\<lambda>c.
     bind (for_each [a, b, c] (\<lambda>cl. x_frame cl T_LIST [])) (\<lambda>_.
     bind (sync ''LIST from each'') (\<lambda>_.
     bind (say c T_HELLO (1 # ascii ''CAROL2'') ''CAROL renames to CAROL2'') (\<lambda>_.
     bind (x_hello ''DAVE'') (\<lambda>d. block [
       say d T_HELLO (1 # ascii ''BOB'') ''DAVE steals the name BOB'',
       for_each [a, d] (\<lambda>cl. x_frame cl T_LIST []),
       sync ''LIST after the churn'',
       x_close a,
       sync ''ALICE disconnects'',
       say d T_LIST [] ''LIST after a drop'',
       bind (x_hello_as ''EVE'' 7) (\<lambda>e.
         say e T_LIST [] ''HELLO with an absurd version byte is accepted'')])))))))"

definition v1_pairing :: "unit diff" where
  "v1_pairing =
     bind (x_hello ''ALICE'') (\<lambda>a. bind (x_hello ''BOB'') (\<lambda>b. bind (x_hello ''CAROL'') (\<lambda>c. block [
       say c T_LIST [] ''status: everyone idle (0)'',
       say b T_JOIN (pad8 ''ALICE'') ''BOB joins ALICE -> both START'',
       say c T_LIST [] ''status: both busy (1)'',
       say c T_JOIN (pad8 ''ALICE'') ''JOIN a busy player -> LOBBY'',
       say c T_JOIN (pad8 ''NOBODY'') ''JOIN an unknown name -> LOBBY'',
       say c T_JOIN (pad8 ''CAROL'') ''self-join -> LOBBY'',
       say c T_JOIN (ascii ''THISNAMEISWAYTOOLONG'') ''JOIN an over-long name -> LOBBY'',
       say b T_JOIN (pad8 ''CAROL'') ''JOIN while matched is silent'',
       say a T_PING [] ''PING -> PONG'',
       say c T_GO [] ''GO is an unknown type in v1''])))"

text \<open>A CRC report of four bytes, without a seat.\<close>

definition crc_bytes_v1 :: "nat \<Rightarrow> nat \<Rightarrow> nat \<Rightarrow> bytes" where
  "crc_bytes_v1 t lo hi = map of_nat [t AND 0xFF, drop_bit 8 t, lo, hi]"

definition v1_relay_crc :: "unit diff" where
  "v1_relay_crc =
     bind (x_hello ''ALICE'') (\<lambda>a. bind (x_hello ''BOB'') (\<lambda>b. block [
       say a T_INPUT [1, 0, 0x40, 0] ''relay before a match (dropped)'',
       say b T_JOIN (pad8 ''ALICE'') ''BOB joins ALICE'',
       say a T_INPUT [7, 0, 0x40, 0] ''INPUT fanout (untagged, 4 bytes)'',
       say b T_STATE ([0, 0] @ map of_nat [0 ..< 96]) ''96-byte STATE fanout'',
       say a T_RESYNC [5, 0] ''RESYNC fanout'',
       for_each [0 ..< 4] (\<lambda>t. block [
         x_frame a T_CRC (crc_bytes_v1 t 0x11 0x22), x_frame b T_CRC (crc_bytes_v1 t 0x11 0x22)]),
       sync ''four agreed CRC pairs'',
       x_frame a T_CRC (crc_bytes_v1 9 0xAA 0x00),
       x_frame b T_CRC (crc_bytes_v1 9 0xBB 0x00),
       sync ''a CRC mismatch'',
       for_each [100 ..< 170] (\<lambda>t. x_frame a T_CRC (crc_bytes_v1 t 0x33 0x44)),
       sync ''70 unanswered ticks (eviction)'',
       say b T_CRC (crc_bytes_v1 100 0x33 0x44) ''answer an evicted tick'',
       say b T_CRC (crc_bytes_v1 169 0x33 0x44) ''answer a surviving tick'']))"

definition v1_drops :: "unit diff" where
  "v1_drops =
     bind (x_hello ''ALICE'') (\<lambda>a. bind (x_hello ''BOB'') (\<lambda>b.
     bind (block [
       say b T_JOIN (pad8 ''ALICE'') ''BOB joins ALICE'',
       x_close b,
       sync ''partner leaves -> PEER_LEFT'',
       say a T_LIST [] ''ALICE is idle again'']) (\<lambda>_.
     bind (x_hello ''CAROL'') (\<lambda>c. bind (say c T_BYE [] ''BYE'') (\<lambda>_.
     bind (x_hello ''DAVE'') (\<lambda>d. bind (say d T_HELLO (1 # ascii ''!!'') ''a bad name drops the connection'') (\<lambda>_.
     bind (x_connect ''NOHELLO'') (\<lambda>e.
       say e T_JOIN (pad8 ''ALICE'') ''JOIN before HELLO drops''))))))))"

definition SCENARIOS_V1 :: "(string \<times> unit diff) list" where
  "SCENARIOS_V1 = [(''roster'', v1_roster_order), (''pairing'', v1_pairing), (''relay'', v1_relay_crc),
     (''drops'', v1_drops), (''framing'', s6_framing), (''limits'', s7_limits)]"

text \<open>\<open>SCENARIOS\<close> as \<open>main\<close> sets it, and the order in which all are run.\<close>

definition SCENARIOS :: "nat \<Rightarrow> nat \<Rightarrow> (string \<times> unit diff) list" where
  "SCENARIOS proto seats = (if proto = 1 then SCENARIOS_V1 else SCENARIOS_V2 seats)"

definition DEFAULT_ORDER :: "nat \<Rightarrow> string list" where
  "DEFAULT_ORDER proto = (if proto = 1 then [''roster'', ''pairing'', ''relay'', ''drops'', ''framing'']
     else [''roster'', ''rooms'', ''start'', ''relay'', ''drops'', ''framing''])"

subsection \<open>The text of a run\<close>

text \<open>\<open>f"{n:02d}"\<close>.\<close>

definition two_digits :: "nat \<Rightarrow> string" where
  "two_digits n = (if n < 10 then ''0'' else []) @ dec_digits n"

fun line_text :: "diff_line \<Rightarrow> string" where
  "line_text (Got n text l shown) = two_digits n @ '' '' @ text @ '' | '' @ l @ '' <- '' @ shown"
| "line_text (Partial n text l rest) = two_digits n @ '' '' @ text @ '' | '' @ l @ '' <- PARTIAL '' @ to_hex rest"
| "line_text (Eof n text l) = two_digits n @ '' '' @ text @ '' | '' @ l @ '' <- EOF''"

text \<open>
  \<open>LOGLINE\<close> on a line (which has no line break): in the shape a zero stands for any digit. The
  result is the record's level and message as \<open>finish\<close> writes them.
\<close>

fun shaped :: "string \<Rightarrow> string \<Rightarrow> string option" where
  "shaped [] t = Some t"
| "shaped (x # xs) (y # t) = (if (if x = CHR ''0'' then is_digit y else x = y) then shaped xs t else None)"
| "shaped (x # xs) [] = None"

definition LEVELS :: "string list" where
  "LEVELS = [''INFO'', ''WARNING'', ''DEBUG'', ''ERROR'']"

definition log_text :: "string \<Rightarrow> string option" where
  "log_text l = (case shaped ''0000-00-00 00:00:00,000 '' l of None \<Rightarrow> None
     | Some t \<Rightarrow> (case [(lv, m). lv \<leftarrow> LEVELS, Some m \<leftarrow> [literal (lv @ '' '') t]] of
         [] \<Rightarrow> None | (lv, m) # _ \<Rightarrow> Some (''log '' @ lv @ '' '' @ m)))"

text \<open>\<open>finish\<close>: the transcript and the log records among what the server wrote to stderr.\<close>

definition finish :: "diff_line list \<Rightarrow> string list \<Rightarrow> string list" where
  "finish ls raw_log = map line_text ls @ List.map_filter log_text raw_log"

definition run :: "nat \<Rightarrow> unit diff \<Rightarrow> nat list \<Rightarrow> string list \<Rightarrow> tool_exn + string list \<times> nat" where
  "run proto scenario rnd raw_log =
     (case play proto scenario rnd of Inl e \<Rightarrow> Inl e | Inr ls \<Rightarrow> Inr (normalize_log (finish ls raw_log)))"

subsection \<open>The command\<close>

text \<open>
  The parsed arguments: \<open>--python-server\<close> and \<open>--scenario\<close> may be absent, \<open>proto\<close> is 1 or 2. The
  file system is a parameter, and so is what the two runs of a scenario wrote.
\<close>

record diff_args =
  a_seats :: int
  a_proto :: nat
  a_server :: "string option"
  a_scenarios :: "string list"
  a_strict :: bool
  a_list :: bool

datatype diff_exit =
    Listed "string list"
  | NoSuchReference string
  | NeedsReference
  | NotBuilt
  | UnknownScenario string
  | SeatsPinned
  | Verdict bool  \<comment> \<open>SERVER DIFF PASS and 0, or FAIL and 1\<close>

definition reference_given :: "diff_args \<Rightarrow> bool" where
  "reference_given a \<longleftrightarrow> a_server a \<noteq> None \<and> a_server a \<noteq> Some []"

definition names_to_run :: "diff_args \<Rightarrow> string list" where
  "names_to_run a = (if a_scenarios a = [] then DEFAULT_ORDER (a_proto a) else a_scenarios a)"

definition diff_main ::
  "diff_args \<Rightarrow> (string \<Rightarrow> string) \<Rightarrow> (string \<Rightarrow> bool) \<Rightarrow> string \<Rightarrow> (string \<Rightarrow> string list \<times> string list) \<Rightarrow> diff_exit" where
  "diff_main a abspath exists relay_c outcome =
     (let known = map fst (SCENARIOS (a_proto a) (nat (a_seats a))); names = names_to_run a;
          reference = abspath (the (a_server a)) in
      if a_list a then Listed known
      else if reference_given a \<and> \<not> exists reference then NoSuchReference reference
      else if \<not> reference_given a \<and> a_proto a = 1 then NeedsReference
      else if \<not> exists relay_c then NotBuilt
      else (case filter (\<lambda>n. n \<notin> set known) names of
          n # _ \<Rightarrow> UnknownScenario n
        | [] \<Rightarrow>
            if a_proto a = 2 \<and> a_seats a \<noteq> 4 then SeatsPinned
            else Verdict (server_diff_ok (a_proto a) (a_strict a) (map (\<lambda>n. (n, outcome n)) names))))"

subsection \<open>What the scenarios do to this server\<close>

text \<open>No scenario of the differential test breaks the server: for either protocol version and every
  seed, each scenario keeps all invariants of the server's loop and never drives it into an exception
  that leaves the loop.\<close>

theorem no_scenario_breaks_the_server:
  "list_all (\<lambda>(n, scenario). (\<forall>e. fst (scenario (new_Ctx proto rnd)) \<noteq> Inl (ServerDied e)) \<and>
     loop_inv {} (srv (world (snd (scenario (new_Ctx proto rnd)))))) (SCENARIOS proto seats)"
proof -
  have "list_all (\<lambda>(n, scenario). diff_safe scenario) (SCENARIOS_V2 seats)"
    unfolding SCENARIOS_V2_def list.pred_inject prod.case s1_roster_order_def s2_rooms_def s3_go_start_def s4_relay_crc_def
      s5_drop_matrix_def s6_framing_def s7_limits_def
    by (intro conjI diff_intros list.pred_inject(1))
  moreover have "list_all (\<lambda>(n, scenario). diff_safe scenario) SCENARIOS_V1"
    unfolding SCENARIOS_V1_def list.pred_inject prod.case v1_roster_order_def v1_pairing_def v1_relay_crc_def v1_drops_def
      s6_framing_def s7_limits_def
    by (intro conjI diff_intros list.pred_inject(1))
  moreover have "loop_inv {} (srv (world (new_Ctx proto rnd)))"
    by (simp add: new_Ctx_def new_World_sound)
  ultimately show ?thesis
    by (auto simp: list_all_iff diff_safe_def SCENARIOS_def)
qed

text \<open>A console of version 1 gets nothing from this server but the end of its connection.\<close>

theorem old_consoles_are_turned_away:
  "play 1 v1_pairing rnd = Inr [Eof 1 ''hello ALICE'' ''ALICE'', Eof 2 ''hello BOB'' ''BOB'', Eof 3 ''hello CAROL'' ''CAROL'']"
  "play 1 v1_drops rnd = Inr [Eof 1 ''hello ALICE'' ''ALICE'', Eof 2 ''hello BOB'' ''BOB'', Eof 6 ''hello CAROL'' ''CAROL'',
     Eof 8 ''hello DAVE'' ''DAVE'', Eof 10 ''JOIN before HELLO drops'' ''NOHELLO'']"
  by (simp_all add: v1_pairing_def v1_drops_def diff_defs play_simps del: randrange_def cong: run_congs)

subsection \<open>What \<open>main\<close> decides\<close>

text \<open>The test passes exactly when it was not asked for a list, the reference server and the C relay
  are there, every scenario is known, the seats are the four that this server has, and every
  scenario's two runs compare equal (with the exception for \<open>framing\<close>).\<close>

theorem diff_passes_exactly:
  "diff_main a abspath exists relay_c outcome = Verdict True \<longleftrightarrow>
     \<not> a_list a \<and> (if reference_given a then exists (abspath (the (a_server a))) else a_proto a \<noteq> 1) \<and> exists relay_c \<and>
     (a_proto a = 2 \<longrightarrow> a_seats a = 4) \<and>
     (\<forall>n \<in> set (names_to_run a). n \<in> fst ` set (SCENARIOS (a_proto a) (nat (a_seats a))) \<and>
        (case outcome n of (py, c) \<Rightarrow> if n = ''limits'' then mset py = mset c
           else py = c \<or> n = ''framing'' \<and> a_proto a = 2 \<and> \<not> a_strict a))"
proof -
  let ?names = "names_to_run a" and ?known = "map fst (SCENARIOS (a_proto a) (nat (a_seats a)))"
  have ok: "server_diff_ok (a_proto a) (a_strict a) (map (\<lambda>n. (n, outcome n)) ?names) \<longleftrightarrow>
      (\<forall>n \<in> set ?names. case outcome n of (py, c) \<Rightarrow> if n = ''limits'' then mset py = mset c
           else py = c \<or> n = ''framing'' \<and> a_proto a = 2 \<and> \<not> a_strict a)"
    unfolding differential_verdict by (auto simp: list_all_iff split: prod.splits)
  have known: "filter (\<lambda>n. n \<notin> set ?known) ?names = [] \<longleftrightarrow> (\<forall>n \<in> set ?names. n \<in> fst ` set (SCENARIOS (a_proto a) (nat (a_seats a))))"
    by (simp add: filter_empty_conv)
  have "diff_main a abspath exists relay_c outcome = Verdict True \<longleftrightarrow>
      \<not> a_list a \<and> (if reference_given a then exists (abspath (the (a_server a))) else a_proto a \<noteq> 1) \<and> exists relay_c \<and>
      (a_proto a = 2 \<longrightarrow> a_seats a = 4) \<and> filter (\<lambda>n. n \<notin> set ?known) ?names = [] \<and>
      server_diff_ok (a_proto a) (a_strict a) (map (\<lambda>n. (n, outcome n)) ?names)"
    unfolding diff_main_def Let_def by (simp split: list.split)
  then show ?thesis
    unfolding known ok ball_conj_distrib .
qed

text \<open>The scenario \<open>limits\<close> is only run when asked for by its name.\<close>

lemma limits_not_by_default: "a_scenarios a = [] \<Longrightarrow> ''limits'' \<notin> set (names_to_run a)"
  by (simp add: names_to_run_def DEFAULT_ORDER_def)

lemma default_order_known: "set (DEFAULT_ORDER proto) \<subseteq> fst ` set (SCENARIOS proto seats)"
  by (simp add: DEFAULT_ORDER_def SCENARIOS_def SCENARIOS_V1_def SCENARIOS_V2_def)

subsection \<open>What a run writes\<close>

lemma shaped_append: "shaped xs (ys @ t) = (case shaped xs ys of None \<Rightarrow> None | Some u \<Rightarrow> Some (u @ t))"
  if "length ys = length xs"
  using that by (induction xs ys rule: shaped.induct) auto

text \<open>A log record is written without its time: of a line with any well-formed time stamp only the
  level and the message are left.\<close>

theorem log_text_forgets_time:
  assumes "shaped ''0000-00-00 00:00:00,000 '' stamp = Some []" and "length stamp = 24" and "lv \<in> set LEVELS"
  shows "log_text (stamp @ lv @ '' '' @ m) = Some (''log '' @ lv @ '' '' @ m)"
proof -
  have "shaped ''0000-00-00 00:00:00,000 '' (stamp @ lv @ '' '' @ m) = Some (lv @ '' '' @ m)"
    using assms(1,2) by (simp add: shaped_append del: shaped.simps)
  then show ?thesis
    using assms(3) by (auto simp: log_text_def LEVELS_def)
qed

text \<open>A version 1 run, as \<open>compare\<close> gets it: the text of the transcript, then the records.\<close>

lemma turned_away_run:
  "run 1 v1_pairing rnd [''2024-05-01 10:20:30,456 INFO listening on :9111'', ''Traceback''] =
     Inr ([''01 hello ALICE | ALICE <- EOF'', ''02 hello BOB | BOB <- EOF'', ''03 hello CAROL | CAROL <- EOF'',
       ''log INFO listening on :PORT''], 0)"
  unfolding run_def old_consoles_are_turned_away
  by (simp add: finish_def log_text_def LEVELS_def two_digits_def dec_digits.simps
    hex_upper_def is_digit_def normalize_log_def normalize_line_def c_only_def seed_re_def port_re_def listen_re_def digits_def
    map_filter_simps)

end
