(* ===== verification/Ghost_Peer.thy ===== *)
theory Ghost_Peer
  imports Bench_Correct
begin

text \<open>
  The scripted opponent \<open>tools/ghost_peer.py\<close>: how it takes frames off its buffer, what it answers,
  and its loop, as a program of the test bench. What is printed is left out. The clock decides how
  many rounds the loop makes and in which of them a LIST is due; both are a parameter.
\<close>

subsection \<open>Frames and answers\<close>

definition IDLE :: byte where "IDLE = 0x40"

record Ghost_args =
  ghost_name :: pystr
  mirror :: bool
  pitch_at :: int
  want_ticks :: int

record Ghost =
  gbuf :: bytes
  matched :: bool
  inputs :: nat
  crcs :: nat
  max_tick :: nat
  crc_ticks :: "(nat \<times> nat) list"

definition new_Ghost :: Ghost where
  "new_Ghost = \<lparr>gbuf = [], matched = False, inputs = 0, crcs = 0, max_tick = 0, crc_ticks = []\<rparr>"

text \<open>
  The head of the inner loop. Behind a length byte 0 it takes the next byte as a type, without
  removing it, and raises IndexError (\<open>BadLength\<close>) where there is none.
\<close>

definition ghost_next :: "bytes \<Rightarrow> scan_result" where
  "ghost_next b =
     (case b of [] \<Rightarrow> Incomplete
      | len # _ \<Rightarrow>
         (let n = unat len + 1
          in if length b < n then Incomplete
             else if length b < 2 then BadLength 0
             else Frame (b ! 1) (take (n - 2) (drop 2 b)) (drop n b)))"

text \<open>The idle input, or the pitch: keypad 5 pressed for a tick and held for three, every 256 ticks.\<close>

definition ghost_cell :: "Ghost_args \<Rightarrow> nat \<Rightarrow> byte" where
  "ghost_cell a tick =
     (if pitch_at a \<noteq> 0 \<and> pitch_at a \<le> int tick
      then (let ph = (int tick - pitch_at a) mod 256
            in if ph = 0 then 0x85 else if ph < 4 then 0xC5 else IDLE)
      else IDLE)"

definition ghost_reply :: "Ghost_args \<Rightarrow> bytes \<Rightarrow> bytes" where
  "ghost_reply a p =
     take 2 p @ (if mirror a then drop 2 p
       else ghost_cell a (le16 (p ! 0) (p ! 1)) # replicate (max (length p - 3) 1) 0)"

text \<open>The search of a lobby list for an idle player (status 0) that is not the ghost itself.\<close>

primrec ghost_pick :: "nat \<Rightarrow> bytes \<Rightarrow> bytes \<Rightarrow> tool_exn + bytes option" where
  "ghost_pick 0 own es = Inr None"
| "ghost_pick (Suc k) own es =
     (let nm = rstrip {0} (take 8 es) in
      if length es < 9 then Inl (PyE IndexError)
      else if es ! 8 = 0 \<and> nm \<noteq> own
      then (if decode_name nm = None then Inl NotAscii else Inr (Some nm))
      else ghost_pick k own (drop 9 es))"

text \<open>
  One frame: the frames sent in answer, and the new state or the exception that ends the program.
\<close>

definition ghost_send :: "byte \<Rightarrow> bytes \<Rightarrow> Ghost \<Rightarrow> bytes list \<times> (tool_exn + Ghost)" where
  "ghost_send t p g = (case client_frame t p of Inl e \<Rightarrow> ([], Inl (PyE e)) | Inr f \<Rightarrow> ([f], Inr g))"

definition ghost_frame :: "Ghost_args \<Rightarrow> byte \<Rightarrow> bytes \<Rightarrow> Ghost \<Rightarrow> bytes list \<times> (tool_exn + Ghost)" where
  "ghost_frame a t p g =
     (if t = T_LOBBY \<and> \<not> matched g then
        (case p of [] \<Rightarrow> ([], Inl (PyE IndexError))
         | k # es \<Rightarrow> (case ghost_pick (unat k) (map of_nat (ghost_name a)) es of
             Inl e \<Rightarrow> ([], Inl e)
           | Inr None \<Rightarrow> ([], Inr g)
           | Inr (Some nm) \<Rightarrow> ghost_send T_JOIN nm g))
      else if t = T_START then
        (if length p < 4 then ([], Inl (PyE IndexError))
         else if decode_name (take 8 (drop 4 p)) = None then ([], Inl NotAscii)
         else ([], Inr (g\<lparr>matched := True\<rparr>)))
      else if t = T_INPUT then
        (if length p < 2 then ([], Inl (PyE IndexError))
         else ghost_send T_INPUT (ghost_reply a p)
           (g\<lparr>inputs := inputs g + 1, max_tick := max (max_tick g) (le16 (p ! 0) (p ! 1))\<rparr>))
      else if t = T_CRC then
        (if length p < 4 then ([], Inl (PyE IndexError))
         else ([], Inr (g\<lparr>crcs := crcs g + 1,
           crc_ticks := crc_ticks g @ [(le16 (p ! 0) (p ! 1), le16 (p ! 2) (p ! 3))]\<rparr>)))
      else ([], Inr g))"

text \<open>The inner loop. Every round that goes on removes at least one byte.\<close>

primrec ghost_loop :: "nat \<Rightarrow> Ghost_args \<Rightarrow> Ghost \<Rightarrow> bytes list \<times> (tool_exn + Ghost)" where
  "ghost_loop 0 a g = ([], Inr g)"
| "ghost_loop (Suc n) a g =
     (case ghost_next (gbuf g) of
        Incomplete \<Rightarrow> ([], Inr g)
      | BadLength _ \<Rightarrow> ([], Inl (PyE IndexError))
      | Frame t p rest \<Rightarrow> (case ghost_frame a t p (g\<lparr>gbuf := rest\<rparr>) of
          (out, Inl e) \<Rightarrow> (out, Inl e)
        | (out, Inr g') \<Rightarrow> (case ghost_loop n a g' of (later, r) \<Rightarrow> (out @ later, r))))"

definition ghost_chunk :: "Ghost_args \<Rightarrow> bytes \<Rightarrow> Ghost \<Rightarrow> bytes list \<times> (tool_exn + Ghost)" where
  "ghost_chunk a data g = ghost_loop (Suc (length (gbuf g @ data))) a (g\<lparr>gbuf := gbuf g @ data\<rparr>)"

subsection \<open>The session\<close>

text \<open>
  One entry of the list for each round before the deadline: whether more than a second has passed
  since the last LIST.
\<close>

primrec ghost_session :: "bool list \<Rightarrow> Ghost_args \<Rightarrow> cid \<Rightarrow> Ghost \<Rightarrow> Ghost tool" where
  "ghost_session [] a c g = return g"
| "ghost_session (due # rounds) a c g =
     bind (only_if (\<not> matched g \<and> due) (send_frame c T_LIST [])) (\<lambda>_.
     bind (catch (bind (recv c) (\<lambda>d. return (Some d))) (\<lambda>e. if e = Timeout then return None else raise e)) (\<lambda>chunk.
       case chunk of
         None \<Rightarrow> ghost_session rounds a c g
       | Some d \<Rightarrow>
           if d = [] then return g
           else (case ghost_chunk a d g of (out, r) \<Rightarrow>
             bind (for_each out (cli_send c)) (\<lambda>_.
               case r of Inl e \<Rightarrow> raise e
               | Inr g' \<Rightarrow> if want_ticks a \<le> int (max_tick g') then return g' else ghost_session rounds a c g'))))"

definition ghost_ok :: "Ghost_args \<Rightarrow> Ghost \<Rightarrow> bool" where
  "ghost_ok a g \<longleftrightarrow> want_ticks a \<le> int (max_tick g) \<and> 0 < crcs g"

definition ghost_main :: "bool list \<Rightarrow> Ghost_args \<Rightarrow> bool tool" where
  "ghost_main rounds a =
     bind (connect (ghost_name a)) (\<lambda>c.
     bind (send_frame c T_HELLO (1 # map of_nat (ghost_name a))) (\<lambda>_.
     bind (ghost_session rounds a c new_Ghost) (\<lambda>g. return (ghost_ok a g))))"

subsection \<open>Every tick is answered\<close>

lemma ghost_next_cli:
  "cli_next b = Frame t p rest \<Longrightarrow> ghost_next b = Frame t p rest"
  "cli_next b = Incomplete \<Longrightarrow> ghost_next b = Incomplete"
proof -
  show "cli_next b = Frame t p rest \<Longrightarrow> ghost_next b = Frame t p rest"
    using unat_frame_len [of "Suc (length p)"]
    by (auto simp: cli_next_Frame ghost_next_def Let_def simp del: of_nat_Suc)
  show "cli_next b = Incomplete \<Longrightarrow> ghost_next b = Incomplete"
    by (auto simp: cli_next_def ghost_next_def Let_def split: list.splits if_splits)
qed

text \<open>The frames of a running match: no START, inputs and checksums as long as the ghost reads them.\<close>

definition match_frame :: "byte \<times> bytes \<Rightarrow> bool" where
  "match_frame m \<longleftrightarrow> fst m \<noteq> T_START \<and> (fst m = T_INPUT \<longrightarrow> 2 \<le> length (snd m)) \<and>
     (fst m = T_CRC \<longrightarrow> 4 \<le> length (snd m))"

definition payloads :: "byte \<Rightarrow> (byte \<times> bytes) list \<Rightarrow> bytes list" where
  "payloads t ms = map snd (filter (\<lambda>m. fst m = t) ms)"

definition tick_of :: "bytes \<Rightarrow> nat" where
  "tick_of p = le16 (p ! 0) (p ! 1)"

lemma payloads_simps [simp]:
  "payloads t [] = []" "payloads t (m # ms) = (if fst m = t then snd m # payloads t ms else payloads t ms)"
  by (simp_all add: payloads_def)

text \<open>The state after the frames \<open>ms\<close> of a match, with \<open>rest\<close> left over.\<close>

definition played :: "(byte \<times> bytes) list \<Rightarrow> bytes \<Rightarrow> Ghost \<Rightarrow> Ghost" where
  "played ms rest g = g\<lparr>gbuf := rest,
     inputs := inputs g + length (payloads T_INPUT ms),
     max_tick := foldl max (max_tick g) (map tick_of (payloads T_INPUT ms)),
     crcs := crcs g + length (payloads T_CRC ms),
     crc_ticks := crc_ticks g @ map (\<lambda>p. (tick_of p, le16 (p ! 2) (p ! 3))) (payloads T_CRC ms)\<rparr>"

lemma length_ghost_reply:
  "2 \<le> length p \<Longrightarrow> length (ghost_reply a p) = (if mirror a then length p else max (length p) 4)"
  by (auto simp: ghost_reply_def)

lemma client_frame_fits: "length p < 255 \<Longrightarrow> client_frame t p = Inr (of_nat (Suc (length p)) # t # p)"
  by (simp add: client_frame_def py_bytes_def)


lemma ghost_answers:
  assumes "2 \<le> length p" and "length p < 255"
  shows "ghost_send T_INPUT (ghost_reply a p) g =
    ([of_nat (Suc (length (ghost_reply a p))) # T_INPUT # ghost_reply a p], Inr g)"
  using assms length_ghost_reply [of p a] by (simp add: ghost_send_def client_frame_fits)

lemma ghost_frame_match:
  assumes "matched g" and "match_frame (t, p)" and "length p < 255"
  shows "ghost_frame a t p (g\<lparr>gbuf := rest\<rparr>) =
    (map (\<lambda>p. of_nat (Suc (length (ghost_reply a p))) # T_INPUT # ghost_reply a p) (payloads T_INPUT [(t, p)]),
     Inr (played [(t, p)] rest g))"
proof -
  have "g\<lparr>gbuf := rest\<rparr> = played [(t, p)] rest g" if "t \<noteq> T_INPUT" "t \<noteq> T_CRC"
    using that by (cases g) (simp add: played_def)
  then show ?thesis
    using assms ghost_answers [of p a]
    by (auto simp: ghost_frame_def match_frame_def played_def tick_of_def T_defs)
qed

lemma played_Cons: "played ms rest (played [m] r g) = played (m # ms) rest g"
  by (simp add: played_def)

lemma ghost_loop_match:
  assumes "frames ms = Inr stream" and "cli_next rest = Incomplete" and "\<forall>m \<in> set ms. match_frame m"
    and "matched g" and "gbuf g = stream @ rest" and "length (gbuf g) < n"
  shows "ghost_loop n a g =
    (map (\<lambda>p. of_nat (Suc (length (ghost_reply a p))) # T_INPUT # ghost_reply a p) (payloads T_INPUT ms),
     Inr (played ms rest g))"
  using assms
proof (induction ms arbitrary: stream g n)
  case Nil
  then have "gbuf g = rest" "g = played [] rest g"
    by (cases g; simp add: played_def)+
  with Nil show ?case
    by (cases n) (simp_all add: ghost_next_cli(2))
next
  case (Cons m ms)
  then obtain b bs where b: "frame (fst m) (snd m) = Inr b" "frames ms = Inr bs" "stream = b @ bs"
    by (auto split: sum.splits)
  obtain k where n: "n = Suc k"
    using Cons.prems(6) by (cases n) auto
  have buf: "cli_next (gbuf g) = Frame (fst m) (snd m) (bs @ rest)"
    using cli_next_frame [OF b(1)] b(3) Cons.prems(5) by simp
  then have short: "length (snd m) < 255" "length (bs @ rest) < k"
    using Cons.prems(6) n by (auto simp: cli_next_Frame)
  let ?g = "played [m] (bs @ rest) g"
  have "ghost_loop k a ?g =
      (map (\<lambda>p. of_nat (Suc (length (ghost_reply a p))) # T_INPUT # ghost_reply a p) (payloads T_INPUT ms),
       Inr (played ms rest ?g))"
    using Cons.prems(2-4) short(2) by (intro Cons.IH [OF b(2)]) (simp_all add: played_def)
  then show ?case
    using ghost_frame_match [of g "fst m" "snd m" a "bs @ rest"] Cons.prems(3,4) short(1) ghost_next_cli(1) [OF buf]
    by (simp add: n played_Cons)
qed




subsection \<open>The ghost and the repository's server\<close>

definition hung_up :: "World \<Rightarrow> cid \<Rightarrow> bool" where
  "hung_up w c \<longleftrightarrow> c \<notin> set (clients (srv w)) \<and> inbox w c = []"

lemma session_hung_up:
  "hung_up w c \<Longrightarrow> ghost_session rounds a c new_Ghost w = (Inr new_Ghost, w)"
  by (cases rounds)
    (auto simp: hung_up_def run_simps recv_def send_frame_def client_frame_fits cli_send_def new_Ghost_def)

lemma hello_v1_dropped:
  assumes "next_frame f = Frame T_HELLO (1 # n) [] \<or> (\<exists>l. next_frame f = BadLength l)" and "f \<noteq> []"
  shows "\<exists>v w. connect l (new_World d ago rnd) = (Inr 0, v) \<and> cli_send 0 f v = (Inr (), w) \<and> hung_up w 0"
  using assms
  by (elim disjE exE)
    (simp_all add: hung_up_def connect_def cli_send_def serving_def new_World_def ready_sockets_def deliver_wire_def
      arrive_def exec_simps del: next_frame_def randrange_def cong: run_congs)

text \<open>The ghost cannot play against the repository's own server: whatever its arguments (a name
  of up to 253 characters), it says HELLO with version 1 and is dropped, so the first thing it
  receives is the end of the stream, and it ends with GHOST FAIL; with a longer name it does not
  get that far.\<close>

theorem ghost_never_passes:
  "fst (ghost_main rounds a (new_World d ago rnd)) =
     (if length (ghost_name a) \<le> 253 then Inr False else Inl (PyE ValueError))"
proof (cases "length (ghost_name a) \<le> 253")
  case True
  let ?p = "1 # map of_nat (ghost_name a) :: bytes"
  let ?f = "of_nat (Suc (length ?p)) # T_HELLO # ?p"
  have f: "client_frame T_HELLO ?p = Inr ?f"
    using True client_frame_fits [of ?p T_HELLO] by simp
  have "next_frame ?f = Frame T_HELLO ?p [] \<or> (\<exists>l. next_frame ?f = BadLength l)"
  proof (cases "length ?p < 200")
    case False
    then have "next_frame ?f = BadLength (Suc (length ?p))"
      using True unat_frame_len [of "Suc (length ?p)"] by (simp add: next_frame_BadLength del: of_nat_Suc)
    then show ?thesis by blast
  qed (use next_frame_complete [of ?p T_HELLO "[]"] in simp)
  then obtain v w where w: "connect (ghost_name a) (new_World d ago rnd) = (Inr 0, v)" "cli_send 0 ?f v = (Inr (), w)" "hung_up w 0"
    using hello_v1_dropped [of ?f "map of_nat (ghost_name a)" "ghost_name a" d ago rnd] by auto
  then have "ghost_main rounds a (new_World d ago rnd) = (Inr (ghost_ok a new_Ghost), w)"
    using session_hung_up [OF w(3), of rounds a] f
    by (simp add: ghost_main_def send_frame_def run_simps)
  with True show ?thesis
    by (simp add: ghost_ok_def new_Ghost_def)
next
  case False
  then have "client_frame T_HELLO (1 # map of_nat (ghost_name a)) = Inl ValueError"
    by (simp add: client_frame_def py_bytes_def)
  moreover obtain w where "connect (ghost_name a) (new_World d ago rnd) = (Inr 0, w)"
    by (simp add: connect_def serving_def new_World_def ready_sockets_def deliver_wire_def exec_simps cong: run_congs)
  ultimately show ?thesis
    using False by (simp add: ghost_main_def send_frame_def run_simps)
qed

end
