(* ===== verification/Bench_Load.thy ===== *)
theory Bench_Load
  imports Bench_Correct
begin

text \<open>
  The tools that put load on a server, as programs of the test bench: the idle clients of
  \<open>test/lobby_idlers.py\<close>, and the load of \<open>tools/soak.py\<close> with its summary. Its main
  loop with the samples of the server's memory is in \<open>Soak_Run\<close>.
\<close>

subsection \<open>Lobby idlers\<close>

record Idler_args =
  idler_names :: "pystr list"
  pair :: bool
  go_name :: "pystr option"
  go_delay :: rat
  join_guest :: "pystr option"

text \<open>The variables of the main loop; \<open>goer\<close> is reset to None once it has sent GO.\<close>

record Idlers =
  socks :: "(pystr \<times> cid) list"
  goer :: "cid option"
  hunter :: "cid option"
  joined :: bool
  go_at :: "rat option"

text \<open>One frame off a buffer: the body (empty behind a length byte 0) and the rest.\<close>

definition idler_next :: "bytes \<Rightarrow> (bytes \<times> bytes) option" where
  "idler_next b =
     (case b of [] \<Rightarrow> None
      | len # _ \<Rightarrow>
         (let need = unat len + 1
          in if 2 \<le> length b \<and> need \<le> length b then Some (take (need - 1) (drop 1 b), drop need b) else None))"

text \<open>The hunt: the first entry whose name starts with the prefix and whose top bit is clear.\<close>

primrec hunter_pick :: "nat \<Rightarrow> pystr \<Rightarrow> bytes \<Rightarrow> pyexn + bytes option" where
  "hunter_pick 0 pre es = Inr None"
| "hunter_pick (Suc k) pre es =
     (let e = take 9 es; nm = decode_ascii_replace (rstrip {0} (take 8 e)) in
      if take (length pre) nm = pre then
        (if length e < 9 then Inl IndexError
         else if e ! 8 AND 0x80 = 0 then Inr (Some (take 8 e)) else hunter_pick k pre (drop 9 es))
      else hunter_pick k pre (drop 9 es))"

text \<open>What the goer and the hunter do with a frame of theirs; the others only drain.\<close>

definition goer_frame :: "rat \<Rightarrow> rat \<Rightarrow> bytes \<Rightarrow> Idlers \<Rightarrow> pyexn + Idlers" where
  "goer_frame now wait body i =
     (case body of [] \<Rightarrow> Inl IndexError
      | t # p \<Rightarrow>
         if t \<noteq> T_ROOM then Inr i
         else (case p of [] \<Rightarrow> Inl IndexError
           | n # _ \<Rightarrow> Inr (if 2 \<le> n \<and> go_at i = None then i\<lparr>go_at := Some (now + wait)\<rparr> else i)))"

definition hunter_frame :: "pystr \<Rightarrow> bytes \<Rightarrow> Idlers \<Rightarrow> pyexn + bytes option" where
  "hunter_frame pre body i =
     (case body of [] \<Rightarrow> Inl IndexError
      | t # p \<Rightarrow>
         if t \<noteq> T_LOBBY \<or> joined i then Inr None
         else (case p of [] \<Rightarrow> Inl IndexError | n # es \<Rightarrow> hunter_pick (unat n) pre es))"

definition idler_frame :: "Idler_args \<Rightarrow> rat \<Rightarrow> cid \<Rightarrow> bytes \<Rightarrow> Idlers \<Rightarrow> Idlers tool" where
  "idler_frame a now c body i =
     bind (if goer i = Some c then attempt PyE (goer_frame now (go_delay a) body i) else return i) (\<lambda>i.
     case join_guest a of
       None \<Rightarrow> return i
     | Some pre \<Rightarrow>
         if hunter i = Some c then
           bind (attempt PyE (hunter_frame pre body i)) (\<lambda>pick.
           case pick of None \<Rightarrow> return i
           | Some nm \<Rightarrow> bind (send_frame c T_JOIN nm) (\<lambda>_. return (i\<lparr>joined := True\<rparr>)))
         else return i)"

text \<open>The \<open>while\<close> loop over one buffer; every round removes at least one byte.\<close>

primrec idler_frames :: "nat \<Rightarrow> Idler_args \<Rightarrow> rat \<Rightarrow> cid \<Rightarrow> Idlers \<Rightarrow> Idlers tool" where
  "idler_frames 0 a now c i = return i"
| "idler_frames (Suc n) a now c i = reading (\<lambda>w.
     case idler_next (buf w c) of
       None \<Rightarrow> return i
     | Some (body, rest) \<Rightarrow>
         bind (modify (\<lambda>w. w\<lparr>buf := (buf w)(c := rest)\<rparr>)) (\<lambda>_.
         bind (idler_frame a now c body i) (idler_frames n a now c)))"

text \<open>One socket: nothing to receive is skipped; the end of the stream adds nothing to the buffer.\<close>

definition idler_poll :: "Idler_args \<Rightarrow> rat \<Rightarrow> cid \<Rightarrow> Idlers \<Rightarrow> Idlers tool" where
  "idler_poll a now c i =
     bind (catch (bind (recv c) (\<lambda>d. return (Some d))) (\<lambda>e. if e = Timeout then return None else raise e)) (\<lambda>got.
     case got of None \<Rightarrow> return i
     | Some d \<Rightarrow>
         bind (modify (\<lambda>w. w\<lparr>buf := (buf w)(c := buf w c @ d)\<rparr>)) (\<lambda>_.
         reading (\<lambda>w. idler_frames (Suc (length (buf w c))) a now c i)))"

primrec idler_polls :: "Idler_args \<Rightarrow> rat \<Rightarrow> cid list \<Rightarrow> Idlers \<Rightarrow> Idlers tool" where
  "idler_polls a now [] i = return i"
| "idler_polls a now (c # cs) i = bind (idler_poll a now c i) (idler_polls a now cs)"

text \<open>One round of the main loop at time \<open>now\<close>.\<close>

definition idler_round :: "Idler_args \<Rightarrow> rat \<Rightarrow> Idlers \<Rightarrow> Idlers tool" where
  "idler_round a now i =
     bind (idler_polls a now (map snd (socks i)) i) (\<lambda>i.
     bind (case (goer i, go_at i) of
         (Some c, Some t) \<Rightarrow>
           if t \<le> now then bind (send_frame c T_GO []) (\<lambda>_. return (i\<lparr>go_at := None, goer := None\<rparr>)) else return i
       | _ \<Rightarrow> return i) (\<lambda>i.
     case hunter i of
       Some c \<Rightarrow> if joined i then return i else bind (send_frame c T_LIST []) (\<lambda>_. return i)
     | None \<Rightarrow> return i))"

primrec idlers_connect :: "pystr list \<Rightarrow> (pystr \<times> cid) list \<Rightarrow> (pystr \<times> cid) list tool" where
  "idlers_connect [] ss = return ss"
| "idlers_connect (n # ns) ss = bind (new_Cli n 2) (\<lambda>c. idlers_connect ns (AList.update n c ss))"

definition idlers_start :: "Idler_args \<Rightarrow> Idlers tool" where
  "idlers_start a =
     bind (idlers_connect (idler_names a) []) (\<lambda>ss.
     bind (case idler_names a of
         joiner # target # _ \<Rightarrow> only_if (pair a) (
           bind (attempt PyE (encode_ascii target)) (\<lambda>nm. block [
             send_frame (the (map_of ss joiner)) T_JOIN (ljust 8 0 nm),
             send_frame (the (map_of ss target)) T_GO []]))
       | _ \<Rightarrow> return ()) (\<lambda>_.
     return \<lparr>socks = ss, goer = (case go_name a of None \<Rightarrow> None | Some n \<Rightarrow> map_of ss n),
       hunter = (if join_guest a = None then None else map_of ss (last (idler_names a))),
       joined = False, go_at = None\<rparr>))"

primrec idlers_run :: "Idler_args \<Rightarrow> rat list \<Rightarrow> Idlers \<Rightarrow> Idlers tool" where
  "idlers_run a [] i = return i"
| "idlers_run a (now # nows) i = bind (idler_round a now i) (idlers_run a nows)"

subsection \<open>Soak\<close>

text \<open>\<open>f"IDLE{i:02d}"\<close>.\<close>

fun decimal :: "nat \<Rightarrow> pystr" where
  "decimal n = (if n < 10 then [48 + n] else decimal (n div 10) @ [48 + n mod 10])"

declare decimal.simps [simp del]

definition idle_name :: "nat \<Rightarrow> pystr" where
  "idle_name i = [73, 68, 76, 69] @ (if i < 10 then 48 # decimal i else decimal i)"

definition MATCHA :: pystr where "MATCHA = [77, 65, 84, 67, 72, 65]"
definition MATCHB :: pystr where "MATCHB = [77, 65, 84, 67, 72, 66]"

definition soak_setup :: "nat \<Rightarrow> (cid \<times> cid) tool" where
  "soak_setup idle =
     bind probe (\<lambda>_.
     bind (new_Cli MATCHA 2) (\<lambda>a. bind (new_Cli MATCHB 2) (\<lambda>b.
     bind (block [
       send_frame b T_JOIN (pad MATCHA),
       send_frame a T_GO [],
       for_each [0 ..< idle] (\<lambda>i. bind (new_Cli (idle_name i) 2) (\<lambda>_. return ()))])
     (\<lambda>_. return (a, b)))))"

text \<open>One game tick of the live match, and the sockets drained.\<close>

definition soak_tick :: "cid \<Rightarrow> cid \<Rightarrow> nat \<Rightarrow> unit tool" where
  "soak_tick a b tick = (let lo = of_nat (tick AND 0xFF); hi = of_nat (drop_bit 8 tick) in block [
     send_frame a T_INPUT [0, lo, hi, 0x40, 0],
     send_frame a T_CRC [0, lo, hi, 0x11, 0x22],
     send_frame b T_INPUT [1, lo, hi, 0x20, 0],
     send_frame b T_CRC [1, lo, hi, 0x11, 0x22],
     modify (\<lambda>w. w\<lparr>inbox := (\<lambda>_. [])\<rparr>)])"

text \<open>The growth over the run: the mean of the last third of the samples less that of the first.\<close>

definition mean_of :: "nat \<Rightarrow> nat list \<Rightarrow> rat" where
  "mean_of k xs = of_nat (sum_list xs) / of_nat k"

definition growth :: "nat list \<Rightarrow> rat" where
  "growth rss = (let third = max 1 (length rss div 3)
     in mean_of third (drop (length rss - third) rss) - mean_of third (take third rss))"


subsection \<open>The hunter joins a joinable player\<close>

lemma top_bit: "(of_int k :: byte) AND 0x80 = 0 \<longleftrightarrow> k < 128" if "0 \<le> k" "k < 256"
proof -
  have "(of_int k :: byte) AND 0x80 = 0 \<longleftrightarrow> \<not> bit (of_int k :: byte) 7"
    using and_exp_eq_0_iff_not_bit [of "of_int k :: byte" 7] by simp
  also have "\<dots> \<longleftrightarrow> \<not> odd (k div 128)"
    by (simp add: bit_word_of_int_iff bit_iff_odd [of k])
  also have "\<dots> \<longleftrightarrow> k < 128"
    using that by (cases "k < 128") (simp_all add: div_pos_geq)
  finally show ?thesis .
qed

lemma find_map:
  "(\<And>d. d \<in> set ds \<Longrightarrow> P (f d) = Q d) \<Longrightarrow> find P (map f ds) = map_option f (find Q ds)"
  by (induction ds) auto

lemma hunter_pick_entries:
  assumes "\<forall>(n, st) \<in> set es. \<forall>ch \<in> set n. ch < 128 \<and> ch \<noteq> 0" and "\<forall>(n, st) \<in> set es. length n \<le> 8"
  shows "hunter_pick (length es) pre (entries es) =
    Inr (map_option (\<lambda>x. pad (fst x)) (find (\<lambda>(n, st). take (length pre) n = pre \<and> st AND 0x80 = 0) es))"
  using assms
proof (induction es)
  case (Cons x es)
  obtain n st where x: "x = (n, st)"
    by (cases x)
  have ent: "entries (x # es) = pad n @ st # entries es"
    by (simp add: entries_def x)
  have e: "take 9 (pad n @ st # entries es) = pad n @ [st]" "drop 9 (pad n @ st # entries es) = entries es"
    by (simp_all add: length_pad)
  have "decode_name (pad n) = Some n"
    using Cons.prems by (intro decode_padded) (auto simp: x)
  then have nm: "rstrip {0} (pad n) = b \<Longrightarrow> map unat b = n \<and> (\<forall>y \<in> set b. unat y < 128)" for b
    by (auto simp: decode_name_def Let_def split: if_splits)
  then have "decode_ascii_replace (rstrip {0} (pad n)) = n"
    using nm [OF refl] by (simp add: decode_ascii_replace_def cong: map_cong)
  with Cons e show ?case
    unfolding ent hunter_pick.simps Let_def length_Cons by (simp add: x length_pad nth_append)
qed simp

text \<open>C40: the idle hunter joins a joinable player: from the lobby list that the server sends it in any
  well-formed state it picks the first listed player whose name starts with the prefix and whose
  JOIN the server would accept, and sends that name as the server wrote it; it picks nobody
  exactly when there is none.\<close>

theorem hunter_joins_a_joinable_player:
  assumes "quiet s" and "\<not> joined i"
  shows "hunter_frame pre (T_LOBBY # lobby_payload s e) i =
    Inr (map_option (\<lambda>d. pad (the (name (client_in s d))))
      (find (\<lambda>d. take (length pre) (the (name (client_in s d))) = pre \<and> joinable s e d) (listed_for s e)))"
proof -
  let ?L = "lobby_lines s e"
  have named: "\<exists>n. name (client_in s d) = Some n \<and> valid_name n" if "d \<in> set (listed_for s e)" for d
    using listed_named [OF assms(1) that] srv_inv_names(4) [OF assms(1)] by blast
  have joins: "(of_int (status_byte s d) :: byte) AND 0x80 = 0 \<longleftrightarrow> joinable s e d" if "d \<in> set (listed_for s e)" for d
  proof -
    have "d \<noteq> e"
      using that by (auto simp: listed_for_def dest: in_set_takeD)
    then show ?thesis
      using status_joinable [OF assms(1), of d e] named [OF that] top_bit status_byte_range [OF assms(1), of d] by auto
  qed
  have "\<forall>(n, st) \<in> set ?L. \<forall>ch \<in> set n. ch < 128 \<and> ch \<noteq> 0" "\<forall>(n, st) \<in> set ?L. length n \<le> 8"
    using named valid_name_ascii by (fastforce simp: lobby_lines_def valid_name_def)+
  then have "hunter_pick (length ?L) pre (entries ?L) =
      Inr (map_option (\<lambda>x. pad (fst x)) (find (\<lambda>(n, st). take (length pre) n = pre \<and> st AND 0x80 = 0) ?L))"
    by (rule hunter_pick_entries)
  also have "find (\<lambda>(n, st). take (length pre) n = pre \<and> st AND 0x80 = 0) ?L =
      map_option (\<lambda>d. (the (name (client_in s d)), of_int (status_byte s d)))
        (find (\<lambda>d. take (length pre) (the (name (client_in s d))) = pre \<and> joinable s e d) (listed_for s e))"
    unfolding lobby_lines_def by (rule find_map) (use joins in simp)
  finally show ?thesis
    using assms(2) length_listed_for [of s e] unat_frame_len [of "length (listed_for s e)"]
    by (simp add: hunter_frame_def lobby_payload_def lobby_lines_def option.map_comp comp_def)
qed

theorem hunter_joins_a_joinable_player_witness:
  "hunter_frame [65] (T_LOBBY # lobby_payload (srv demo_world) 1) \<lparr>socks = [], goer = None, hunter = Some 1, joined = False, go_at = None\<rparr> =
     Inr (Some (pad ALICE))"
proof -
  have demo: "console_idle demo_world 1" "by_name (srv demo_world) = [(ALICE, 0), (EVE, 1)]"
    "name (client_in (srv demo_world) 0) = Some ALICE" "room (client_in (srv demo_world) 0) = None"
    using demo_world_run by (auto simp: demo_world_def)
  have "listed_for (srv demo_world) 1 = [0]"
    by (simp add: listed_for_def demo) (simp add: ALICE_def)
  then show ?thesis
    using hunter_joins_a_joinable_player [OF demo_world_quiet, of _ "[65]" 1] demo
    by (simp add: joinable_def ALICE_def)
qed

subsection \<open>The soak\<close>

text \<open>
  The soak's clients all come from one host, and the server takes eight connections from a host:
  however many idle clients are asked for, at most six are parked beside the two of the match.
\<close>

lemma safe_soak_setup: "safe (soak_setup idle)"
  unfolding soak_setup_def probe_def by (intro safe_intros)

lemma soak_is_capped:
  "from_host (srv (snd (soak_setup idle (new_World d ago rnd)))) 0 \<le> 8"
  using safe_soak_setup [of idle] new_World_sound [of d ago rnd]
  by (auto simp: safe_def loop_inv_def limits_ok_def MAX_CONNECTIONS_PER_IP_def)

end
