(* ===== verification/Latency_Probe.thy ===== *)
theory Latency_Probe
  imports Relay_Prelude "HOL-Library.Sublist"
begin

text \<open>
  The echo server \<open>tools/latency_probe_server.py\<close>: what it sends back on one connection and the
  figures it prints when the connection ends. The socket and the clock answer by a script.
\<close>

text \<open>
  One turn of the inner loop: \<open>recv\<close> returned \<open>data\<close> at the given time and \<open>sendall\<close> went through
  (\<open>None\<close>) or raised \<open>OSError\<close> after some bytes; or \<open>recv\<close> itself raised.
\<close>

datatype echo_turn = Got_data bytes rat "nat option" | Broken

record echo_log =
  rounds :: nat
  gaps :: "rat list"
  last_at :: rat
  echoed :: bytes

definition new_log :: "rat \<Rightarrow> echo_log" where
  "new_log t0 = \<lparr>rounds = 0, gaps = [], last_at = t0, echoed = []\<rparr>"

definition arrived :: "rat \<Rightarrow> echo_log \<Rightarrow> echo_log" where
  "arrived now e = e\<lparr>gaps := gaps e @ [now - last_at e], last_at := now\<rparr>"

fun echo_loop :: "echo_turn list \<Rightarrow> echo_log \<Rightarrow> echo_log" where
  "echo_loop [] e = e"
| "echo_loop (Broken # ts) e = e"
| "echo_loop (Got_data data now sent # ts) e =
     (if data = [] then e
      else let e = arrived now e in
        (case sent of
           Some n \<Rightarrow> e\<lparr>echoed := echoed e @ take n data\<rparr>
         | None \<Rightarrow> echo_loop ts (e\<lparr>echoed := echoed e @ data, rounds := rounds e + 1\<rparr>)))"

text \<open>The line at the end: rounds, duration and average gap in milliseconds, if anything came.\<close>

definition mean_gap :: "rat list \<Rightarrow> rat" where
  "mean_gap gs = sum_list (drop 1 gs) / of_nat (max (length gs - 1) 1)"

definition closing_line :: "rat \<Rightarrow> rat \<Rightarrow> echo_log \<Rightarrow> (nat \<times> rat \<times> rat) option" where
  "closing_line t0 t1 e = (if gaps e = [] then None else Some (rounds e, t1 - t0, mean_gap (gaps e) * 1000))"

subsection \<open>What comes back, and what the figures say\<close>

text \<open>The bytes received up to the end of the connection.\<close>

fun heard :: "echo_turn list \<Rightarrow> bytes" where
  "heard [] = []"
| "heard (Broken # ts) = []"
| "heard (Got_data data now sent # ts) = (if data = [] then [] else data @ (if sent = None then heard ts else []))"

text \<open>Whatever happens, what is sent back is a prefix of what came; all of it, if no send fails.\<close>

theorem echo_is_a_prefix:
  "prefix (echoed (echo_loop ts (new_log t0))) (heard ts) \<and>
   (list_all (\<lambda>t. case t of Broken \<Rightarrow> True | Got_data d now sent \<Rightarrow> sent = None) ts \<longrightarrow>
     echoed (echo_loop ts (new_log t0)) = heard ts)"
proof -
  have "\<exists>z. echoed (echo_loop ts e) = echoed e @ z \<and> prefix z (heard ts) \<and>
      (list_all (\<lambda>t. case t of Broken \<Rightarrow> True | Got_data d now sent \<Rightarrow> sent = None) ts \<longrightarrow> z = heard ts)" for e
    by (induction ts e rule: echo_loop.induct)
      (fastforce simp: arrived_def Let_def take_is_prefix intro: prefix_prefix split: option.splits)+
  from this [of "new_log t0"] show ?thesis
    by (auto simp: new_log_def)
qed

text \<open>The gaps add up to the time of the last arrival.\<close>

lemma gaps_sum: "sum_list (gaps (echo_loop ts e)) - sum_list (gaps e) = last_at (echo_loop ts e) - last_at e"
proof (induction ts e rule: echo_loop.induct)
  case (3 data now sent ts e)
  then show ?case
    by (cases sent) (auto simp: arrived_def Let_def algebra_simps)
qed auto

lemma gaps_grow: "\<exists>g. gaps (echo_loop ts e) = gaps e @ g"
proof (induction ts e rule: echo_loop.induct)
  case (3 data now sent ts e)
  then show ?case
    by (cases sent) (auto simp: arrived_def Let_def)
qed auto

text \<open>The average is that between the arrivals: the time from the first to the last, over the number
  of arrivals after the first. The time before the first does not count.\<close>

theorem mean_gap_is_between_arrivals:
  assumes "echo_loop (Got_data data first None # ts) (new_log t0) = e" and "data \<noteq> []" and "2 \<le> length (gaps e)"
  shows "mean_gap (gaps e) = (last_at e - first) / of_nat (length (gaps e) - 1)"
proof -
  let ?e = "arrived first (new_log t0)"
  have e: "e = echo_loop ts (?e\<lparr>echoed := echoed ?e @ data, rounds := rounds ?e + 1\<rparr>)"
    using assms(1,2) by (simp add: Let_def)
  obtain g where g: "gaps e = (first - t0) # g"
    using gaps_grow [of ts "?e\<lparr>echoed := echoed ?e @ data, rounds := rounds ?e + 1\<rparr>"]
    unfolding e by (auto simp: arrived_def new_log_def)
  have "sum_list (gaps e) = last_at e - t0"
    using gaps_sum [of ts "?e\<lparr>echoed := echoed ?e @ data, rounds := rounds ?e + 1\<rparr>"]
    unfolding e by (simp add: arrived_def new_log_def)
  then have "sum_list g = last_at e - first"
    by (simp add: g)
  moreover have "max (length g) 1 = length g"
    using assms(3) by (simp add: g)
  ultimately show ?thesis
    by (simp add: mean_gap_def g)
qed

theorem mean_gap_is_between_arrivals_witness:
  "mean_gap (gaps (echo_loop [Got_data [1] 5 None, Got_data [2] 6 None, Got_data [3] 9 None] (new_log 0))) = 2"
  using mean_gap_is_between_arrivals [of "[1]" 5 "[Got_data [2] 6 None, Got_data [3] 9 None]" 0]
  by (simp add: arrived_def new_log_def)

text \<open>A failing send leaves the round uncounted although its gap is.\<close>

lemma failed_round_not_counted:
  "rounds (echo_loop [Got_data [1] 5 (Some 0)] (new_log 0)) = 0 \<and> length (gaps (echo_loop [Got_data [1] 5 (Some 0)] (new_log 0))) = 1"
  by (simp add: arrived_def new_log_def)

end
