(* ===== verification/Server_Start.thy ===== *)
theory Server_Start
  imports Diff_Tool
begin

text \<open>
  How the test tools start a server process: the command lines of \<open>bbnet_client_sim.py\<close>,
  \<open>server_diff.py\<close> and \<open>soak.py\<close>, and their waits until it is up. What a poll of the process and
  the socket finds is a script; where the deadline is reached the script ends.
\<close>

subsection \<open>Command lines\<close>

text \<open>\<open>python\<close> is \<open>sys.executable\<close>; the environment of \<open>bbnet_client_sim.py\<close> gives \<open>server\<close> and \<open>seats\<close>.\<close>

definition sim_command :: "string \<Rightarrow> (string \<Rightarrow> bool) \<Rightarrow> string \<Rightarrow> nat \<Rightarrow> nat \<Rightarrow> string list \<Rightarrow> string list option" where
  "sim_command python executable server seats port extra =
     (if server = ''c''
      then let relay = ''server/c/intv-relay'' in
        if executable relay
        then Some ([relay, ''--port'', dec_digits port, ''--max-seats'', dec_digits seats] @ extra)
        else None
      else Some ([python, ''server/intv_relay_server.py'', ''--port'', dec_digits port] @ extra))"

definition diff_command ::
  "string \<Rightarrow> string \<Rightarrow> string \<Rightarrow> string \<Rightarrow> nat \<Rightarrow> nat \<Rightarrow> nat \<Rightarrow> string list \<Rightarrow> string list" where
  "diff_command python relay_py relay_c impl proto port seats extra =
     (if impl = ''py'' then [python, relay_py, ''--port'', dec_digits port]
      else if proto = 1 then [relay_c, ''--port'', dec_digits port, ''--proto'', ''1'']
      else [relay_c, ''--port'', dec_digits port, ''--max-seats'', dec_digits seats]) @ extra"

definition soak_command :: "string \<Rightarrow> string \<Rightarrow> string \<Rightarrow> (string \<Rightarrow> bool) \<Rightarrow> string \<Rightarrow> nat \<Rightarrow> string list option" where
  "soak_command python relay_py relay_c executable impl port =
     (if impl = ''py'' then Some [python, relay_py, ''--port'', dec_digits port]
      else if executable relay_c then Some [relay_c, ''--port'', dec_digits port, ''--max-seats'', ''2'']
      else None)"

subsection \<open>Waiting for the server\<close>

text \<open>
  One round of the wait of \<open>start_server\<close> and \<open>soak.py\<close>: whether the connection was accepted and, if
  not, whether the process has ended.
\<close>

datatype boot_poll = Accepted | Refused bool

datatype boot_result = Up | ExitedDuringBoot | NeverCameUp

fun boot_wait :: "boot_poll list \<Rightarrow> boot_result" where
  "boot_wait [] = NeverCameUp"
| "boot_wait (Accepted # ps) = Up"
| "boot_wait (Refused ended # ps) = (if ended then ExitedDuringBoot else boot_wait ps)"

text \<open>The substring test \<open>x in l\<close>.\<close>

fun contains :: "string \<Rightarrow> string \<Rightarrow> bool" where
  "contains x [] \<longleftrightarrow> literal x [] \<noteq> None"
| "contains x (ch # l) \<longleftrightarrow> literal x (ch # l) \<noteq> None \<or> contains x l"

text \<open>\<open>Ctx._pump\<close>, and \<open>Ctx._await_boot\<close>: in each round the log lines so far and whether the process has ended.\<close>

definition pump_log :: "string list \<Rightarrow> string list" where
  "pump_log = map (rstrip {CHR 0x0A})"

fun await_boot :: "(string list \<times> bool) list \<Rightarrow> boot_result" where
  "await_boot [] = NeverCameUp"
| "await_boot ((raw_log, ended) # rs) =
     (if list_ex (contains ''listening on :'') raw_log then Up
      else if ended then ExitedDuringBoot
      else await_boot rs)"

subsection \<open>What they promise\<close>

text \<open>The Python server is started without a seat count, whatever the seats of the test.\<close>

lemma python_gets_no_seats:
  "sim_command python executable ''py'' seats port extra = sim_command python executable ''py'' seats' port extra"
  "diff_command python relay_py relay_c ''py'' proto port seats extra = diff_command python relay_py relay_c ''py'' proto port seats' extra"
  by (simp_all add: sim_command_def diff_command_def)

text \<open>A wait ends well exactly when a connection is accepted before the process is seen to have ended.\<close>

theorem boot_wait_up:
  "boot_wait ps = Up \<longleftrightarrow> (\<exists>n qs. ps = replicate n (Refused False) @ Accepted # qs)"
proof (induction ps rule: boot_wait.induct)
  case (3 ended ps)
  have "(\<exists>n qs. Refused ended # ps = replicate n (Refused False) @ Accepted # qs) \<longleftrightarrow>
      \<not> ended \<and> (\<exists>n qs. ps = replicate n (Refused False) @ Accepted # qs)"
  proof
    assume "\<exists>n qs. Refused ended # ps = replicate n (Refused False) @ Accepted # qs"
    then obtain n qs where "Refused ended # ps = replicate n (Refused False) @ Accepted # qs"
      by blast
    then show "\<not> ended \<and> (\<exists>n qs. ps = replicate n (Refused False) @ Accepted # qs)"
      by (cases n) auto
  next
    assume "\<not> ended \<and> (\<exists>n qs. ps = replicate n (Refused False) @ Accepted # qs)"
    then obtain n qs where "\<not> ended" "ps = replicate n (Refused False) @ Accepted # qs"
      by blast
    then have "Refused ended # ps = replicate (Suc n) (Refused False) @ Accepted # qs"
      by simp
    then show "\<exists>n qs. Refused ended # ps = replicate n (Refused False) @ Accepted # qs"
      by blast
  qed
  with 3 show ?case by simp
qed (auto intro: exI [of _ 0])

lemma literal_iff: "literal x l = Some r \<longleftrightarrow> l = x @ r"
  by (induction x l rule: literal.induct) auto

lemma contains_iff: "contains x l \<longleftrightarrow> (\<exists>a b. l = a @ x @ b)"
proof (induction l)
  case Nil
  show ?case
    by (cases x) auto
next
  case (Cons ch l)
  have "literal x (ch # l) \<noteq> None \<longleftrightarrow> (\<exists>b. ch # l = x @ b)"
    by (auto simp: literal_iff)
  with Cons show ?case
    by (auto simp: Cons_eq_append_conv)
qed

text \<open>The differential tester waits for the server's own line, which has the port behind the colon: it
  sees the boot in every log that holds it, whatever stands before it.\<close>

theorem await_boot_sees_the_line:
  assumes "stamp @ ''listening on :'' @ dec_digits port \<in> set raw_log"
  shows "await_boot ((raw_log, ended) # rs) = Up"
proof -
  have "contains ''listening on :'' (stamp @ ''listening on :'' @ dec_digits port)"
    unfolding contains_iff by blast
  with assms show ?thesis
    by (auto simp: list_ex_iff)
qed

theorem await_boot_sees_the_line_witness:
  "await_boot [([''x'', ''INFO listening on :9111''], True)] = Up"
  using await_boot_sees_the_line [of "''INFO ''" 9111 "[''x'', ''INFO listening on :9111'']" True "[]"]
  by (simp add: dec_digits.simps hex_upper_def)

end
