(* ===== verification/Soak_Run.thy ===== *)
theory Soak_Run
  imports Bench_Load
begin

text \<open>
  The main loop of \<open>tools/soak.py\<close> as a program of the test bench: the paced ticks of the match, the
  samples of the server's memory, and the summary. The clock and the contents of
  \<open>/proc/<pid>/status\<close> are a script. As everywhere on the bench what is sent to a dropped connection
  is lost, so the \<open>break\<close> on an OSError of \<open>sendall\<close> is not taken.
\<close>

subsection \<open>Reading the memory of the server\<close>

definition is_blank :: "char \<Rightarrow> bool" where
  "is_blank ch \<longleftrightarrow> ch \<in> {CHR '' '', CHR 0x09, CHR 0x0A, CHR 0x0B, CHR 0x0C, CHR 0x0D,
     CHR 0x1C, CHR 0x1D, CHR 0x1E, CHR 0x1F, CHR 0x85, CHR 0xA0}"

text \<open>\<open>line.split()[1]\<close>.\<close>

definition second_field :: "string \<Rightarrow> string option" where
  "second_field l =
     (let l = dropWhile (\<lambda>ch. \<not> is_blank ch) (dropWhile is_blank l);
          f = takeWhile (\<lambda>ch. \<not> is_blank ch) (dropWhile is_blank l)
      in if f = [] then None else Some f)"

text \<open>\<open>int\<close> of a token of digits; the kernel writes no other, and every other is taken for a ValueError.\<close>

definition digit_of :: "char \<Rightarrow> nat" where "digit_of ch = of_char ch - 48"

definition int_of :: "string \<Rightarrow> pyexn + nat" where
  "int_of ds = (if ds \<noteq> [] \<and> list_all (\<lambda>ch. 48 \<le> (of_char ch :: nat) \<and> (of_char ch :: nat) \<le> 57) ds
     then Inr (fold (\<lambda>d v. 10 * v + digit_of d) ds 0) else Inl ValueError)"

text \<open>\<open>vm_kb\<close> on the lines of the file, \<open>None\<close> where it cannot be opened.\<close>

definition vm_kb :: "string list option \<Rightarrow> string \<Rightarrow> pyexn + nat" where
  "vm_kb file field =
     (case file of None \<Rightarrow> Inr 0
      | Some ls \<Rightarrow> (case find (\<lambda>l. take (length field) l = field) ls of
          None \<Rightarrow> Inr 0
        | Some l \<Rightarrow> (case second_field l of None \<Rightarrow> Inl IndexError | Some f \<Rightarrow> int_of f)))"

subsection \<open>The loop\<close>

record Soak =
  tick :: nat
  next_tick :: rat
  next_sample :: rat
  rss :: "nat list"
  hwm :: nat

definition new_Soak :: "rat \<Rightarrow> Soak" where
  "new_Soak t0 = \<lparr>tick = 0, next_tick = t0, next_sample = t0, rss = [], hwm = 0\<rparr>"

definition paced :: "rat \<Rightarrow> Soak \<Rightarrow> Soak" where
  "paced period k = k\<lparr>next_tick := next_tick k + period, tick := (tick k + 1) AND 0xFFFF\<rparr>"

definition sampled :: "rat \<Rightarrow> string list option \<Rightarrow> Soak \<Rightarrow> pyexn + Soak" where
  "sampled every file k =
     (case vm_kb file ''VmRSS:'' of Inl e \<Rightarrow> Inl e
      | Inr r \<Rightarrow> (case vm_kb file ''VmHWM:'' of Inl e \<Rightarrow> Inl e
        | Inr h \<Rightarrow> Inr (k\<lparr>next_sample := next_sample k + every,
            rss := (if r = 0 then rss k else rss k @ [r]), hwm := max (hwm k) h\<rparr>)))"

text \<open>The sockets are drained in every pass (\<open>soak_tick\<close> includes it).\<close>

definition soak_pass :: "rat \<Rightarrow> rat \<Rightarrow> cid \<Rightarrow> cid \<Rightarrow> rat \<Rightarrow> string list option \<Rightarrow> Soak \<Rightarrow> Soak tool" where
  "soak_pass period every a b now file k =
     bind (if next_tick k \<le> now
        then bind (soak_tick a b (tick (paced period k))) (\<lambda>_. return (paced period k))
        else bind (modify (\<lambda>w. w\<lparr>inbox := (\<lambda>_. [])\<rparr>)) (\<lambda>_. return k)) (\<lambda>k.
     if next_sample k \<le> now then attempt PyE (sampled every file k) else return k)"

text \<open>The passes of the \<open>while\<close> loop, with the time of each and the status file as it is then.\<close>

primrec soak_loop :: "rat \<Rightarrow> rat \<Rightarrow> cid \<Rightarrow> cid \<Rightarrow> (rat \<times> string list option) list \<Rightarrow> Soak \<Rightarrow> Soak tool" where
  "soak_loop period every a b [] k = return k"
| "soak_loop period every a b (p # ps) k =
     bind (soak_pass period every a b (fst p) (snd p) k) (soak_loop period every a b ps)"

text \<open>The summary, the growth as it is before it is rounded for printing; \<open>None\<close> is the exit without samples.\<close>

record Summary =
  samples :: nat
  rss_first :: nat
  rss_last :: nat
  rss_max :: nat
  hwm_kb :: nat
  growth_kb :: rat
  ticks :: nat

definition summary :: "Soak \<Rightarrow> Summary option" where
  "summary k =
     (if rss k = [] then None
      else Some \<lparr>samples = length (rss k), rss_first = hd (rss k), rss_last = last (rss k), rss_max = Max (set (rss k)),
        hwm_kb = hwm k, growth_kb = growth (rss k), ticks = tick k\<rparr>)"

text \<open>\<open>main\<close> behind the start of the server; \<open>1.0 / args.hz\<close> raises for a rate of 0.\<close>

definition soak_main :: "nat \<Rightarrow> rat \<Rightarrow> rat \<Rightarrow> rat \<Rightarrow> (rat \<times> string list option) list \<Rightarrow> Summary option tool" where
  "soak_main idle hz every t0 ps =
     bind (soak_setup idle) (\<lambda>(a, b).
     if hz = 0 then raise (PyE ZeroDivisionError)
     else bind (soak_loop (1 / hz) every a b ps (new_Soak t0)) (\<lambda>k. return (summary k)))"

subsection \<open>The load cannot break the server\<close>

lemma safe_soak_tick [safe_intros]: "safe (soak_tick a b n)"
  unfolding soak_tick_def by (intro safe_intros) simp

lemma safe_soak_pass [safe_intros]: "safe (soak_pass period every a b now file k)"
  unfolding soak_pass_def by (intro safe_intros) simp_all

lemma safe_soak_loop [safe_intros]: "safe (soak_loop period every a b ps k)"
  by (induction ps arbitrary: k) (auto intro!: safe_intros)

text \<open>Whatever the number of idle clients, the rate, the clock and the samples, the soak keeps all
  invariants of the server's loop and never drives it into an exception that leaves the loop.\<close>

theorem soak_never_breaks_the_server:
  "loop_inv {} (srv (snd (soak_main idle hz every t0 ps (new_World d ago rnd)))) \<and>
   (\<forall>e. fst (soak_main idle hz every t0 ps (new_World d ago rnd)) \<noteq> Inl (ServerDied e))"
proof -
  have "safe (soak_main idle hz every t0 ps)"
    unfolding soak_main_def by (intro safe_intros safe_soak_setup) simp_all
  then show ?thesis
    using new_World_sound [of d ago rnd] by (simp add: safe_def)
qed

subsection \<open>Pacing and sampling\<close>

text \<open>After \<open>n\<close> ticks: the counter, the time of the next tick, and that no tick came early.\<close>

definition on_schedule :: "rat \<Rightarrow> rat \<Rightarrow> rat list \<Rightarrow> nat \<Rightarrow> Soak \<Rightarrow> bool" where
  "on_schedule period t0 ts n k \<longleftrightarrow> tick k = n mod 0x10000 \<and> next_tick k = t0 + of_nat n * period \<and>
     n \<le> length ts \<and> (n = 0 \<or> (\<exists>t \<in> set ts. t0 + of_nat (n - 1) * period \<le> t)) \<and>
     length (rss k) \<le> length ts \<and> 0 \<notin> set (rss k)"

lemma on_schedule_later: "on_schedule period t0 ts n k \<Longrightarrow> on_schedule period t0 (ts @ [t]) n k"
  by (auto simp: on_schedule_def)

lemma on_schedule_paced:
  assumes "on_schedule period t0 ts n k" and "next_tick k \<le> now"
  shows "on_schedule period t0 (ts @ [now]) (Suc n) (paced period k)"
proof -
  have "(n mod 0x10000 + 1) AND 0xFFFF = Suc n mod 0x10000"
    using and_mask_nat [of "n mod 0x10000 + 1" 16] by (simp add: mod_simps)
  with assms show ?thesis
    by (auto simp: on_schedule_def paced_def algebra_simps)
qed

lemma on_schedule_sampled:
  assumes "sampled every file k = Inr k'" and "on_schedule period t0 ts n k" and "length (rss k) < length ts"
  shows "on_schedule period t0 ts n k'"
  using assms by (auto simp: sampled_def on_schedule_def split: sum.splits if_splits)

lemma soak_pass_schedule:
  assumes "soak_pass period every a b now file k w = (Inr k', w')" and "on_schedule period t0 ts n k"
  shows "\<exists>m. on_schedule period t0 (ts @ [now]) m k'"
proof -
  obtain k1 w1 m where k1: "on_schedule period t0 (ts @ [now]) m k1" "rss k1 = rss k"
    and rest: "(if next_sample k1 \<le> now then attempt PyE (sampled every file k1) else return k1) w1 = (Inr k', w')"
  proof (cases "next_tick k \<le> now")
    case True
    then obtain w1 where "(if next_sample (paced period k) \<le> now then attempt PyE (sampled every file (paced period k))
        else return (paced period k)) w1 = (Inr k', w')"
      using assms(1) by (auto simp: soak_pass_def bind_def return_def split: prod.splits sum.splits)
    then show thesis
      by (rule that [OF on_schedule_paced [OF assms(2) True], rotated]) (simp add: paced_def)
  next
    case False
    then show thesis
      using that [OF on_schedule_later [OF assms(2)] refl] assms(1)
      by (auto simp: soak_pass_def bind_def modify_def return_def)
  qed
  show ?thesis
  proof (cases "next_sample k1 \<le> now")
    case True
    then have "sampled every file k1 = Inr k'"
      using rest by (simp add: attempt_def return_def raise_def split: sum.splits)
    moreover have "length (rss k1) < length (ts @ [now])"
      using k1(2) assms(2) by (simp add: on_schedule_def)
    ultimately show ?thesis
      using on_schedule_sampled [OF _ k1(1)] by blast
  next
    case False
    then show ?thesis
      using rest k1(1) by (auto simp: return_def)
  qed
qed

lemma soak_loop_schedule:
  assumes "soak_loop period every a b ps k w = (Inr k', w')" and "on_schedule period t0 ts n k"
  shows "\<exists>m. on_schedule period t0 (ts @ map fst ps) m k'"
  using assms
proof (induction ps arbitrary: k w ts n)
  case Nil
  then show ?case by (auto simp: return_def)
next
  case (Cons p ps)
  then obtain k1 w1 where pass: "soak_pass period every a b (fst p) (snd p) k w = (Inr k1, w1)"
    and more: "soak_loop period every a b ps k1 w1 = (Inr k', w')"
    by (auto simp: bind_def split: prod.splits sum.splits)
  obtain m where "on_schedule period t0 (ts @ [fst p]) m k1"
    using soak_pass_schedule [OF pass Cons.prems(2)] by blast
  from Cons.IH [OF more this] show ?case by simp
qed

text \<open>The load is paced: after any passes the tick counter is that of some number \<open>n\<close> of ticks, at most
  one for each pass and none before its time; so the load never exceeds the rate that was asked for,
  also when it catches up after a pause. The samples are at most one for each pass, and none is 0.\<close>

theorem soak_is_paced:
  assumes "soak_loop period every a b ps (new_Soak t0) w = (Inr k, w')"
  shows "\<exists>n \<le> length ps. tick k = n mod 0x10000 \<and> next_tick k = t0 + of_nat n * period \<and>
    (n = 0 \<or> (\<exists>t \<in> fst ` set ps. t0 + of_nat (n - 1) * period \<le> t)) \<and> length (rss k) \<le> length ps \<and> 0 \<notin> set (rss k)"
proof -
  have "on_schedule period t0 [] 0 (new_Soak t0)"
    by (simp add: on_schedule_def new_Soak_def)
  from soak_loop_schedule [OF assms this] show ?thesis
    by (auto simp: on_schedule_def)
qed

theorem soak_is_paced_witness:
  "\<exists>n \<le> 0. tick (new_Soak 5) = n mod 0x10000 \<and> next_tick (new_Soak 5) = 5 + of_nat n * (1 / 20)"
  using soak_is_paced [of "1 / 20" 5 0 1 "[]" 5 "new_World 3 0 []" "new_Soak 5"] by (auto simp: return_def)

subsection \<open>The growth figure\<close>

lemma sum_list_between:
  "(\<forall>x \<in> set xs. lo \<le> x \<and> x \<le> hi) \<Longrightarrow> length xs * lo \<le> sum_list xs \<and> sum_list xs \<le> length xs * (hi :: nat)"
  by (induction xs) auto

lemma mean_between:
  assumes "\<forall>x \<in> set xs. lo \<le> x \<and> x \<le> hi" and "length xs = k" and "0 < k"
  shows "of_nat lo \<le> mean_of k xs \<and> mean_of k xs \<le> of_nat hi"
proof -
  have "of_nat k * of_nat lo \<le> (of_nat (sum_list xs) :: rat)" "(of_nat (sum_list xs) :: rat) \<le> of_nat k * of_nat hi"
    using sum_list_between [OF assms(1)] assms(2) by (metis of_nat_le_iff of_nat_mult)+
  then show ?thesis
    using assms(3) by (simp add: mean_of_def pos_le_divide_eq pos_divide_le_eq mult.commute)
qed

text \<open>The growth that the soak reports is within the spread of the samples; a server whose memory stays
  as it is has growth 0, however few samples there are.\<close>

theorem growth_within_spread:
  assumes "xs \<noteq> []" and "\<forall>x \<in> set xs. lo \<le> x \<and> x \<le> hi"
  shows "\<bar>growth xs\<bar> \<le> of_nat hi - of_nat lo"
proof -
  let ?t = "max 1 (length xs div 3)"
  have t: "0 < ?t" "?t \<le> length xs"
    using assms(1) by (auto simp: Suc_le_eq)
  have "of_nat lo \<le> mean_of ?t (take ?t xs) \<and> mean_of ?t (take ?t xs) \<le> of_nat hi"
    by (rule mean_between) (use t assms(2) in \<open>auto dest: in_set_takeD\<close>)
  moreover have "of_nat lo \<le> mean_of ?t (drop (length xs - ?t) xs) \<and> mean_of ?t (drop (length xs - ?t) xs) \<le> of_nat hi"
    by (rule mean_between) (use t assms(2) in \<open>auto dest: in_set_dropD\<close>)
  ultimately show ?thesis
    unfolding growth_def Let_def by linarith
qed

theorem growth_within_spread_witness: "\<bar>growth [2048, 2048, 2048, 2048]\<bar> \<le> 0"
  using growth_within_spread [of "[2048, 2048, 2048, 2048]" 2048 2048] by simp

lemma status_file_read:
  "vm_kb (Some [''Name: python3'', ''VmHWM:'' @ CHR 0x09 # ''    4096 kB'', ''VmRSS:'' @ CHR 0x09 # ''    2048 kB'']) ''VmRSS:'' = Inr 2048"
  by (simp add: vm_kb_def second_field_def is_blank_def int_of_def digit_of_def Let_def)

end
