(* ===== verification/Rom_Report.thy ===== *)
theory Rom_Report
  imports Rom_Patch Diff_Tool
begin

text \<open>
  What the ROM tools write: the text of the source that \<open>tools/dump_rom.py\<close> generates, the report of
  \<open>tools/recon.py\<close>, and the messages of \<open>tools/check_patch.py\<close>, as lists of lines. How Python prints
  a float (\<open>.2f\<close>, \<open>.0f\<close>) is a parameter.
\<close>

subsection \<open>Numbers\<close>

fun hex_digits :: "nat \<Rightarrow> string" where
  "hex_digits n = (if n < 16 then [] else hex_digits (n div 16)) @ [hex_upper (n mod 16)]"

declare hex_digits.simps [simp del]

text \<open>\<open>f"{i:04X}"\<close> and \<open>f"{i:02X}"\<close>: the width includes a sign.\<close>

definition hex_pad :: "nat \<Rightarrow> int \<Rightarrow> string" where
  "hex_pad wd i =
     (let sign = (if i < 0 then ''-'' else []); ds = hex_digits (nat \<bar>i\<bar>)
      in sign @ replicate (wd - length (sign @ ds)) (CHR ''0'') @ ds)"

definition hexa :: "int \<Rightarrow> string" where
  "hexa i = CHR ''$'' # hex_pad 4 i"

text \<open>\<open>f"{n:<3}"\<close>.\<close>

definition left3 :: "nat \<Rightarrow> string" where
  "left3 n = dec_digits n @ replicate (3 - length (dec_digits n)) (CHR '' '')"

subsection \<open>The generated source\<close>

fun join :: "string \<Rightarrow> string list \<Rightarrow> string" where
  "join sep [] = []"
| "join sep [x] = x"
| "join sep (x # y # xs) = x @ sep @ join sep (y # xs)"

fun dump_text :: "dump_line \<Rightarrow> string" where
  "dump_text (Row xs a) = ''        DECLE   '' @ join '', '' (map (\<lambda>x. hexa (int x)) xs) @ CHR 0x09 # ''; '' @ hexa a"
| "dump_text (Patched e a x) = ''        DECLE   '' @ e @ CHR 0x09 # ''; '' @ hexa a @ '' PATCH (orig '' @ hexa (int x) @ '')''"

definition source_text :: "string \<Rightarrow> int \<Rightarrow> dump_line list \<Rightarrow> string list" where
  "source_text path b ls =
     (''; Generated by tools/dump_rom.py from '' @ path @ '' -- DO NOT EDIT'') #
     (''        ORG     '' @ hexa b) # map dump_text ls"

subsection \<open>The messages of the verifier\<close>

definition check_text :: "(int \<times> string) list \<Rightarrow> verdict \<Rightarrow> string list" where
  "check_text patches v =
     (let n = card (fst ` set patches) in
      map (\<lambda>(a, x, y). ''UNDECLARED DIFF at '' @ hexa a @ '': '' @ hexa (int x) @ '' -> '' @ hexa (int y)) (bad v) @
      map (\<lambda>a. ''NOTE: declared patch at '' @ hexa a @ '' left value unchanged'') (unpatched v) @
      (if bad v = []
       then [''verify-patch: OK ('' @ dec_digits n @ '' declared sites, '' @ dec_digits (n - length (unpatched v)) @ '' changed)'']
       else []))"

subsection \<open>The report\<close>

definition EXEC_NAMES :: "(nat \<times> string) list" where
  "EXEC_NAMES = [
     (0x1082, ''post-title mainline''), (0x108F, ''MAIN LOOP''), (0x1126, ''X_DEF_ISR''),
     (0x11FA, ''boot/title hand-off''), (0x14F1, ''controller scan entry''), (0x1523, ''controller scan''),
     (0x15F8, ''handler-table dispatch (jumps into game code)''), (0x167D, ''X_RAND1  ** RNG **''),
     (0x169E, ''X_RAND2  ** RNG **''), (0x17D5, ''timer-table dispatch pass''), (0x1838, ''X_TIMER_STOP''),
     (0x1844, ''X_TIMER_START''), (0x181E, ''set timer countdown := interval  ** relocation hazard **''),
     (0x1831, ''set timer countdown := R0 (music)''), (0x1A71, ''music note timer''), (0x1AAD, ''sound update''),
     (0x1CCE, ''sound engine RNG caller (churns $035E mid-tick)''), (0x1F2F, ''X_DO_GRAM_INIT'')]"

definition exec_name :: "nat \<Rightarrow> string" where
  "exec_name t = (case map_of EXEC_NAMES t of None \<Rightarrow> [] | Some n \<Rightarrow> n)"

definition CELL_NAMES :: "(nat \<times> string) list" where
  "CELL_NAMES = [
     (0x011F, ''decoded input, LEFT controller   ** shadow-patch site **''),
     (0x0120, ''decoded input, RIGHT controller  ** shadow-patch site **''),
     (0x0121, ''keypad/action state, left''), (0x0122, ''keypad/action state, right''),
     (0x0123, ''raw port, left''), (0x0124, ''raw port, right''),
     (0x035D, ''input handler-table pointer      ** phase machine **''),
     (0x035E, ''EXEC LFSR state  ** must never be sim state **''), (0x035F, ''sound frame counter'')]"

definition DISPLAY :: "(int \<times> string) list" where
  "DISPLAY = [(0x0D, ''border extension''), (0x0E, ''display mode (0=colour stack)''), (0x0F, ''colour stack 0''),
     (0x10, ''colour stack 1''), (0x11, ''colour stack 2''), (0x12, ''colour stack 3''), (0x13, ''border colour'')]"

text \<open>The sections of \<open>report\<close>; \<open>None\<close> is an IndexError.\<close>

definition header_text :: "Rom \<Rightarrow> string list option" where
  "header_text r = (case header r of
     (Some tbl, Some start, Some gram) \<Rightarrow> Some [
       ''-- cart header ------------------------------------------------'',
       ''  timer table      '' @ hexa (int tbl) @ ''   <- patch to relocate (hook point 1)'',
       ''  start-of-game    '' @ hexa (int start) @ ''   <- patch to insert NET_START (hook point 2)'',
       ''  GRAM init seq    '' @ hexa (int gram)]
   | _ \<Rightarrow> None)"

primrec display_text :: "Rom \<Rightarrow> (int \<times> string) list \<Rightarrow> string list option" where
  "display_text r [] = Some []"
| "display_text r (d # ds) =
     (case rom_at r (base r + fst d) of None \<Rightarrow> None
      | Some v \<Rightarrow> map_option (\<lambda>ls. (''    '' @ hexa (base r + fst d) @ '' = $'' @ hex_pad 2 (int v) @ ''  '' @ snd d) # ls)
          (display_text r ds))"

definition timer_text :: "(rat \<Rightarrow> string) \<Rightarrow> (rat \<Rightarrow> string) \<Rightarrow> nat \<Rightarrow> nat \<times> nat \<Rightarrow> string list" where
  "timer_text fmt2 fmt0 n e =
     (''  entry '' @ dec_digits n @ '': '' @ hexa (int (fst e)) @ ''  interval '' @ hexa (int (snd e)) @ ''  -> '' @
       (case tick_rate (snd e) of None \<Rightarrow> ''-'' | Some hz \<Rightarrow> fmt2 hz @ '' Hz'') @
       (if stopped (snd e) then '' [stopped/one-shot]'' else [])) #
     (case tick_period_ms (snd e) of None \<Rightarrow> []
      | Some ms \<Rightarrow> [''           tick period '' @ fmt0 ms @ '' ms'' @ ''   =>  input delay d costs d x '' @ fmt0 ms @ '' ms''])"

definition timers_text :: "(rat \<Rightarrow> string) \<Rightarrow> (rat \<Rightarrow> string) \<Rightarrow> Rom \<Rightarrow> nat \<Rightarrow> string list option" where
  "timers_text fmt2 fmt0 r tbl =
     (if \<not> has r (int tbl) then Some [''  !! '' @ hexa (int tbl) @ '' is outside this image -- multi-segment cart?'']
      else map_option (\<lambda>es. concat (map (\<lambda>(n, e). timer_text fmt2 fmt0 n e) (enumerate 0 es))) (timer_entries r (int tbl)))"

definition call_text :: "int \<times> nat \<Rightarrow> string" where
  "call_text c = ''  '' @ hexa (fst c) @ ''  JSR '' @ hexa (int (snd c)) @ ''  '' @ exec_name (snd c)"

definition rng_text :: "Rom \<Rightarrow> string list" where
  "rng_text r =
     (if rng_sites r = [] then [''  none found -- confirm in dis1600 before believing it'']
      else concat (map (\<lambda>c. [call_text c,
        ''           patch words '' @ hexa (fst c + 1) @ ''/'' @ hexa (fst c + 2) @ '' to the wrapper'']) (rng_sites r)))"

definition timer_calls_text :: "Rom \<Rightarrow> string list" where
  "timer_calls_text r = (if timer_sites r = [] then [''  none''] else map call_text (timer_sites r))"

text \<open>The mnemonic of a reference is always known (\<open>refs_point_at_operands\<close>); \<open>??\<close> stands for the KeyError.\<close>

definition cell_text :: "nat \<times> (int \<times> string option \<times> nat) list \<Rightarrow> string list" where
  "cell_text c =
     (''  '' @ hexa (int (fst c)) @ ''  '' @ (case map_of CELL_NAMES (fst c) of None \<Rightarrow> [] | Some what \<Rightarrow> what)) #
     map (\<lambda>(s, op, rg). ''        '' @ hexa s @ ''  '' @ (case op of None \<Rightarrow> ''??'' | Some m \<Rightarrow> m) @
       '' (R'' @ dec_digits rg @ '')   operand word = '' @ hexa s) (snd c)"

definition writes_text :: "Rom \<Rightarrow> string list" where
  "writes_text r =
     (''  STIC register writes: '' @ dec_digits (length (stic_writes r))) #
     map (\<lambda>(s, rg, v). ''        '' @ hexa s @ ''  MVO R'' @ dec_digits rg @ '','' @ hexa (int v)) (take 8 (stic_writes r)) @
     [''  GRAM writes:          '' @ dec_digits (length (gram_writes r))]"

definition most_called_text :: "Rom \<Rightarrow> string list" where
  "most_called_text r = map (\<lambda>(t, ss). ''  '' @ hexa (int t) @ ''  x'' @ left3 (length ss) @ '' '' @ exec_name t) (most_called r)"

definition title_text :: "string \<Rightarrow> Rom \<Rightarrow> string list" where
  "title_text file r =
     [replicate 72 (CHR ''=''),
      file @ ''   '' @ dec_digits (length (w r)) @ '' words at '' @ hexa (base r) @ ''-'' @ hexa (rom_end r - 1),
      replicate 72 (CHR ''='')]"

definition report ::
  "(rat \<Rightarrow> string) \<Rightarrow> (rat \<Rightarrow> string) \<Rightarrow> string \<Rightarrow> Rom \<Rightarrow> string list option" where
  "report fmt2 fmt0 file r =
     (case (header_text r, display_text r DISPLAY, header r) of
        (Some hs, Some ds, Some tbl, _) \<Rightarrow>
          map_option (\<lambda>ts. title_text file r @ [] # hs @
            [''  display state (static; reassert these, never transport them):''] @ ds @
            [[], ''-- timer table (the sim clock) --------------------------------''] @ ts @
            [[], ''-- RNG call sites (each needs a canonical-RNG wrapper) ---------''] @ rng_text r @
            [[], ''-- timer arm/stop calls (break when the table moves) -----------''] @ timer_calls_text r @
            [[], ''-- controller / phase / RNG cell references -------------------''] @ concat (map cell_text (cell_refs r)) @
            [[], ''-- display writes (expected: none; display comes from the header)''] @ writes_text r @
            [[], ''-- most-called EXEC routines (orientation only) ---------------''] @ most_called_text r @ [[]])
          (timers_text fmt2 fmt0 r tbl)
      | _ \<Rightarrow> None)"

subsection \<open>The source assembles to the words\<close>

text \<open>What the assembler reads of a line: the operands of DECLE, up to the tab in front of the comment.\<close>

function decle_fields :: "string \<Rightarrow> string list" where
  "decle_fields t = takeWhile (\<lambda>ch. ch \<noteq> CHR '','') t #
     (case dropWhile (\<lambda>ch. ch \<noteq> CHR '','') t of [] \<Rightarrow> [] | _ # u \<Rightarrow> decle_fields (dropWhile (\<lambda>ch. ch = CHR '' '') u))"
  by pat_completeness auto

termination
proof (relation "measure length")
  fix t u :: string and ch
  assume "dropWhile (\<lambda>ch. ch \<noteq> CHR '','') t = ch # u"
  then have "length u < length t"
    by (metis Suc_le_lessD length_Cons length_dropWhile_le)
  then show "(dropWhile (\<lambda>ch. ch = CHR '' '') u, t) \<in> measure length"
    using length_dropWhile_le [of "\<lambda>ch. ch = CHR '' ''" u] by simp
qed simp

declare decle_fields.simps [simp del]

definition operands :: "string \<Rightarrow> string list" where
  "operands l = (case literal ''        DECLE   '' l of None \<Rightarrow> []
     | Some t \<Rightarrow> decle_fields (takeWhile (\<lambda>ch. ch \<noteq> CHR 0x09) t))"

text \<open>Operands that can stand in a list.\<close>

definition plain :: "string \<Rightarrow> bool" where
  "plain e \<longleftrightarrow> e \<noteq> [] \<and> hd e \<noteq> CHR '' '' \<and> CHR '','' \<notin> set e \<and> CHR 0x09 \<notin> set e"

lemma fields_single: "plain e \<Longrightarrow> decle_fields e = [e]"
proof -
  assume "plain e"
  then have "\<forall>ch \<in> set e. ch \<noteq> CHR '',''"
    by (auto simp: plain_def)
  then have "takeWhile (\<lambda>ch. ch \<noteq> CHR '','') e = e" and "dropWhile (\<lambda>ch. ch \<noteq> CHR '','') e = []"
    by (simp_all only: takeWhile_eq_all_conv dropWhile_eq_Nil_conv)
  then show ?thesis
    by (subst decle_fields.simps) (simp only: list.case)
qed

lemma fields_join: "es \<noteq> [] \<Longrightarrow> \<forall>e \<in> set es. plain e \<Longrightarrow> decle_fields (join '', '' es) = es"
proof (induction "'', ''" es rule: join.induct)
  case (3 x y xs)
  have x: "\<forall>ch \<in> set x. ch \<noteq> CHR '',''"
    using "3.prems" by (auto simp: plain_def)
  obtain ch z where z: "join '', '' (y # xs) = ch # z" "ch \<noteq> CHR '' ''"
    using "3.prems" by (cases xs; cases y) (auto simp: plain_def)
  have "decle_fields (join '', '' (x # y # xs)) = x # decle_fields (join '', '' (y # xs))"
    using x z by (subst decle_fields.simps) (simp add: takeWhile_append2 dropWhile_append2)
  with 3 show ?case by simp
qed (simp_all add: fields_single)

definition upper_hex :: "char \<Rightarrow> bool" where
  "upper_hex ch \<longleftrightarrow> ch \<in> set ''0123456789ABCDEF''"

lemma hex_digits_upper: "list_all upper_hex (hex_digits n)"
proof (induction n rule: hex_digits.induct)
  case (1 n)
  have "upper_hex (hex_upper (n mod 16))"
    unfolding upper_hex_def by (rule hex_upper_chars) simp
  with 1 show ?case
    by (subst hex_digits.simps) (cases "n < 16", simp_all)
qed

lemma upper_hex_zero: "upper_hex (CHR ''0'')"
  by (simp add: upper_hex_def)

lemma upper_hex_ordinary: "upper_hex ch \<Longrightarrow> ch \<noteq> CHR '','' \<and> ch \<noteq> CHR 0x09"
  by (auto simp: upper_hex_def)

lemma hexa_plain: "plain (hexa (int n))"
proof -
  have "list_all upper_hex (hex_pad 4 (int n))"
    using hex_digits_upper [of n] upper_hex_zero by (auto simp: hex_pad_def Let_def list_all_iff)
  then have "\<forall>ch \<in> set (hex_pad 4 (int n)). ch \<noteq> CHR '','' \<and> ch \<noteq> CHR 0x09"
    using upper_hex_ordinary by (auto simp: list_all_iff)
  then show ?thesis
    by (auto simp: plain_def hexa_def)
qed

lemma tab_free: "\<forall>e \<in> set es. plain e \<Longrightarrow> CHR 0x09 \<notin> set (join '', '' es)"
  by (induction "'', ''" es rule: join.induct) (auto simp: plain_def)

lemma operands_line:
  assumes "es \<noteq> []" and "\<forall>e \<in> set es. plain e"
  shows "operands (''        DECLE   '' @ join '', '' es @ CHR 0x09 # c) = es"
proof -
  have "literal ''        DECLE   '' (''        DECLE   '' @ t) = Some t" for t
    by (rule literal_append)
  moreover have "takeWhile (\<lambda>ch. ch \<noteq> CHR 0x09) (join '', '' es @ CHR 0x09 # c) = join '', '' es"
    using tab_free [OF assms(2)] by (subst takeWhile_append2) auto
  ultimately show ?thesis
    unfolding operands_def using fields_join [OF assms] by simp
qed

text \<open>Assembled line by line, the text of the generated source gives exactly the words the dumped lines
  stand for: every operand separates again, and the comments are no part of it.\<close>

definition assembled_text :: "(string \<Rightarrow> nat) \<Rightarrow> string list \<Rightarrow> nat list" where
  "assembled_text asm ls = concat (map (map asm \<circ> operands) ls)"

primrec line_ok :: "dump_line \<Rightarrow> bool" where
  "line_ok (Row xs a) \<longleftrightarrow> xs \<noteq> [] \<and> (\<forall>x \<in> set xs. x < 65536)"
| "line_ok (Patched e a x) \<longleftrightarrow> plain e"

lemma operands_dump_text:
  assumes "line_ok l" and "\<forall>x < 65536. asm (hexa (int x)) = x"
  shows "map asm (operands (dump_text l)) = emitted asm l"
proof (cases l)
  case (Row xs a)
  have "operands (dump_text l) = map (\<lambda>x. hexa (int x)) xs"
    unfolding Row dump_text.simps using assms(1) Row hexa_plain by (intro operands_line) auto
  with assms Row show ?thesis
    by (auto simp: comp_def intro: map_idI)
next
  case (Patched e a x)
  then show ?thesis
    using operands_line [of "[e]"] assms(1) by simp
qed

lemma line_ok_flush_row: "\<forall>x \<in> set row. x < 65536 \<Longrightarrow> \<forall>l \<in> set (flush_row row a). line_ok l"
  by (cases row) auto

lemma dump_words_ok:
  assumes plain: "\<And>a e. patches a = Some e \<Longrightarrow> plain e"
  shows "\<forall>x \<in> set row. x < 65536 \<Longrightarrow> \<forall>x \<in> set xs. x < 65536 \<Longrightarrow>
    list_all line_ok (dump_words patches addr row xs)"
proof (induction xs arbitrary: row addr)
  case Nil
  then show ?case using line_ok_flush_row by (simp add: list_all_iff)
next
  case (Cons x xs)
  have row': "\<forall>y \<in> set (row @ [x]). y < 65536" and xs: "\<forall>y \<in> set xs. y < 65536"
    using Cons.prems by simp_all
  show ?case
  proof (cases "patches addr")
    case (Some e)
    then show ?thesis
      using Cons.IH [of "[]"] xs line_ok_flush_row [OF Cons.prems(1)] plain
      by (simp add: list_all_iff ball_Un)
  next
    case None
    then show ?thesis
      using Cons.IH [of "[]"] Cons.IH [OF row' xs] row' xs by (simp add: list_all_iff)
  qed
qed

theorem source_text_assembles:
  assumes "dump_rom data b patches = Inr ls" and "\<forall>(a, e) \<in> set patches. plain e"
    and "\<forall>x < 65536. asm (hexa (int x)) = x"
  shows "assembled_text asm (map dump_text ls) = assembled asm ls"
proof -
  have ls: "ls = dump_words (dict_of patches) b [] (words data)"
    using assms(1) by (auto simp: dump_rom_def split: if_splits)
  have "plain e" if "dict_of patches a = Some e" for a e
    using assms(2) map_of_SomeD [OF that [unfolded dict_of_def]] by auto
  then have "list_all line_ok ls"
    unfolding ls using dump_words_ok [of "dict_of patches" "[]" "words data"] words_bounded by auto
  then have "map (map asm \<circ> operands \<circ> dump_text) ls = map (emitted asm) ls"
    using operands_dump_text assms(3) by (simp add: list_all_iff)
  then show ?thesis
    by (simp only: assembled_text_def assembled_def map_map)
qed

text \<open>An assembler that knows hexadecimal constants.\<close>

definition digit_value :: "char \<Rightarrow> nat" where
  "digit_value ch = (let c = of_char ch in if c < 58 then c - 48 else c - 55)"

definition hex_reader :: "string \<Rightarrow> nat" where
  "hex_reader e = foldl (\<lambda>v ch. 16 * v + digit_value ch) 0 (tl e)"

lemma digit_value_upper: "n < 16 \<Longrightarrow> digit_value (hex_upper n) = n"
proof -
  have "list_all (\<lambda>n. digit_value (hex_upper n) = n) [0..<16]"
    by code_simp
  then show "n < 16 \<Longrightarrow> ?thesis"
    by (simp add: list_all_iff)
qed

lemma hex_digits_value: "foldl (\<lambda>v ch. 16 * v + digit_value ch) 0 (hex_digits n) = n"
proof (induction n rule: hex_digits.induct)
  case (1 n)
  then show ?case
    using digit_value_upper [of "n mod 16"] by (subst hex_digits.simps) simp
qed

lemma foldl_zeros: "foldl (\<lambda>v ch. 16 * v + digit_value ch) 0 (replicate k (CHR ''0'')) = 0"
  by (induction k) (simp_all add: digit_value_def)

lemma hex_reader_pad: "hex_reader (CHR ''$'' # hex_pad k (int n)) = n"
  by (simp add: hex_reader_def hex_pad_def Let_def hex_digits_value foldl_zeros)

lemma hex_reader_hexa: "hex_reader (hexa (int n)) = n"
  by (simp add: hexa_def hex_reader_pad)

theorem source_text_assembles_witness:
  "assembled_text hex_reader (map dump_text [Row [0x1234] 0x5000, Patched ''$ABCD'' 0x5001 0x5678, Row [9] 0x5002]) =
   [0x1234, 0xABCD, 9]"
proof -
  have run: "dump_rom [0x12, 0x34, 0x56, 0x78, 0, 9] 0x5000 [(0x5001, ''$ABCD'')] =
      Inr [Row [0x1234] 0x5000, Patched ''$ABCD'' 0x5001 0x5678, Row [9] 0x5002]"
    by (simp add: dump_rom_def dict_of_def push_bit_eq_mult)
  have "hex_reader ''$ABCD'' = 0xABCD"
    by (simp add: hex_reader_def digit_value_def)
  then show ?thesis
    using source_text_assembles [OF run, of hex_reader] hex_reader_hexa by (simp add: assembled_def plain_def)
qed

subsection \<open>The report and the messages\<close>

lemma rom_at_words: "0 \<le> i \<Longrightarrow> rom_at r (base r + i) = (if nat i < length (w r) then Some (w r ! nat i) else None)"
  by (auto simp: rom_at_def py_item_def)

lemma timers_text_total: "\<exists>ts. timers_text fmt2 fmt0 r tbl = Some ts"
  using timer_walk_is_safe [of r "int tbl"] by (auto simp: timers_text_def has_def)

text \<open>The report is written whole for every image of at least 20 words, the cart header; a shorter image
  raises IndexError in it.\<close>

theorem report_needs_the_header: "report fmt2 fmt0 file r \<noteq> None \<longleftrightarrow> 20 \<le> length (w r)"
proof (cases "20 \<le> length (w r)")
  case True
  then obtain tbl start gram where hd: "header r = (Some tbl, Some start, Some gram)"
    by (simp add: header_def ptr_def rom_at_words add.assoc)
  moreover have "\<exists>ds. display_text r DISPLAY = Some ds"
    using True by (simp add: DISPLAY_def rom_at_words)
  moreover have "\<exists>ts. timers_text fmt2 fmt0 r tbl = Some ts"
    by (rule timers_text_total)
  ultimately show ?thesis
    using True by (auto simp: report_def header_text_def)
next
  case False
  then have "display_text r DISPLAY = None"
    by (auto simp: DISPLAY_def rom_at_words split: option.splits)
  with False show ?thesis
    by (simp add: report_def split: option.splits)
qed

lemma rng_text_in_report: "report fmt2 fmt0 file r = Some ls \<Longrightarrow> set (rng_text r) \<subseteq> set ls"
  by (auto simp: report_def split: option.splits prod.splits)

text \<open>Every call of an EXEC random routine in an image above the EXEC is in the report, with the words to
  patch.\<close>

theorem report_names_every_rng_call:
  assumes "report fmt2 fmt0 file r = Some ls" and "0x169E < base r"
    and "(s, rg, t) \<in> set (jsrs r)" and "t \<in> {0x167D, 0x169E}"
  shows "(''           patch words '' @ hexa (s + 1) @ ''/'' @ hexa (s + 2) @ '' to the wrapper'') \<in> set ls"
proof -
  have "(s, t) \<in> set (rng_sites r)"
    using assms(2-4) by (subst rng_sites_exact) auto
  then have "(''           patch words '' @ hexa (s + 1) @ ''/'' @ hexa (s + 2) @ '' to the wrapper'') \<in> set (rng_text r)"
    by (force simp: rng_text_def)
  with rng_text_in_report [OF assms(1)] show ?thesis
    by blast
qed

text \<open>The verifier prints its OK line exactly when it exits with status 0.\<close>

theorem check_text_tells_status:
  "exit_status v = 0 \<longleftrightarrow> (\<exists>l \<in> set (check_text patches v). literal ''verify-patch: OK ('' l \<noteq> None)"
  by (auto simp: exit_status_def check_text_def Let_def)

end
