(* ===== verification/Trace_Report.thy ===== *)
theory Trace_Report
  imports Trace_Tools Rom_Report
begin

text \<open>
  What the determinism tools write: the messages of \<open>tools/crc_trace_diff.py\<close>, \<open>tools/cell_diff.py\<close> and
  \<open>tools/check_dest_phase.py\<close>, and the source of the recorded input that \<open>tools/mk_replay.py\<close> generates,
  as lists of lines (those of \<open>sys.exit\<close> included).
\<close>

definition int_text :: "int \<Rightarrow> string" where
  "int_text i = (if i < 0 then CHR ''-'' # dec_digits (nat (- i)) else dec_digits (nat i))"

text \<open>\<open>f"{n:3d}"\<close>.\<close>

definition right3 :: "nat \<Rightarrow> string" where
  "right3 n = replicate (3 - length (dec_digits n)) (CHR '' '') @ dec_digits n"

subsection \<open>The determinism gate\<close>

definition parked_text :: "memory \<Rightarrow> memory \<Rightarrow> string list" where
  "parked_text a b = (case (word16 a 0x8108, word16 b 0x8108) of
     (Some ta, Some tb) \<Rightarrow> [''run A parked at tick '' @ dec_digits ta @ '', run B at tick '' @ dec_digits tb]
   | _ \<Rightarrow> [])"

definition missing_line :: "nat \<Rightarrow> string list" where
  "missing_line missing =
     (if missing \<noteq> 0 then [''warning: '' @ dec_digits missing @ '' ring slots missing from dumps''] else [])"

definition missing_text :: "memory \<Rightarrow> memory \<Rightarrow> string list" where
  "missing_text a b =
     (case word16 a 0x8108 of None \<Rightarrow> [] | Some tick_a \<Rightarrow>
        (case compare_slots tick_a a b [0 ..< 256] of None \<Rightarrow> []
         | Some (missing, ms) \<Rightarrow> missing_line missing))"

definition cell_line :: "nat \<times> nat \<times> nat \<Rightarrow> string" where
  "cell_line c = (case c of (x, va, vb) \<Rightarrow> hexa (int x) @ '': A='' @ hexa (int va) @ '' B='' @ hexa (int vb))"

definition mismatch_line :: "int \<times> nat \<times> nat \<times> nat \<Rightarrow> string" where
  "mismatch_line m = (case m of (tick, slot, ca, cb) \<Rightarrow>
     ''  tick '' @ int_text tick @ '' (slot '' @ right3 slot @ ''): A='' @ hexa (int ca) @ '' B='' @ hexa (int cb))"

text \<open>What is printed in front of a KeyError is only the line with the ticks, once both are known.\<close>

definition trace_text :: "memory \<Rightarrow> memory \<Rightarrow> string list" where
  "trace_text a b = (case trace_diff a b of
     NoDump n \<Rightarrow> [''run '' @ (if n = 0 then ''A'' else ''B'') @ '': no $8108 dump found'']
   | Missing \<Rightarrow> parked_text a b
   | ParkMismatch ta tb \<Rightarrow> parked_text a b @ [''PARK TICK MISMATCH - runs are not comparable'']
   | SettledFail cs \<Rightarrow> parked_text a b @ missing_text a b @
       [''SETTLED-STATE FAIL: '' @ dec_digits (length cs) @ '' cells differ at park:''] @
       map (\<lambda>c. ''  '' @ cell_line c) (take 10 cs)
   | DeterminismFail ms first \<Rightarrow> parked_text a b @ missing_text a b @
       [''settled-state check: object table + scratch identical at park'',
        ''DETERMINISM FAIL: '' @ dec_digits (length ms) @ ''/256 slots differ''] @
       map mismatch_line (take 10 ms) @ [''first divergence at sim tick '' @ int_text first]
   | Pass missing \<Rightarrow> parked_text a b @ missing_text a b @
       [''settled-state check: object table + scratch identical at park'',
        ''DETERMINISM PASS: all 256 compared ticks have identical checksums''])"

definition cell_diff_text :: "memory \<Rightarrow> memory \<Rightarrow> string list" where
  "cell_diff_text a b = map cell_line (cell_diff a b) @
     [dec_digits (length (cell_diff a b)) @ '' differing cells in checksummed ranges'']"

subsection \<open>The destination phase\<close>

primrec phase_text :: "phase_failure \<Rightarrow> string" where
  "phase_text NoDumps = ''no memory dumps found''"
| "phase_text NoPlayerCount = ''no $0161 dump found (the run script must dump $0160-$016F)''"
| "phase_text (BadPlayerCount n) = ''GF_PCOUNT ($0161) = '' @ dec_digits n @ '', expected 1-4 -- the '' @
     ''player-count prompt was never answered (ARB_INJECT '' @ ''never fired, or fired with a wrong event code)''"
| "phase_text StillOnPrompt = ''GAME_TBL still points at GF_HTBL_PROMPT ($51DD) -- '' @
     ''parked on the player-count prompt; every checksum '' @ ''agrees trivially''"
| "phase_text NoHole = ''no $016C dump found (the run script must dump $0160-$016F)''"
| "phase_text NoProgress = ''GF_HOLE ($016C) still 0 and GAME_TBL is not '' @ ''GF_HTBL_LIVE -- no real gameplay progress observed''"
| "phase_text EmptyObjectTable = ''object table $031D-$035C all zero -- nothing was ever '' @ ''populated''"

definition dest_ok_text :: "string \<Rightarrow> memory \<Rightarrow> string" where
  "dest_ok_text path mem =
     ''DEST-PHASE OK ('' @ path @ ''): player count = '' @ dec_digits (mem_get mem 0x161 0) @ '', '' @
     ''hole = '' @ dec_digits (mem_get mem 0x16C 0) @
     (case word16 mem 0x80C0 of None \<Rightarrow> [] | Some table \<Rightarrow> '' (GAME_TBL='' @ hexa (int table) @ '')'')"

text \<open>The module: an OK line per file without problems, then the problems of all files, and the status.\<close>

definition dest_main :: "(string \<times> memory) list \<Rightarrow> string list \<times> nat" where
  "dest_main files =
     (let oks = map (\<lambda>(path, mem). dest_ok_text path mem) (filter (\<lambda>f. check_dest (snd f) = []) files);
          problems = concat (map (\<lambda>(path, mem). map (\<lambda>f. path @ '': '' @ phase_text f) (check_dest mem)) files)
      in if problems = [] then (oks, 0)
         else (oks @ [''DEST-PHASE FAIL:''] @ map (\<lambda>p. ''  - '' @ p) problems, 1))"

subsection \<open>Recorded input\<close>

definition byte_text :: "nat \<Rightarrow> string" where
  "byte_text v = CHR ''$'' # hex_pad 2 (int v)"

definition row_text :: "nat \<Rightarrow> nat list \<Rightarrow> string" where
  "row_text t row = ''        DECLE   '' @ join '', '' (map byte_text row) @ CHR 0x09 # ''; tick '' @ dec_digits t"

definition replay_text :: "memory \<Rightarrow> string list" where
  "replay_text mem =
     (let (n, rows) = mk_replay mem in
      [''; Generated by tools/mk_replay.py -- '' @ dec_digits n @ '' recorded game ticks'',
       ''REPLAY_LEN      EQU     '' @ dec_digits n,
       ''REPLAY_TBL:''] @ map (\<lambda>(t, row). row_text t row) (enumerate 0 rows))"

subsection \<open>What the texts tell\<close>

abbreviation says_pass :: "string \<Rightarrow> bool" where
  "says_pass l \<equiv> literal ''DETERMINISM PASS'' l \<noteq> None"

lemma quiet_parked: "l \<in> set (parked_text a b) \<Longrightarrow> \<not> says_pass l"
  by (auto simp: parked_text_def split: option.splits)

lemma quiet_missing_line: "l \<in> set (missing_line n) \<Longrightarrow> \<not> says_pass l"
  by (auto simp: missing_line_def split: if_splits)

lemma quiet_warning:
  "l \<in> set (case x of None \<Rightarrow> [] | Some t \<Rightarrow> (case f t of None \<Rightarrow> [] | Some (n, ms) \<Rightarrow> missing_line n)) \<Longrightarrow>
   \<not> says_pass l"
  using quiet_missing_line by (auto split: option.splits)

lemma quiet_missing: "l \<in> set (missing_text a b) \<Longrightarrow> \<not> says_pass l"
  unfolding missing_text_def by (rule quiet_warning)

lemma quiet_mismatch: "\<not> says_pass (mismatch_line m)"
  by (cases m) (simp add: mismatch_line_def)

theorem trace_text_tells_the_verdict:
  "(\<exists>l \<in> set (trace_text a b). says_pass l) \<longleftrightarrow> (\<exists>missing. trace_diff a b = Pass missing)"
  using quiet_parked [of _ a b] quiet_missing [of _ a b] quiet_mismatch
  by (cases "trace_diff a b") (auto simp: trace_text_def)

lemma problems_empty:
  "concat (map (\<lambda>(path, mem). map (\<lambda>f. path @ '': '' @ phase_text f) (check_dest mem)) files) = [] \<longleftrightarrow>
   (\<forall>f \<in> set files. check_dest (snd f) = [])"
  by auto

lemma enumerate_all: "(\<forall>x \<in> set (enumerate n xs). P (snd x)) \<longleftrightarrow> (\<forall>x \<in> set xs. P x)"
  by (induction xs arbitrary: n) auto

lemma check_all_empty: "check_all mems = [] \<longleftrightarrow> (\<forall>m \<in> set mems. check_dest m = [])"
  using enumerate_all [of 0 mems "\<lambda>m. check_dest m = []"] by (simp add: check_all_def case_prod_beta)

theorem dest_main_passes:
  "snd (dest_main files) = 0 \<longleftrightarrow> check_all (map snd files) = []"
  unfolding dest_main_def Let_def problems_empty check_all_empty by simp

lemma byte_text_plain: "plain (byte_text n)"
proof -
  have "list_all upper_hex (hex_pad 2 (int n))"
    using hex_digits_upper [of n] upper_hex_zero by (auto simp: hex_pad_def Let_def list_all_iff)
  then have "\<forall>ch \<in> set (hex_pad 2 (int n)). ch \<noteq> CHR '','' \<and> ch \<noteq> CHR 0x09"
    using upper_hex_ordinary by (auto simp: list_all_iff)
  then show ?thesis
    by (auto simp: plain_def byte_text_def)
qed

text \<open>The generated table assembles to the recorded inputs, whatever was recorded: one row of four words a tick.\<close>

theorem replay_text_assembles:
  assumes "\<forall>x < 256. asm (byte_text x) = x"
  shows "map (map asm \<circ> operands) (drop 3 (replay_text mem)) = snd (mk_replay mem)"
proof -
  have row: "map asm (operands (row_text t (replay_row mem i))) = replay_row mem i" for t i
  proof -
    have "operands (row_text t (replay_row mem i)) = map byte_text (replay_row mem i)"
      unfolding row_text_def by (rule operands_line) (auto simp: replay_row_def Let_def byte_text_plain)
    moreover have "\<forall>v \<in> set (replay_row mem i). v < 256"
      using and_mask_nat [of _ 8] by (simp add: replay_row_def Let_def)
    ultimately show ?thesis
      using assms by (auto intro: map_idI)
  qed
  show ?thesis
    by (rule nth_equalityI) (simp_all add: replay_text_def mk_replay_def Let_def row nth_enumerate_eq)
qed

theorem replay_text_assembles_witness:
  "map (map hex_reader \<circ> operands) (drop 3 (replay_text [(0x9001, 0x3C)])) ! 0 = [0x40, 0x3C, 0, 0]"
proof -
  have "hex_reader (byte_text x) = x" for x
    by (simp add: byte_text_def hex_reader_pad)
  then have "map (map hex_reader \<circ> operands) (drop 3 (replay_text [(0x9001, 0x3C)])) = snd (mk_replay [(0x9001, 0x3C)])"
    using replay_text_assembles [of hex_reader] by blast
  then show ?thesis
    by (simp add: mk_replay_def Let_def REC_CAP_def replay_row_def mem_get_def del: upt_rec_numeral)
qed

end
