(* ===== verification/Publisher_Run.thy ===== *)
theory Publisher_Run
  imports Publisher_Json
begin

text \<open>
  A whole run of the contract test \<open>tools/test_lobby_pub.py\<close> with SERVER=py: the mock lobby, the waits
  and \<open>main\<close>. The test looks at what the mock has received again and again; a run is a function of
  what it sees each time, a list of moments. Serving HTTP, the thread
  and the process of the C relay are left out.
\<close>

subsection \<open>The mock lobby\<close>

record Mock =
  bodies :: "string list"
  parsed :: "Payload list"

text \<open>\<open>do_POST\<close>: the body is kept before \<open>json.loads\<close> can raise; the status of the answer, or none.\<close>

definition do_POST :: "(string \<Rightarrow> Payload option) \<Rightarrow> string \<Rightarrow> Mock \<Rightarrow> Mock \<times> nat option" where
  "do_POST loads body m =
     (let m = m\<lparr>bodies := bodies m @ [body]\<rparr> in
      case loads body of None \<Rightarrow> (m, None)
      | Some x \<Rightarrow> (m\<lparr>parsed := parsed m @ [x]\<rparr>, Some 201))"

definition received :: "(string \<Rightarrow> Payload option) \<Rightarrow> Payload list \<Rightarrow> Mock" where
  "received loads ps = fold (\<lambda>x m. fst (do_POST loads (json_body x) m)) ps \<lparr>bodies = [], parsed = []\<rparr>"

lemma received_snoc:
  "received loads (ps @ [x]) = fst (do_POST loads (json_body x) (received loads ps))"
  by (simp add: received_def)

lemma received_all:
  assumes "\<forall>x. loads (json_body x) = Some x"
  shows "received loads ps = \<lparr>bodies = map json_body ps, parsed = ps\<rparr>"
proof (induction ps rule: rev_induct)
  case Nil
  then show ?case by (simp add: received_def)
next
  case (snoc x ps)
  then show ?case using assms by (simp add: received_snoc do_POST_def Let_def)
qed

subsection \<open>The waits\<close>

text \<open>A moment: the clock and what the mock has received.\<close>

type_synonym moment = "rat \<times> Mock"

text \<open>The loop of \<open>wait_for\<close>: timed out, or what is seen from the moment on at which the condition held;
  \<open>None\<close> while it is still waiting.\<close>

fun wait_until :: "(Mock \<Rightarrow> bool) \<Rightarrow> rat \<Rightarrow> moment list \<Rightarrow> (unit + moment list) option" where
  "wait_until cond deadline [] = None"
| "wait_until cond deadline ((t, m) # ms) =
     (if t < deadline then (if cond m then Some (Inr ((t, m) # ms)) else wait_until cond deadline ms)
      else Some (Inl ()))"

fun wait_for :: "(Mock \<Rightarrow> bool) \<Rightarrow> rat \<Rightarrow> moment list \<Rightarrow> (unit + moment list) option" where
  "wait_for cond timeout [] = None"
| "wait_for cond timeout ((t, m) # ms) = wait_until cond (t + timeout) ms"

subsection \<open>The test\<close>

datatype outcome = BadServer | SeatsRefused | NotBuilt | TimedOut string | AssertFailed reg_failure | BodyDiffers | KeepaliveOffline | RaisesIndexError | Passed

text \<open>Behind \<open>shutdown()\<close>.\<close>

definition offline_check :: "moment list \<Rightarrow> outcome option" where
  "offline_check ms =
     map_option (\<lambda>r. case r of Inl _ \<Rightarrow> TimedOut ''the offline POST on shutdown'' | Inr _ \<Rightarrow> Passed)
       (wait_for (\<lambda>m. parsed m \<noteq> [] \<and> status (last (parsed m)) = ''offline'') 15 ms)"

definition keepalive_check :: "moment list \<Rightarrow> outcome option" where
  "keepalive_check ms =
     (case ms of [] \<Rightarrow> None | (_, m) # ms \<Rightarrow>
        let n = length (parsed m) in
        case wait_for (\<lambda>m. length (parsed m) > n) 10 ms of
          None \<Rightarrow> None
        | Some (Inl _) \<Rightarrow> Some (TimedOut ''a keepalive re-POST'')
        | Some (Inr ms) \<Rightarrow>
            (case tl ms of [] \<Rightarrow> None | (_, m) # ms \<Rightarrow>
               if parsed m = [] then Some RaisesIndexError
               else if status (last (parsed m)) \<noteq> ''online'' then Some KeepaliveOffline
               else offline_check ms))"

text \<open>The assertions on \<open>posts[0]\<close> and \<open>bodies[0]\<close>, which stay as they are once they are there.\<close>

definition first_check :: "nat \<Rightarrow> Mock \<Rightarrow> outcome option" where
  "first_check seats m =
     (case parsed m of [] \<Rightarrow> Some RaisesIndexError | reg # _ \<Rightarrow>
        case check_registration seats reg of Some f \<Rightarrow> Some (AssertFailed f) | None \<Rightarrow>
          case bodies m of [] \<Rightarrow> Some RaisesIndexError | b # _ \<Rightarrow>
            if b \<noteq> json_body (expected seats) then Some BodyDiffers else None)"

definition contract_test :: "nat \<Rightarrow> moment list \<Rightarrow> outcome option" where
  "contract_test seats ms =
     (case wait_for (\<lambda>m. length (parsed m) \<ge> 1) 10 ms of
        None \<Rightarrow> None
      | Some (Inl _) \<Rightarrow> Some (TimedOut ''the registration POST'')
      | Some (Inr []) \<Rightarrow> None
      | Some (Inr ((_, m) # ms)) \<Rightarrow>
          (case first_check seats m of Some r \<Rightarrow> Some r | None \<Rightarrow> keepalive_check ms))"

text \<open>The command \<open>run_c\<close> starts.\<close>

definition run_c_command :: "string \<Rightarrow> nat \<Rightarrow> nat \<Rightarrow> string \<Rightarrow> string list" where
  "run_c_command relay_c port seats base =
     [relay_c, ''--port'', dec_digits port,
      ''--max-seats'', dec_digits seats, ''--lobby-enabled'',
      ''--lobby-url'', base, ''--lobby-appkey'', json_int APPKEY,
      ''--lobby-serverurl'', SERVERURL, ''--lobby-client-url'', CLIENT_URL,
      ''--lobby-keepalive'', ''1.0'', ''--game-name'', GAME,
      ''--server-name'', SERVER_NAME]"

text \<open>\<open>main\<close> up to the start of the publisher; \<open>built\<close> says whether the C relay can be executed.\<close>

definition test_start :: "string \<Rightarrow> nat \<Rightarrow> bool \<Rightarrow> outcome option" where
  "test_start impl seats built =
     (if impl \<notin> {''py'', ''c''} then Some BadServer
      else if impl = ''py'' \<and> seats \<noteq> 2 then Some SeatsRefused
      else if impl = ''c'' \<and> \<not> built then Some NotBuilt
      else None)"

definition test_main :: "string \<Rightarrow> nat \<Rightarrow> bool \<Rightarrow> moment list \<Rightarrow> outcome option" where
  "test_main impl seats built ms =
     (case test_start impl seats built of Some r \<Rightarrow> Some r | None \<Rightarrow> contract_test seats ms)"

subsection \<open>Waiting ends\<close>

text \<open>A wait that looks often enough ends: the loop sleeps for a twentieth of a second, so that \<open>20 * timeout\<close>
  looks and one more are enough.\<close>

definition clocked :: "moment list \<Rightarrow> bool" where
  "clocked ms \<longleftrightarrow> (\<forall>i. Suc i < length ms \<longrightarrow> fst (ms ! i) + 1 / 20 \<le> fst (ms ! Suc i))"

lemma clocked_Cons: "clocked ((t, m) # ms) \<Longrightarrow> clocked ms"
  unfolding clocked_def by (metis Suc_less_eq length_Cons nth_Cons_Suc)

lemma clocked_far: "clocked ms \<Longrightarrow> i < length ms \<Longrightarrow> fst (ms ! 0) + of_nat i / 20 \<le> fst (ms ! i)"
proof (induction i)
  case (Suc i)
  then have "fst (ms ! 0) + of_nat i / 20 \<le> fst (ms ! i)"
    by simp
  moreover have "fst (ms ! i) + 1 / 20 \<le> fst (ms ! Suc i)"
    using Suc.prems by (simp add: clocked_def)
  moreover have "(of_nat (Suc i) :: rat) / 20 = of_nat i / 20 + 1 / 20"
    by (simp add: add_divide_distrib)
  ultimately show ?case
    by linarith
qed simp

lemma wait_until_ends:
  "i < length ms \<Longrightarrow> deadline \<le> fst (ms ! i) \<Longrightarrow> wait_until cond deadline ms \<noteq> None"
proof (induction cond deadline ms arbitrary: i rule: wait_until.induct)
  case (2 cond deadline t m ms)
  show ?case
  proof (cases "t < deadline \<and> \<not> cond m")
    case True
    then show ?thesis
      using 2 by (cases i) auto
  qed auto
qed simp

theorem wait_for_ends:
  assumes "clocked ms" and "20 * timeout \<le> of_nat n" and "Suc n < length ms"
  shows "wait_for cond timeout ms \<noteq> None"
proof -
  obtain t m rest where ms: "ms = (t, m) # rest"
    using assms(3) by (cases ms) auto
  have "t + of_nat (Suc n) / 20 \<le> fst (ms ! Suc n)"
    using clocked_far [OF assms(1,3)] ms by simp
  then have "t + (1 + of_nat n) / 20 \<le> fst (rest ! n)"
    using ms by simp
  moreover have "timeout \<le> (1 + of_nat n) / 20"
    using assms(2) by simp
  ultimately have "t + timeout \<le> fst (rest ! n)"
    by linarith
  then show ?thesis
    using wait_until_ends [of n rest] assms(3) ms by simp
qed

lemma wait_until_holds:
  "wait_until cond deadline ms = Some (Inr ms') \<Longrightarrow>
   \<exists>t m rest. ms' = (t, m) # rest \<and> cond m \<and> set ms' \<subseteq> set ms"
  by (induction cond deadline ms rule: wait_until.induct) (auto split: if_splits)

lemma wait_for_holds:
  assumes "wait_for cond timeout ms = Some (Inr ms')"
  obtains t m rest where "ms' = (t, m) # rest" and "cond m" and "(t, m) \<in> set ms" and "set rest \<subseteq> set ms"
proof (cases ms)
  case (Cons x rest)
  with assms obtain t where "wait_until cond (t + timeout) rest = Some (Inr ms')"
    by (cases x) auto
  from wait_until_holds [OF this] obtain t m rest' where
    "ms' = (t, m) # rest'" "cond m" "(t, m) \<in> set rest" "set rest' \<subseteq> set rest"
    by auto
  with Cons that show thesis
    by auto
qed (use assms in simp)

subsection \<open>What a run shows\<close>

text \<open>The mock has received the first requests of a publisher that the test has started. That the test shortens
  the keepalive makes no difference to them: an update at that moment leads to the same request.\<close>

definition listening :: "(string \<Rightarrow> Payload option) \<Rightarrow> string \<Rightarrow> rat \<Rightarrow> Mock \<Rightarrow> bool" where
  "listening loads b t m \<longleftrightarrow>
     (\<exists>p k. published (run_python b t) p \<and> m = received loads (take k (map snd (posts p))))"

text \<open>Against the repository's own publisher every run of the test that ends, fails: it is refused, no request
  arrives in time, or the seat count of the registration is wrong.\<close>

theorem every_run_fails:
  assumes "\<forall>x. loads (json_body x) = Some x" and "\<forall>(_, m) \<in> set ms. listening loads b t m"
    and "test_main ''py'' seats built ms = Some r"
  shows "if seats \<noteq> 2 then r = SeatsRefused
    else r \<in> {TimedOut ''the registration POST'', AssertFailed BadMaxplayers}"
proof (cases "seats = 2")
  case False
  with assms(3) show ?thesis
    by (simp add: test_main_def test_start_def)
next
  case True
  then have run: "contract_test 2 ms = Some r"
    using assms(3) by (simp add: test_main_def test_start_def)
  show ?thesis
  proof (cases "wait_for (\<lambda>m. length (parsed m) \<ge> 1) 10 ms")
    case None
    with run show ?thesis by (simp add: contract_test_def)
  next
    case (Some w)
    show ?thesis
    proof (cases w)
      case (Inl u)
      with run Some True show ?thesis by (simp add: contract_test_def)
    next
      case (Inr ms')
      with Some have w: "wait_for (\<lambda>m. length (parsed m) \<ge> 1) 10 ms = Some (Inr ms')"
        by simp
      obtain t' m rest where seen: "ms' = (t', m) # rest" "1 \<le> length (parsed m)" "(t', m) \<in> set ms"
        by (rule wait_for_holds [OF w]) blast
      obtain p k where p: "published (run_python b t) p" "m = received loads (take k (map snd (posts p)))"
        using assms(2) seen(3) by (auto simp: listening_def)
      then have m: "parsed m = take k (map snd (posts p))"
        using received_all [OF assms(1)] by simp
      with seen(2) have "0 < length (posts p)" and hd: "parsed m = snd (posts p ! 0) # tl (parsed m)"
        by (cases "posts p"; cases k; simp)+
      then have "check_registration 2 (snd (posts p ! 0)) = Some BadMaxplayers"
        using publisher_test_never_passes [OF p(1), of 0 2] by simp
      then have "first_check 2 m = Some (AssertFailed BadMaxplayers)"
        by (simp only: first_check_def, subst hd, simp)
      with run Some Inr seen(1) True show ?thesis by (simp add: contract_test_def)
    qed
  qed
qed

theorem every_run_fails_witness:
  "\<exists>loads. test_main ''py'' 2 True [(0, received loads []), (1, received loads (map snd (posts (worker_take (run_python ''http://l'' 0)))))] =
     Some (AssertFailed BadMaxplayers)"
proof -
  define loads where "loads x = Some (inv json_body x)" for x
  have inverse: "\<forall>x. loads (json_body x) = Some x"
    using body_determines_payload by (simp add: loads_def inj_def)
  let ?p = "worker_take (run_python ''http://l'' 0)"
  let ?ms = "[(0, received loads []), (1, received loads (map snd (posts ?p)))] :: moment list"
  have p: "published (run_python ''http://l'' 0) ?p"
    by (rule published.step [OF published.start publisher_step.wait_ends [where t = 300]])
      (simp_all add: run_python_def update_def new_Publisher_def KEEPALIVE_SECS_def)
  have "listening loads ''http://l'' 0 (received loads [])"
    using published.start unfolding listening_def by (intro exI [of _ "run_python ''http://l'' 0"] exI [of _ 0]) auto
  moreover have "listening loads ''http://l'' 0 (received loads (map snd (posts ?p)))"
    using p unfolding listening_def by (intro exI [of _ ?p] exI [of _ 1])
      (simp add: publisher_defs run_python_def new_Publisher_def)
  ultimately have heard: "\<forall>(_, m) \<in> set ?ms. listening loads ''http://l'' 0 m"
    by simp
  have run: "test_main ''py'' 2 True ?ms = Some (AssertFailed BadMaxplayers)"
    using received_all [OF inverse]
    by (simp add: test_main_def test_start_def contract_test_def first_check_def check_registration_def publisher_defs
      run_python_def new_Publisher_def)
  from every_run_fails [OF inverse heard run] run show ?thesis
    by blast
qed

text \<open>Whatever the test is run against: when it passes, it has seen the contract: a first request with the
  assertions' fields and the very body expected, later one request more, then a last one that says
  offline.\<close>

definition says_offline :: "Mock \<Rightarrow> bool" where
  "says_offline m \<longleftrightarrow> parsed m \<noteq> [] \<and> status (last (parsed m)) = ''offline''"

lemma offline_passed:
  assumes "offline_check ms = Some Passed"
  shows "\<exists>m \<in> snd ` set ms. says_offline m"
proof -
  obtain r where r: "wait_for says_offline 15 ms = Some r" "(case r of Inl _ \<Rightarrow> TimedOut ''the offline POST on shutdown'' | Inr _ \<Rightarrow> Passed) = Passed"
    using assms by (auto simp: offline_check_def says_offline_def [abs_def])
  then obtain ms' where w: "wait_for says_offline 15 ms = Some (Inr ms')"
    by (cases r) auto
  obtain t m rest where "says_offline m" "(t, m) \<in> set ms"
    by (rule wait_for_holds [OF w])
  then show ?thesis by force
qed

lemma keepalive_passed:
  assumes "keepalive_check ms = Some Passed"
  shows "\<exists>m \<in> snd ` set ms. \<exists>m' \<in> snd ` set ms. length (parsed m) < length (parsed m') \<and>
    (\<exists>m'' \<in> snd ` set ms. says_offline m'')"
proof -
  obtain t m rest where ms: "ms = (t, m) # rest"
    using assms by (cases ms) (auto simp: keepalive_check_def)
  then obtain ms' where w: "wait_for (\<lambda>m'. length (parsed m) < length (parsed m')) 10 rest = Some (Inr ms')"
    using assms by (auto simp: keepalive_check_def Let_def split: option.splits sum.splits)
  obtain t' m' rest' where more: "ms' = (t', m') # rest'" "length (parsed m) < length (parsed m')"
    "(t', m') \<in> set rest" "set rest' \<subseteq> set rest"
    by (rule wait_for_holds [OF w])
  then have "offline_check (tl rest') = Some Passed"
    using assms ms w by (auto simp: keepalive_check_def Let_def split: list.splits if_splits)
  with offline_passed obtain m'' where "m'' \<in> snd ` set (tl rest')" "says_offline m''"
    by blast
  moreover have "set (tl rest') \<subseteq> set ms"
    using more(4) ms by (cases rest') auto
  ultimately show ?thesis
    using more ms by force
qed

theorem passing_shows_the_contract:
  assumes "contract_test seats ms = Some Passed"
  shows "(\<exists>m \<in> snd ` set ms. \<exists>reg later b more. parsed m = reg # later \<and> bodies m = b # more \<and>
      check_registration seats reg = None \<and> b = json_body (expected seats)) \<and>
    (\<exists>m \<in> snd ` set ms. \<exists>m' \<in> snd ` set ms. length (parsed m) < length (parsed m')) \<and>
    (\<exists>m \<in> snd ` set ms. says_offline m)"
proof -
  obtain ms' where w: "wait_for (\<lambda>m. length (parsed m) \<ge> 1) 10 ms = Some (Inr ms')"
    using assms by (auto simp: contract_test_def split: option.splits sum.splits)
  obtain t m rest where seen: "ms' = (t, m) # rest" "(t, m) \<in> set ms" "set rest \<subseteq> set ms"
    by (rule wait_for_holds [OF w])
  with w assms have parts: "first_check seats m = None" "keepalive_check rest = Some Passed"
    by (auto simp: contract_test_def first_check_def split: option.splits list.splits if_splits)
  from parts(1) have "\<exists>reg later b more. parsed m = reg # later \<and> bodies m = b # more \<and>
      check_registration seats reg = None \<and> b = json_body (expected seats)"
    by (auto simp: first_check_def split: option.splits list.splits if_splits)
  moreover have "snd ` set rest \<subseteq> snd ` set ms" "m \<in> snd ` set ms"
    using seen by force+
  ultimately show ?thesis
    using keepalive_passed [OF parts(2)] by blast
qed

text \<open>And it can pass: with four seats, as the publisher counts them.\<close>

lemma a_run_passes:
  assumes "json_body x = json_body (expected 4)" and "check_registration 4 x = None"
  shows "contract_test 4
    [(0, \<lparr>bodies = [], parsed = []\<rparr>), (1, \<lparr>bodies = [json_body x], parsed = [x]\<rparr>),
     (2, \<lparr>bodies = [json_body x], parsed = [x]\<rparr>), (2, \<lparr>bodies = [json_body x], parsed = [x]\<rparr>),
     (3, \<lparr>bodies = [json_body x], parsed = [x]\<rparr>),
     (4, \<lparr>bodies = [json_body x, b], parsed = [x, x]\<rparr>), (4, \<lparr>bodies = [json_body x, b], parsed = [x, x]\<rparr>),
     (5, \<lparr>bodies = [json_body x, b], parsed = [x, x]\<rparr>),
     (6, \<lparr>bodies = [json_body x, b, c], parsed = [x, x, x\<lparr>status := ''offline''\<rparr>]\<rparr>)] = Some Passed"
  using assms
  by (simp add: contract_test_def first_check_def keepalive_check_def offline_check_def check_registration_def Let_def
    split: if_splits)

end
