(* ===== verification/Spec2Isabelle.thy ===== *)
theory Spec2Isabelle
  imports Server_Properties Whole_System Publisher_Test Rom_Patch Trace_Tools Match_Frozen Relay_Main Publisher_Json Diff_Main Ghost_Peer Bench_Load
    Latency_Probe Server_Start Soak_Run Trace_Report Publisher_Run
begin

text \<open>
  The verification library of the Python code of the Intellivision golf netplay repository: the
  matchmaking and relay server, and the tools that patch the game and test the server and the game.

  \<^bold>\<open>The program.\<close> \<open>server/intv_relay_server.py\<close> is a single-threaded event loop (\<open>Server.run\<close>) over
  non-blocking sockets. Consoles connect, say HELLO with a name, list the lobby, join each other's
  rooms and start a match; then the server relays the frames of a match to the other members and
  compares their checksum reports. A second thread (\<open>LobbyPublisher\<close>) posts the number of players
  to a lobby service. \<open>tools/recon.py\<close>, \<open>tools/patches.py\<close>, \<open>tools/dump_rom.py\<close> and
  \<open>tools/check_patch.py\<close> find the call sites in the game's ROM image, patch them, and verify the
  patch. \<open>tools/crc_trace_diff.py\<close>, \<open>tools/cell_diff.py\<close>, \<open>tools/mk_replay.py\<close> and
  \<open>tools/check_dest_phase.py\<close> read memory dumps of runs of the patched game.
  \<open>tools/bbnet_client_sim.py\<close>, \<open>tools/server_diff.py\<close>, \<open>tools/ghost_peer.py\<close>, \<open>tools/soak.py\<close>,
  \<open>tools/test_lobby_pub.py\<close> and \<open>test/lobby_idlers.py\<close> drive the server or the publisher;
  \<open>tools/latency_probe_server.py\<close> is an echo server for measurements.

  \<^bold>\<open>How the code is modelled.\<close> A method of the server is a program over the record \<open>Server\<close> that
  may raise (\<open>Relay_Prelude\<close>: \<open>bind\<close>, \<open>catch\<close>, \<open>for_each\<close>, and \<open>wp\<close>, its weakest preconditions).
  Clients and rooms are shared mutable objects, so the state holds a store for each and refers to
  them by identity. Bytes are 8-bit words, strings are lists of code points, dicts are association
  lists in insertion order, Python's integers are \<open>int\<close> or \<open>nat\<close>. What the operating system
  answers (how much a socket takes, what it receives, what \<open>select\<close> reports, the clock, the random
  generator) is an arbitrary script in the state or an argument.

  \<^bold>\<open>The theories.\<close>
  \<^item> \<open>Relay_Prelude\<close>: Python values, programs, the rules for \<open>wp\<close>, lemmas on lists and dicts.
  \<^item> \<open>Wire_Format\<close>: message types, limits, \<open>frame\<close>, names, and the frame reassembly of \<open>service\<close>
    as a scanner. The locale \<open>frame_scanner\<close> is what a scanner promises; its lemmas say that the
    segmentation of TCP does not matter. It is interpreted for the server and for the consoles.
  \<^item> \<open>Relay_State\<close>: the classes \<open>Client\<close>, \<open>Room\<close> and \<open>Server\<close>, and the log records.
  \<^item> \<open>Transport\<close>, \<open>Transport_Inv\<close>, \<open>Transport_Correct\<close>: \<open>flush\<close>, \<open>send\<close>, \<open>drop\<close>,
    \<open>room_broadcast\<close>, \<open>dissolve\<close>. A send that fails drops its client, and a drop sends; the circle
    is closed by a budget, of which the number of connected clients is enough since every drop
    removes one. The locales \<open>sender\<close> and \<open>dropper\<close> are the two sides of the circle.
  \<^item> \<open>Matchmaking\<close>, \<open>Matchmaking_Correct\<close>: the handlers of all messages, and that each of them keeps
    the invariant and raises nothing but a protocol error.
  \<^item> \<open>Delivery\<close>, \<open>Departure\<close>, \<open>Crc_Comparator\<close>: what the peers receive from a relay, a start, a
    broadcast and a drop; the verdict on a round of checksums.
  \<^item> \<open>Relay_Loop\<close>, \<open>Relay_Loop_Correct\<close>: \<open>accept\<close>, \<open>service\<close>, \<open>sweep\<close>, \<open>log_stats\<close>, one pass of
    \<open>run\<close>, the states \<open>reachable\<close> by passes, and their invariant. A \<open>service\<close> has one round more
    than there are bytes in the buffer, and every round removes a byte.
  \<^item> \<open>Execution\<close>: running programs of the model by the simplifier, and concrete states.
  \<^item> \<open>Server_Properties\<close>: the properties of the server over its reachable states.
  \<^item> \<open>Lobby_Publisher\<close>, \<open>Publisher_Live\<close>, \<open>Publisher_Test\<close>, \<open>Publisher_Json\<close>,
    \<open>Publisher_Run\<close>: the publisher as a step relation of its
    worker, the main thread and the requests, in any interleaving; its invariants; liveness under
    weak fairness; the registration check of its contract test; the JSON body, which determines the
    payload; and whole runs of the contract test with its mock lobby and its waits.
  \<^item> \<open>Kept_Predicates\<close>: the locale \<open>kept\<close> is what a predicate on the state must survive so that every
    operation keeps it wherever it is left; interpreted in the next two.
  \<^item> \<open>Match_Frozen\<close>: a started match keeps its members, seats and seed until it ends.
  \<^item> \<open>Lobby_Feed\<close>, \<open>Whole_System\<close>: every change of the table of names is told to the publisher; and
    \<open>main\<close>: the loop, the worker and the shutdown together, in any interleaving.
  \<^item> \<open>Relay_Main\<close>: the arguments of \<open>main\<close> and what it starts from them.
  \<^item> \<open>Rom_Image\<close>, \<open>Rom_Patch\<close>, \<open>Rom_Report\<close>: the decoders of \<open>recon.py\<close> and what its report lists; the
    patch map, the generated source, and its verification; and the text that the three tools write.
    The assembler is a parameter, described by what it makes of the expressions it is given.
  \<^item> \<open>Trace_Tools\<close>, \<open>Trace_Report\<close>: the dump parser and the four tools over the memory it builds; the
    text they print, and that the generated replay table assembles to the recorded inputs.
  \<^item> \<open>Client_Frames\<close>, \<open>Test_Bench\<close>: how the tools build and read frames; the model of the server
    with consoles around it, and the class \<open>Cli\<close> of \<open>bbnet_client_sim.py\<close>.
  \<^item> \<open>Sim_Gate\<close>, \<open>Bench_Correct\<close>: the scenarios of \<open>bbnet_client_sim.py\<close>, and what they show.
  \<^item> \<open>Diff_Tool\<close>, \<open>Diff_Run\<close>, \<open>Diff_Correct\<close>, \<open>Diff_Main\<close>: \<open>server_diff.py\<close>: rendering, normalising
    and comparing; \<open>sync\<close> and the scenarios; what they record; and the decisions of \<open>main\<close>.
  \<^item> \<open>Ghost_Peer\<close>, \<open>Bench_Load\<close>, \<open>Latency_Probe\<close>: \<open>ghost_peer.py\<close>, \<open>lobby_idlers.py\<close> and \<open>soak.py\<close>;
    \<open>latency_probe_server.py\<close>.
  \<^item> \<open>Server_Start\<close>, \<open>Soak_Run\<close>: the command lines of the servers that the tools start and the waits
    until they are up; the main loop of \<open>soak.py\<close> with its samples and its summary.

  \<^bold>\<open>What is shown.\<close> For the server: every reachable state is well-formed and within its limits; the
  only exception that leaves a pass of the loop is one of \<open>srv.accept()\<close>; \<open>drop\<close> returns; sends
  are whole or drop the client; a started match is frozen until it ends; and the effect of every
  message on every branch. Together with the publisher: what the lobby service is told is the number of registered names. For the publisher:
  no update is lost, requests are spaced, an update is posted in every fair run, and the offline
  request comes last. For the ROM tools: round trips of the encodings, exactness of the scans and of
  the verifier, and that the text of the generated source assembles to the patched words. For the test tools: what their verdict means, that none of their scripts can break
  the server, and that the consoles read what the server sends.

  \<^bold>\<open>The test bench.\<close> A script of a console tool runs against the model of the server over a loopback:
  every socket takes what is sent in full, what is sent arrives at once, and the server has served a
  message before the script goes on. A connection that the server refuses or drops reads as end of
  file, and what is sent to it is lost. Loops of the tools that wait for input have a budget of one
  round more than there are bytes to receive; where a tool loops until a deadline, the list of its
  rounds is a parameter.

  \<^bold>\<open>What is not modelled.\<close> The parsing of command lines and the set-up of logging; interrupts in the middle of a pass; the printed text of
  the tools that drive the server, apart from what is compared; the HTTP of the publisher and of its mock lobby; the
  starting and stopping of server processes, apart from their command lines and the waits; the version 1 server that \<open>server_diff.py\<close> can
  be pointed at, which is in other repositories (its version 1 scenarios are run against the server of
  this one, which turns them away); and everything in other languages: the C port of the relay, the assembly code, the shell scripts.
\<close>

end
